(* ===== verification/Runtime_Prelude.thy ===== *)
theory Runtime_Prelude
  imports Main "HOL-Library.AList"
begin

text \<open>
  What every component of the runtime shares: the insertion-ordered map of JavaScript as an
  association list, the nullish operator, and the notion of a component that reacts to events.

  A JavaScript \<open>Map\<close> remembers the order in which its keys were first inserted; \<open>set\<close> on a
  present key keeps its place, \<open>delete\<close> takes the entry out.  This is what \<^const>\<open>AList.update\<close>
  and \<^const>\<open>AList.delete\<close> do to an association list with distinct keys.
\<close>

named_theorems map_simps \<open>rewrite rules for insertion-ordered maps\<close>

type_synonym ('k, 'v) js_map = "('k \<times> 'v) list"

abbreviation map_get :: "('k, 'v) js_map \<Rightarrow> 'k \<Rightarrow> 'v option" where
  "map_get m k \<equiv> map_of m k"

abbreviation map_set :: "'k \<Rightarrow> 'v \<Rightarrow> ('k, 'v) js_map \<Rightarrow> ('k, 'v) js_map" where
  "map_set \<equiv> AList.update"

abbreviation map_delete :: "'k \<Rightarrow> ('k, 'v) js_map \<Rightarrow> ('k, 'v) js_map" where
  "map_delete \<equiv> AList.delete"

abbreviation map_keys :: "('k, 'v) js_map \<Rightarrow> 'k list" where
  "map_keys m \<equiv> map fst m"

abbreviation map_values :: "('k, 'v) js_map \<Rightarrow> 'v list" where
  "map_values m \<equiv> map snd m"

text \<open>\<open>x ?? d\<close>: the value, or the default when it is null or undefined.\<close>

definition nullish :: "'a option \<Rightarrow> 'a \<Rightarrow> 'a" where
  "nullish x d = (case x of None \<Rightarrow> d | Some v \<Rightarrow> v)"

lemma nullish_simps [simp]: "nullish None d = d" "nullish (Some v) d = v"
  by (simp_all add: nullish_def)

lemma find_Some_mem: "List.find P xs = Some x \<Longrightarrow> x \<in> set xs \<and> P x"
  by (induction xs) (auto split: if_splits)

subsection \<open>The insertion-ordered map as an interface\<close>

text \<open>
  What the stores rely on: reading after a write or a deletion, and the order of iteration,
  which is the order in which updates are sent to watchers.
\<close>

locale insertion_map =
  fixes get :: "'m \<Rightarrow> 'k \<Rightarrow> 'v option"
    and put :: "'k \<Rightarrow> 'v \<Rightarrow> 'm \<Rightarrow> 'm"
    and del :: "'k \<Rightarrow> 'm \<Rightarrow> 'm"
    and entries :: "'m \<Rightarrow> ('k \<times> 'v) list"
    and valid :: "'m \<Rightarrow> bool"
  assumes get_entries: "valid m \<Longrightarrow> get m k = Some v \<longleftrightarrow> (k, v) \<in> set (entries m)"
    and distinct_entries: "valid m \<Longrightarrow> distinct (map fst (entries m))"
    and put_valid: "valid m \<Longrightarrow> valid (put k v m)"
    and del_valid: "valid m \<Longrightarrow> valid (del k m)"
    and put_fresh: "valid m \<Longrightarrow> get m k = None \<Longrightarrow> entries (put k v m) = entries m @ [(k, v)]"
    and put_present: "valid m \<Longrightarrow> get m k = Some w \<Longrightarrow>
      entries (put k v m) = map (\<lambda>(k', v'). if k' = k then (k, v) else (k', v')) (entries m)"
    and del_entries: "entries (del k m) = filter (\<lambda>(k', v'). k' \<noteq> k) (entries m)"
begin

lemma get_None: "valid m \<Longrightarrow> get m k = None \<longleftrightarrow> k \<notin> fst ` set (entries m)"
  using get_entries by (metis (no_types, lifting) fst_conv image_iff not_None_eq prod.collapse)

lemma get_del: "valid m \<Longrightarrow> get (del k m) k' = (if k' = k then None else get m k')"
proof (cases "get (del k m) k'")
  case None
  assume "valid m"
  with None have "k' \<notin> fst ` set (entries (del k m))" using get_None del_valid by blast
  then have "k' \<noteq> k \<Longrightarrow> k' \<notin> fst ` set (entries m)" by (force simp: del_entries)
  with None \<open>valid m\<close> show ?thesis using get_None [of m k'] by (cases "k' = k") simp_all
next
  case (Some v)
  assume "valid m"
  with Some have "(k', v) \<in> set (entries (del k m))" using get_entries del_valid by blast
  then have "k' \<noteq> k" and "(k', v) \<in> set (entries m)" by (auto simp: del_entries)
  with Some \<open>valid m\<close> show ?thesis using get_entries [of m k' v] by simp
qed

lemma put_fresh_del: "valid m \<Longrightarrow> get m k = None \<Longrightarrow> entries (del k (put k v m)) = entries m"
  by (force simp: del_entries put_fresh filter_id_conv get_None)

end

lemma update_fresh [map_simps]: "k \<notin> fst ` set m \<Longrightarrow> map_set k v m = m @ [(k, v)]"
  by (induction m) auto

lemma update_present [map_simps]:
  "distinct (map fst m) \<Longrightarrow> k \<in> fst ` set m \<Longrightarrow>
   map_set k v m = map (\<lambda>(k', v'). if k' = k then (k, v) else (k', v')) m"
proof (induction m)
  case (Cons p m)
  show ?case
  proof (cases "fst p = k")
    case True
    with Cons.prems have "\<forall>q \<in> set m. fst q \<noteq> k" by (auto simp: image_iff)
    then have "map (\<lambda>(k', v'). if k' = k then (k, v) else (k', v')) m = m"
      by (auto intro!: map_idI)
    with True show ?thesis by (cases p) simp
  next
    case False
    with Cons show ?thesis by (cases p) auto
  qed
qed simp

lemma delete_filter [map_simps]: "map_delete k m = filter (\<lambda>(k', v'). k' \<noteq> k) m"
  by (induction m) auto

lemma map_of_Some_iff: "distinct (map fst m) \<Longrightarrow> map_of m k = Some v \<longleftrightarrow> (k, v) \<in> set m"
  by (auto intro: map_of_is_SomeI dest: map_of_SomeD)

lemma map_of_None_iff: "map_of m k = None \<longleftrightarrow> k \<notin> fst ` set m"
  by (simp add: map_of_eq_None_iff)

lemma distinct_keys_filter: "distinct (map fst m) \<Longrightarrow> distinct (map fst (filter P m))"
  by (induction m) auto

interpretation jm: insertion_map map_of AList.update AList.delete "\<lambda>m. m" "\<lambda>m. distinct (map fst m)"
proof unfold_locales
  fix m :: "('a \<times> 'b) list" and k v w
  show "distinct (map fst m) \<Longrightarrow> map_of m k = None \<Longrightarrow> map_set k v m = m @ [(k, v)]"
    by (simp add: update_fresh map_of_None_iff)
  show "distinct (map fst m) \<Longrightarrow> map_of m k = Some w \<Longrightarrow>
    map_set k v m = map (\<lambda>(k', v'). if k' = k then (k, v) else (k', v')) m"
    by (rule update_present) (force dest: map_of_SomeD)+
qed (simp_all add: map_of_Some_iff distinct_update distinct_keys_filter delete_filter)

lemma set_update_fresh: "map_of m k = None \<Longrightarrow> set (map_set k v m) = insert (k, v) (set m)"
  by (simp add: update_fresh map_of_None_iff)

lemma set_update_distinct:
  "distinct (map fst m) \<Longrightarrow> set (map_set k v m) = insert (k, v) {p \<in> set m. fst p \<noteq> k}"
  by (induction m) (force split: if_splits)+

lemma keys_update: "map fst (map_set k v m) = (if k \<in> fst ` set m then map fst m else map fst m @ [k])"
  by (induction m) auto

lemma list_all_update: "list_all P xs \<Longrightarrow> P x \<Longrightarrow> list_all P (xs[i := x])"
  unfolding list_all_iff by (auto dest: set_update_subset_insert [THEN subsetD])

subsection \<open>Components that react to events\<close>

text \<open>
  A component is a state and a total function from a state and an event to the next state.
  Whatever each event preserves holds after every sequence of events.
\<close>

locale reactive =
  fixes step :: "'s \<Rightarrow> 'e \<Rightarrow> 's"
    and inv :: "'s \<Rightarrow> bool"
  assumes inv_step: "inv s \<Longrightarrow> inv (step s e)"
begin

lemma inv_run: "inv s \<Longrightarrow> inv (foldl step s es)"
  by (induction es arbitrary: s) (simp_all add: inv_step)

lemma inv_run_prefix: "inv s \<Longrightarrow> es = as @ bs \<Longrightarrow> inv (foldl step s as)"
  by (rule inv_run)

end

text \<open>The same with a relation between two states: what every event keeps related stays related.\<close>

locale reactive_rel =
  fixes step :: "'s \<Rightarrow> 'e \<Rightarrow> 's"
    and rel :: "'s \<Rightarrow> 's \<Rightarrow> bool"
  assumes rel_refl: "rel s s"
    and rel_trans: "rel s t \<Longrightarrow> rel t u \<Longrightarrow> rel s u"
    and rel_step: "rel s (step s e)"
begin

lemma rel_run: "rel s (foldl step s es)"
proof (induction es arbitrary: s)
  case Nil
  show ?case by (simp add: rel_refl)
next
  case (Cons e es)
  from rel_step Cons.IH show ?case by (simp add: rel_trans [of s "step s e"])
qed

end

end
