(* ===== verification/Js_Number.thy ===== *)
theory Js_Number
  imports Complex_Main "HOL-Library.Log_Nat"
begin

text \<open>
  The arithmetic of JavaScript numbers.  A \<open>number\<close> is an IEEE 754 double: the result of every
  operation is the exact result rounded to 53 significant bits, ties to even.  \<open>fl\<close> is that
  rounding on the rationals; the code's \<open>a + b\<close>, \<open>a * b\<close> and \<open>a / b\<close> on fractional quantities
  are \<open>fl (a + b)\<close>, \<open>fl (a * b)\<close> and \<open>fl (a / b)\<close>.  Integers up to \<open>2 ^ 53\<close> are exact, which is
  why counters and millisecond clocks are modelled as \<open>int\<close>.  Overflow to infinity (from
  \<open>2 ^ 1024\<close> on) and the sign of zero are outside \<open>fl\<close>.
\<close>

named_theorems fl_rules \<open>facts that carry bounds through rounded arithmetic\<close>

text \<open>The exponent of the leading bit of a positive rational: \<open>2 powi e \<le> q < 2 powi (e + 1)\<close>.\<close>

definition lead_exp :: "rat \<Rightarrow> int" where
  "lead_exp q =
     (if 1 \<le> q then int (floorlog 2 (nat \<lfloor>q\<rfloor>)) - 1
      else - int (ceillog2 (nat \<lceil>1 / q\<rceil>)))"

text \<open>Round to the nearest integer, a tie to the even one.\<close>

definition round_half_even :: "rat \<Rightarrow> int" where
  "round_half_even x =
     (let d = x - of_int \<lfloor>x\<rfloor> in
      if d < 1 / 2 then \<lfloor>x\<rfloor>
      else if 1 / 2 < d then \<lfloor>x\<rfloor> + 1
      else if even \<lfloor>x\<rfloor> then \<lfloor>x\<rfloor> else \<lfloor>x\<rfloor> + 1)"

text \<open>The exponent of the last place, bounded below by that of the subnormal numbers.\<close>

definition last_exp :: "rat \<Rightarrow> int" where
  "last_exp q = max (lead_exp q - 52) (- 1074)"

definition fl_pos :: "rat \<Rightarrow> rat" where
  "fl_pos q = of_int (round_half_even (q / 2 powi (last_exp q))) * 2 powi (last_exp q)"

definition fl :: "rat \<Rightarrow> rat" where
  "fl q = (if q = 0 then 0 else if 0 < q then fl_pos q else - fl_pos (- q))"

subsection \<open>Rounding to an integer\<close>

lemma round_half_even_of_int [simp]: "round_half_even (of_int n) = n"
  by (simp add: round_half_even_def)

lemma round_half_even_ge: "of_int n \<le> x \<Longrightarrow> n \<le> round_half_even x"
  using le_floor_iff [of n x] by (auto simp: round_half_even_def Let_def)

lemma round_half_even_le: "x \<le> of_int n \<Longrightarrow> round_half_even x \<le> n"
proof -
  assume h: "x \<le> of_int n"
  show ?thesis
  proof (cases "x = of_int n")
    case True
    then show ?thesis by simp
  next
    case False
    with h have "x < of_int n" by simp
    then have "\<lfloor>x\<rfloor> < n" by (simp add: floor_less_iff)
    then show ?thesis by (auto simp: round_half_even_def Let_def)
  qed
qed

lemma round_half_even_mono: "x \<le> y \<Longrightarrow> round_half_even x \<le> round_half_even y"
proof -
  assume h: "x \<le> y"
  show ?thesis
  proof (cases "\<lfloor>x\<rfloor> = \<lfloor>y\<rfloor>")
    case True
    with h show ?thesis by (auto simp: round_half_even_def Let_def)
  next
    case False
    with h have "\<lfloor>x\<rfloor> + 1 \<le> \<lfloor>y\<rfloor>" using floor_mono [OF h] by linarith
    moreover have "round_half_even x \<le> \<lfloor>x\<rfloor> + 1"
      by (rule round_half_even_le) linarith
    moreover have "\<lfloor>y\<rfloor> \<le> round_half_even y" by (rule round_half_even_ge) simp
    ultimately show ?thesis by linarith
  qed
qed

lemma round_half_even_error: "\<bar>of_int (round_half_even x) - x\<bar> \<le> 1 / 2"
proof -
  have "of_int \<lfloor>x\<rfloor> \<le> x" "x < of_int \<lfloor>x\<rfloor> + 1" by linarith+
  then show ?thesis by (auto simp: round_half_even_def Let_def abs_le_iff)
qed

subsection \<open>The exponent of a positive rational\<close>

lemma two_powi_pos [simp]: "(0::rat) < 2 powi e"
  by (rule zero_less_power_int) simp

lemma two_powi_mono: "a \<le> b \<Longrightarrow> (2::rat) powi a \<le> 2 powi b"
  by (rule power_int_increasing) simp_all

lemma two_powi_less_iff: "(2::rat) powi a < 2 powi b \<longleftrightarrow> a < b"
proof (cases "a < b")
  case True
  then show ?thesis by (simp add: power_int_strict_increasing)
next
  case False
  then show ?thesis using two_powi_mono [of b a] by simp
qed

lemma lead_exp_bounds:
  assumes "0 < q"
  shows "2 powi (lead_exp q) \<le> q \<and> q < 2 powi (lead_exp q + 1)"
proof (cases "1 \<le> q")
  case True
  define n where "n = nat \<lfloor>q\<rfloor>"
  from True have n: "0 < n" "of_int \<lfloor>q\<rfloor> = (of_nat n :: rat)"
    by (simp_all add: n_def)
  from n(1) have b: "2 ^ (floorlog 2 n - 1) \<le> n" "n < 2 ^ floorlog 2 n"
    using floorlog_bounds [of n 2] by simp_all
  have pos: "0 < floorlog 2 n" using n(1) floorlog_eq_zero_iff [of 2 n] by linarith
  have e: "lead_exp q = int (floorlog 2 n - 1)" "lead_exp q + 1 = int (floorlog 2 n)"
    using True pos by (simp_all add: lead_exp_def n_def)
  have "(2::rat) ^ (floorlog 2 n - 1) \<le> of_nat n"
    using b(1) by (metis of_nat_le_iff of_nat_numeral of_nat_power)
  moreover have "of_nat n + 1 \<le> (2::rat) ^ floorlog 2 n"
    using b(2) by (metis Suc_leI of_nat_Suc of_nat_le_iff of_nat_numeral of_nat_power add.commute)
  moreover have "of_nat n \<le> q" "q < of_nat n + 1" using n(2) by linarith+
  ultimately have "2 ^ (floorlog 2 n - 1) \<le> q" "q < 2 ^ floorlog 2 n" by linarith+
  then show ?thesis unfolding e(2) unfolding e(1) by simp
next
  case False
  define m where "m = nat \<lceil>1 / q\<rceil>"
  have one: "1 < 1 / q" using assms False by (simp add: field_simps)
  then have m: "1 < m" "of_int \<lceil>1 / q\<rceil> = (of_nat m :: rat)" by (simp_all add: m_def)
  have k: "m \<le> 2 ^ ceillog2 m" "2 ^ ceillog2 m < 2 * m"
    using le_two_power_ceillog2 [of m] two_power_ceillog2_gt [of m] m(1) by simp_all
  from k(1) m(1) have kpos: "0 < ceillog2 m" by (cases "ceillog2 m") simp_all
  then obtain j where j: "ceillog2 m = Suc j" using gr0_implies_Suc by blast
  have "1 / q \<le> of_nat m" "of_nat m < 1 / q + 1" using m(2) by linarith+
  moreover have "of_nat m \<le> (2::rat) ^ ceillog2 m"
    using k(1) by (metis of_nat_le_iff of_nat_numeral of_nat_power)
  moreover from k(2) j have "2 ^ j + 1 \<le> m" by simp
  from of_nat_mono [OF this, where 'a = rat] have "(2::rat) ^ j + 1 \<le> of_nat m" by simp
  ultimately have "1 / q \<le> 2 ^ ceillog2 m" "2 ^ j < 1 / q" by linarith+
  then have "inverse (2 ^ ceillog2 m) \<le> q" "q < inverse (2 ^ j)"
    using assms by (simp_all add: field_simps)
  moreover have "lead_exp q = - int (ceillog2 m)" using False by (simp add: lead_exp_def m_def)
  moreover have "- int (ceillog2 m) + 1 = - int j" using j by simp
  ultimately show ?thesis by (simp add: power_int_minus)
qed

lemma lead_exp_unique:
  assumes "2 powi e \<le> q" "q < 2 powi (e + 1)"
  shows "lead_exp q = e"
proof -
  have q: "0 < q" using two_powi_pos [of e] assms(1) by linarith
  note b = lead_exp_bounds [OF q]
  have "2 powi e < (2::rat) powi (lead_exp q + 1)" using b assms(1) by linarith
  moreover have "2 powi (lead_exp q) < (2::rat) powi (e + 1)" using b assms(2) by linarith
  ultimately show ?thesis by (simp add: two_powi_less_iff)
qed

lemma lead_exp_mono: "0 < p \<Longrightarrow> p \<le> q \<Longrightarrow> lead_exp p \<le> lead_exp q"
proof -
  assume h: "0 < p" "p \<le> q"
  have "2 powi (lead_exp p) < (2::rat) powi (lead_exp q + 1)"
    using lead_exp_bounds [of p] lead_exp_bounds [of q] h by linarith
  then show ?thesis by (simp add: two_powi_less_iff)
qed

subsection \<open>Rounding is monotone and keeps representable numbers\<close>

lemma last_exp_mono: "0 < p \<Longrightarrow> p \<le> q \<Longrightarrow> last_exp p \<le> last_exp q"
  using lead_exp_mono [of p q] by (simp add: last_exp_def)

lemma powi_split: "l \<le> k \<Longrightarrow> (2::rat) powi k = 2 ^ nat (k - l) * 2 powi l"
proof -
  assume "l \<le> k"
  then have "k = int (nat (k - l)) + l" by simp
  then show ?thesis by (metis power_int_add power_int_of_nat zero_neq_numeral)
qed

lemma fl_pos_ge:
  assumes "of_int m * 2 powi k \<le> q" "last_exp q \<le> k"
  shows "of_int m * 2 powi k \<le> fl_pos q"
proof -
  let ?l = "last_exp q"
  have eq: "(of_int m :: rat) * 2 powi k = of_int (m * 2 ^ nat (k - ?l)) * 2 powi ?l"
    using powi_split [OF assms(2)] by simp
  with assms(1) have "of_int (m * 2 ^ nat (k - ?l)) \<le> q / 2 powi ?l"
    by (simp only: pos_le_divide_eq two_powi_pos)
  then have "m * 2 ^ nat (k - ?l) \<le> round_half_even (q / 2 powi ?l)"
    by (rule round_half_even_ge)
  then have "of_int (m * 2 ^ nat (k - ?l)) * 2 powi ?l \<le> fl_pos q"
    unfolding fl_pos_def by (intro mult_right_mono) (simp_all only: of_int_le_iff two_powi_pos less_imp_le)
  with eq show ?thesis by (simp only:)
qed

lemma fl_pos_le:
  assumes "q \<le> of_int m * 2 powi k" "last_exp q \<le> k"
  shows "fl_pos q \<le> of_int m * 2 powi k"
proof -
  let ?l = "last_exp q"
  have eq: "(of_int m :: rat) * 2 powi k = of_int (m * 2 ^ nat (k - ?l)) * 2 powi ?l"
    using powi_split [OF assms(2)] by simp
  with assms(1) have "q / 2 powi ?l \<le> of_int (m * 2 ^ nat (k - ?l))"
    by (simp only: pos_divide_le_eq two_powi_pos)
  then have "round_half_even (q / 2 powi ?l) \<le> m * 2 ^ nat (k - ?l)"
    by (rule round_half_even_le)
  then have "fl_pos q \<le> of_int (m * 2 ^ nat (k - ?l)) * 2 powi ?l"
    unfolding fl_pos_def by (intro mult_right_mono) (simp_all only: of_int_le_iff two_powi_pos less_imp_le)
  with eq show ?thesis by (simp only:)
qed

lemma fl_pos_nonneg: "0 < q \<Longrightarrow> 0 \<le> fl_pos q"
  using fl_pos_ge [of 0 "last_exp q" q] by simp

lemma fl_pos_mono: "0 < p \<Longrightarrow> p \<le> q \<Longrightarrow> fl_pos p \<le> fl_pos q"
proof -
  assume h: "0 < p" "p \<le> q"
  show ?thesis
  proof (cases "last_exp p = last_exp q")
    case True
    have "round_half_even (p / 2 powi last_exp q) \<le> round_half_even (q / 2 powi last_exp q)"
      using h(2) by (intro round_half_even_mono divide_right_mono) (simp_all add: less_imp_le)
    with True show ?thesis
      unfolding fl_pos_def by (simp add: mult_right_mono less_imp_le)
  next
    case False
    let ?k = "lead_exp q"
    have lt: "last_exp p < last_exp q" using False last_exp_mono [OF h] by simp
    then have "lead_exp p < ?k" and kq: "last_exp q \<le> ?k"
      by (auto simp: last_exp_def max_def split: if_splits)
    then have "p \<le> 2 powi ?k"
      using lead_exp_bounds [OF h(1)] two_powi_mono [of "lead_exp p + 1" ?k] by linarith
    then have "fl_pos p \<le> 2 powi ?k" using fl_pos_le [of p 1 ?k] lt kq by simp
    moreover have "2 powi ?k \<le> fl_pos q"
      using fl_pos_ge [of 1 ?k q] kq lead_exp_bounds [of q] h by simp
    ultimately show ?thesis by linarith
  qed
qed

lemma fl_zero [simp]: "fl 0 = 0"
  by (simp add: fl_def)

lemma fl_minus: "fl (- q) = - fl q"
  by (auto simp: fl_def)

lemma fl_nonneg [fl_rules]: "0 \<le> q \<Longrightarrow> 0 \<le> fl q"
  by (simp add: fl_def fl_pos_nonneg)

lemma fl_mono [fl_rules]: "p \<le> q \<Longrightarrow> fl p \<le> fl q"
proof -
  assume h: "p \<le> q"
  consider "0 < p" | "p \<le> 0" "0 \<le> q" | "q < 0" by linarith
  then show ?thesis
  proof cases
    case 1
    with h show ?thesis by (simp add: fl_def fl_pos_mono)
  next
    case 2
    have "0 \<le> fl (- p)" "0 \<le> fl q" using 2 by (auto intro: fl_nonneg)
    then show ?thesis by (simp add: fl_minus)
  next
    case 3
    with h have "fl_pos (- q) \<le> fl_pos (- p)" by (intro fl_pos_mono) simp_all
    with 3 h show ?thesis by (simp add: fl_def)
  qed
qed

lemma last_exp_le: "0 < q \<Longrightarrow> q < 2 powi (k + 53) \<Longrightarrow> - 1074 \<le> k \<Longrightarrow> last_exp q \<le> k"
proof -
  assume h: "0 < q" "q < 2 powi (k + 53)" "- 1074 \<le> k"
  have "2 powi lead_exp q < (2::rat) powi (k + 53)"
    using lead_exp_bounds [OF h(1)] h(2) by linarith
  then show ?thesis using h(3) by (simp add: two_powi_less_iff last_exp_def)
qed

lemma fl_pos_int: "0 < n \<Longrightarrow> n \<le> 2 ^ 53 \<Longrightarrow> fl_pos (of_int n) = of_int n"
proof -
  assume h: "0 < n" "n \<le> 2 ^ 53"
  show ?thesis
  proof (cases "n = 2 ^ 53")
    case True
    have q: "of_int n = of_int 1 * (2::rat) powi 53" by (simp add: True)
    have "last_exp (of_int n) \<le> 53"
      using h by (intro last_exp_le) (simp_all add: True)
    then show ?thesis
      using fl_pos_le [of "of_int n" 1 53] fl_pos_ge [of 1 53 "of_int n"] q by simp
  next
    case False
    with h have "n < 2 ^ 53" by simp
    then have "of_int n < (of_int (2 ^ 53) :: rat)" by (simp only: of_int_less_iff)
    then have "last_exp (of_int n) \<le> 0" using h by (intro last_exp_le) simp_all
    then show ?thesis
      using fl_pos_le [of "of_int n" n 0] fl_pos_ge [of n 0 "of_int n"] by simp
  qed
qed

lemma fl_int [fl_rules]: "\<bar>n\<bar> \<le> 2 ^ 53 \<Longrightarrow> fl (of_int n) = of_int n"
proof -
  assume h: "\<bar>n\<bar> \<le> 2 ^ 53"
  consider "0 < n" | "n = 0" | "n < 0" by linarith
  then show ?thesis
  proof cases
    case 3
    then have "fl_pos (of_int (- n)) = of_int (- n)" using h by (intro fl_pos_int) simp_all
    with 3 show ?thesis by (simp add: fl_def)
  qed (use h in \<open>simp_all add: fl_def fl_pos_int\<close>)
qed

lemma fl_ge_int [fl_rules]: "\<bar>n\<bar> \<le> 2 ^ 53 \<Longrightarrow> of_int n \<le> q \<Longrightarrow> of_int n \<le> fl q"
  using fl_mono [of "of_int n" q] fl_int [of n] by simp

lemma fl_le_int [fl_rules]: "\<bar>n\<bar> \<le> 2 ^ 53 \<Longrightarrow> q \<le> of_int n \<Longrightarrow> fl q \<le> of_int n"
  using fl_mono [of q "of_int n"] fl_int [of n] by simp

lemma fl_numeral [simp]: "(numeral n :: int) \<le> 2 ^ 53 \<Longrightarrow> fl (numeral n) = numeral n"
  using fl_int [of "numeral n"] by simp

lemma fl_one [simp]: "fl 1 = 1"
  using fl_int [of 1] by simp

text \<open>An integer of at most 53 bits times a power of two is representable.\<close>

lemma fl_dyadic:
  assumes "0 \<le> m" "m < 2 ^ 53" "- 1074 \<le> k"
  shows "fl (of_int m * 2 powi k) = of_int m * 2 powi k"
proof (cases "m = 0")
  case False
  with assms(1) have pos: "(0::rat) < of_int m * 2 powi k" by simp
  have "(of_int m :: rat) < of_int (2 ^ 53)" using assms(2) by (simp only: of_int_less_iff)
  then have "(of_int m :: rat) < 2 powi 53" by simp
  then have "of_int m * 2 powi k < (2 powi 53 * 2 powi k :: rat)" by (rule mult_strict_right_mono) simp
  also have "\<dots> = 2 powi (k + 53)" by (simp add: power_int_add add.commute)
  finally have "last_exp (of_int m * 2 powi k) \<le> k" by (rule last_exp_le [OF pos _ assms(3)])
  then have "fl_pos (of_int m * 2 powi k) = of_int m * 2 powi k"
    using fl_pos_le [of "of_int m * 2 powi k" m k] fl_pos_ge [of m k "of_int m * 2 powi k"] by simp
  with pos show ?thesis by (simp add: fl_def)
qed simp

end
