(* ===== verification/Js_String.thy ===== *)
theory Js_String
  imports Main Js_Number
begin

text \<open>
  The string operations of JavaScript the runtime uses: \<open>trim\<close>, \<open>String(n)\<close> of an integer,
  \<open>parseInt(s, 10)\<close> and \<open>split(',')\<close>.  A string is a list of code units; those above 255 do not
  occur in the names, addresses and flags the modelled code handles.
\<close>

definition js_space :: "char \<Rightarrow> bool" where
  "js_space c = (of_char c \<in> {9, 10, 11, 12, 13, 32, 160 :: nat})"

definition trimStart :: "string \<Rightarrow> string" where
  "trimStart s = dropWhile js_space s"

definition trim :: "string \<Rightarrow> string" where
  "trim s = rev (dropWhile js_space (rev (trimStart s)))"

definition startsWith :: "string \<Rightarrow> string \<Rightarrow> bool" where
  "startsWith s p = (take (length p) s = p)"

subsection \<open>Decimal numerals\<close>

definition digit :: "nat \<Rightarrow> char" where
  "digit d = char_of (48 + d)"

definition is_digit :: "char \<Rightarrow> bool" where
  "is_digit c = (48 \<le> (of_char c :: nat) \<and> (of_char c :: nat) \<le> 57)"

definition digit_value :: "char \<Rightarrow> nat" where
  "digit_value c = of_char c - 48"

fun string_of_nat :: "nat \<Rightarrow> string" where
  "string_of_nat n = (if n < 10 then [digit n] else string_of_nat (n div 10) @ [digit (n mod 10)])"

declare string_of_nat.simps [simp del]

definition string_of_int :: "int \<Rightarrow> string" where
  "string_of_int i = (if i < 0 then CHR ''-'' # string_of_nat (nat (- i)) else string_of_nat (nat i))"

definition digits_value :: "string \<Rightarrow> nat" where
  "digits_value s = foldl (\<lambda>acc c. 10 * acc + digit_value c) 0 s"

text \<open>
  \<open>Number.parseInt(s, 10)\<close>: leading white space, an optional sign, the longest run of digits.
  \<open>None\<close> is NaN; a long numeral is rounded to the nearest double.
\<close>

definition parseInt_unsigned :: "string \<Rightarrow> int option" where
  "parseInt_unsigned s =
     (let ds = takeWhile is_digit s in
      if ds = [] then None else Some \<lfloor>fl (of_nat (digits_value ds))\<rfloor>)"

definition parseInt :: "string \<Rightarrow> int option" where
  "parseInt s =
     (case trimStart s of
        [] \<Rightarrow> None
      | c # cs \<Rightarrow>
          if c = CHR ''-'' then map_option uminus (parseInt_unsigned cs)
          else if c = CHR ''+'' then parseInt_unsigned cs
          else parseInt_unsigned (c # cs))"

subsection \<open>Splitting on a separator character\<close>

fun split_on :: "char \<Rightarrow> string \<Rightarrow> string list" where
  "split_on c [] = [[]]"
| "split_on c (x # xs) =
     (if x = c then [] # split_on c xs
      else (case split_on c xs of [] \<Rightarrow> [[x]] | p # ps \<Rightarrow> (x # p) # ps))"

subsection \<open>Round trips\<close>

lemma trim_no_space: "(\<forall>c \<in> set s. \<not> js_space c) \<Longrightarrow> trim s = s"
proof -
  assume h: "\<forall>c \<in> set s. \<not> js_space c"
  then have a: "dropWhile js_space s = s" by (cases s) simp_all
  from h have "dropWhile js_space (rev s) = rev s" by (cases s rule: rev_cases) simp_all
  with a show ?thesis by (simp add: trim_def trimStart_def)
qed

lemma trim_idem: "trim (trim s) = trim s"
proof -
  have front: "dropWhile js_space t = t" if "t = [] \<or> \<not> js_space (hd t)" for t
    using that by (cases t) auto
  let ?t = "trimStart s"
  have head: "?t = [] \<or> \<not> js_space (hd ?t)"
    using hd_dropWhile [of js_space s] by (auto simp: trimStart_def)
  obtain p where p: "?t = trim s @ p"
    by (metis rev_append rev_rev_ident takeWhile_dropWhile_id trim_def)
  have "trim s = [] \<or> \<not> js_space (hd (trim s))"
    using head p by (cases "trim s") auto
  then have "trimStart (trim s) = trim s" by (simp add: trimStart_def front)
  moreover have "dropWhile js_space (rev (trim s)) = rev (trim s)"
    by (simp add: trim_def)
  ultimately show ?thesis by (simp add: trim_def [of "trim s"])
qed

lemma of_char_digit [simp]: "d < 10 \<Longrightarrow> (of_char (digit d) :: nat) = 48 + d"
  by (simp add: digit_def)

lemma is_digit_digit [simp]: "d < 10 \<Longrightarrow> is_digit (digit d)"
  by (simp add: is_digit_def)

lemma digit_value_digit [simp]: "d < 10 \<Longrightarrow> digit_value (digit d) = d"
  by (simp add: digit_value_def)

lemma digits_value_snoc: "digits_value (s @ [c]) = 10 * digits_value s + digit_value c"
  by (simp add: digits_value_def)

lemma string_of_nat_nonempty [simp]: "string_of_nat n \<noteq> []"
  by (subst string_of_nat.simps) simp

lemma string_of_nat_digits: "\<forall>c \<in> set (string_of_nat n). is_digit c"
proof (induction n rule: string_of_nat.induct)
  case (1 n)
  then show ?case by (subst string_of_nat.simps) auto
qed

lemma digits_value_string_of_nat: "digits_value (string_of_nat n) = n"
proof (induction n rule: string_of_nat.induct)
  case (1 n)
  show ?case
  proof (cases "n < 10")
    case True
    then show ?thesis by (subst string_of_nat.simps) (simp add: digits_value_def)
  next
    case False
    with 1 show ?thesis by (subst string_of_nat.simps) (simp add: digits_value_snoc)
  qed
qed

lemma string_of_nat_inj: "string_of_nat m = string_of_nat n \<longleftrightarrow> m = n"
  using digits_value_string_of_nat by metis

lemma is_digit_facts: "is_digit c \<Longrightarrow> \<not> js_space c \<and> c \<noteq> CHR ''-'' \<and> c \<noteq> CHR ''+''"
  by (auto simp: is_digit_def js_space_def)

lemma parseInt_unsigned_string_of_nat:
  "int n \<le> 2 ^ 53 \<Longrightarrow> parseInt_unsigned (string_of_nat n) = Some (int n)"
proof -
  assume h: "int n \<le> 2 ^ 53"
  have tw: "takeWhile is_digit (string_of_nat n) = string_of_nat n"
    by (simp add: takeWhile_eq_all_conv string_of_nat_digits)
  have "fl (of_nat n) = of_int (int n)" using fl_int [of "int n"] h by simp
  then show ?thesis by (simp add: parseInt_unsigned_def tw digits_value_string_of_nat)
qed

lemma string_of_nat_head: "is_digit (hd (string_of_nat n))"
  using string_of_nat_digits by (metis list.set_sel(1) string_of_nat_nonempty)

lemma parseInt_string_of_nat: "int n \<le> 2 ^ 53 \<Longrightarrow> parseInt (string_of_nat n) = Some (int n)"
proof -
  assume h: "int n \<le> 2 ^ 53"
  obtain c cs where s: "string_of_nat n = c # cs" by (meson list.exhaust string_of_nat_nonempty)
  with string_of_nat_head [of n] have "is_digit c" by simp
  with is_digit_facts s have "trimStart (string_of_nat n) = c # cs" "c \<noteq> CHR ''-''" "c \<noteq> CHR ''+''"
    by (auto simp: trimStart_def)
  then show ?thesis using parseInt_unsigned_string_of_nat [OF h] s by (simp add: parseInt_def)
qed

lemma parseInt_string_of_int: "\<bar>i\<bar> \<le> 2 ^ 53 \<Longrightarrow> parseInt (string_of_int i) = Some i"
proof (cases "i < 0")
  case True
  assume "\<bar>i\<bar> \<le> 2 ^ 53"
  with True have "parseInt_unsigned (string_of_nat (nat (- i))) = Some (- i)"
    using parseInt_unsigned_string_of_nat [of "nat (- i)"] by simp
  with True show ?thesis by (simp add: parseInt_def string_of_int_def trimStart_def js_space_def)
next
  case False
  assume "\<bar>i\<bar> \<le> 2 ^ 53"
  with False show ?thesis using parseInt_string_of_nat [of "nat i"] by (simp add: string_of_int_def)
qed

lemma parseInt_append:
  assumes "\<not> is_digit c"
  shows "parseInt (string_of_nat n @ c # suffix) = parseInt (string_of_nat n)"
proof -
  have d: "\<forall>x \<in> set (string_of_nat n). is_digit x" by (rule string_of_nat_digits)
  have "takeWhile is_digit (string_of_nat n @ c # suffix) = string_of_nat n"
    "takeWhile is_digit (string_of_nat n) = string_of_nat n"
    using d assms by (simp_all add: takeWhile_append2)
  then have "parseInt_unsigned (string_of_nat n @ c # suffix) = parseInt_unsigned (string_of_nat n)"
    unfolding parseInt_unsigned_def by (simp only:)
  moreover obtain x xs where x: "string_of_nat n = x # xs" by (cases "string_of_nat n") auto
  moreover from x d have "\<not> js_space x" "x \<noteq> CHR ''-''" "x \<noteq> CHR ''+''" using is_digit_facts by auto
  ultimately show ?thesis by (simp add: parseInt_def trimStart_def)
qed

lemma string_of_int_nonempty [simp]: "string_of_int i \<noteq> []"
  by (simp add: string_of_int_def)

lemma string_of_int_inj: "string_of_int i = string_of_int j \<longleftrightarrow> i = j"
proof
  have no_minus: "string_of_nat n \<noteq> CHR ''-'' # r" for n r
    using string_of_nat_head [of n] is_digit_facts by (metis list.sel(1))
  assume "string_of_int i = string_of_int j"
  then show "i = j"
    using no_minus by (auto simp: string_of_int_def string_of_nat_inj split: if_splits) metis+
qed simp

lemma split_on_none: "c \<notin> set s \<Longrightarrow> split_on c s = [s]"
  by (induction s) auto

lemma split_on_append: "c \<notin> set s \<Longrightarrow> split_on c (s @ c # t) = s # split_on c t"
  by (induction s) auto

text \<open>\<open>join(sep)\<close>.\<close>

fun join_with :: "string \<Rightarrow> string list \<Rightarrow> string" where
  "join_with sep [] = []"
| "join_with sep [s] = s"
| "join_with sep (s # ss) = s @ sep @ join_with sep ss"

end
