(* ===== verification/Topology_Types.thy ===== *)
theory Topology_Types
  imports Runtime_Prelude Js_String
begin

text \<open>
  The messages of the topology protocol, with the fields and enumerations of
  \<open>packages/proto/runtime/v1/topology.proto\<close> as the TypeScript code sees them
  (\<open>apps/dashboard/src/types/topology.ts\<close>): 64-bit integers arrive as decimal strings,
  optional fields may be undefined.
\<close>

datatype service_type =
    SERVICE_TYPE_UNSPECIFIED | SERVICE_TYPE_SERVER | SERVICE_TYPE_CLIENT | SERVICE_TYPE_HYBRID

datatype service_language =
    SERVICE_LANGUAGE_UNSPECIFIED | SERVICE_LANGUAGE_TYPESCRIPT | SERVICE_LANGUAGE_RUST
  | SERVICE_LANGUAGE_CPP | SERVICE_LANGUAGE_GO | SERVICE_LANGUAGE_PYTHON
  | SERVICE_LANGUAGE_JAVA | SERVICE_LANGUAGE_CSHARP

datatype health_state =
    HEALTH_STATE_UNKNOWN | HEALTH_STATE_STARTING | HEALTH_STATE_HEALTHY
  | HEALTH_STATE_DEGRADED | HEALTH_STATE_UNHEALTHY

datatype service_state =
    SERVICE_STATE_UNSPECIFIED | SERVICE_STATE_REGISTERED | SERVICE_STATE_IDLE
  | SERVICE_STATE_ACTIVE | SERVICE_STATE_STALE | SERVICE_STATE_DEAD

datatype connection_state =
    CONNECTION_STATE_UNSPECIFIED | CONNECTION_STATE_IDLE
  | CONNECTION_STATE_ACTIVE | CONNECTION_STATE_FAILED

datatype update_type =
    UPDATE_TYPE_UNSPECIFIED | UPDATE_TYPE_SNAPSHOT
  | UPDATE_TYPE_NODE_ADDED | UPDATE_TYPE_NODE_UPDATED | UPDATE_TYPE_NODE_REMOVED
  | UPDATE_TYPE_EDGE_ADDED | UPDATE_TYPE_EDGE_UPDATED | UPDATE_TYPE_EDGE_REMOVED

datatype activity_type =
    ACTIVITY_TYPE_UNSPECIFIED | ACTIVITY_TYPE_REQUEST_SENT
  | ACTIVITY_TYPE_RESPONSE_RECEIVED | ACTIVITY_TYPE_ERROR

record service_metadata =
  meta_region :: "string option"
  meta_environment :: "string option"
  meta_team :: "string option"
  meta_versionHash :: "string option"
  meta_serviceInterface :: "string option"
  meta_serviceRole :: "string option"
  meta_programName :: "string option"

record service_metrics =
  sm_cpuPercent :: rat
  sm_memoryBytes :: string

record application_health =
  ah_state :: health_state
  ah_message :: "string option"
  ah_errorCount :: "int option"

record service_node =
  sn_serviceId :: string
  sn_serviceName :: string
  sn_serviceType :: service_type
  sn_language :: service_language
  sn_version :: "string option"
  sn_address :: "string option"
  sn_host :: "string option"
  sn_metadata :: "service_metadata option"
  sn_state :: service_state
  sn_lastHeartbeatMs :: string
  sn_lastActivityMs :: string
  sn_health :: health_state

record service_edge =
  se_sourceServiceId :: string
  se_targetService :: string
  se_state :: connection_state
  se_lastActivityMs :: string
  se_totalRequests :: string
  se_totalErrors :: string
  se_avgLatencyMs :: rat
  se_rps :: rat

record topology_snapshot =
  ts_nodes :: "service_node list"
  ts_edges :: "service_edge list"
  ts_timestampMs :: string

record topology_update =
  tu_type :: update_type
  tu_node :: "service_node option"
  tu_edge :: "service_edge option"
  tu_snapshot :: "topology_snapshot option"

text \<open>Requests and replies of the service.\<close>

record register_request =
  rq_serviceName :: string
  rq_serviceType :: service_type
  rq_language :: service_language
  rq_version :: "string option"
  rq_address :: "string option"
  rq_host :: "string option"
  rq_metadata :: "service_metadata option"

record service_handle =
  sh_serviceId :: string
  sh_heartbeatIntervalMs :: int
  sh_timeoutMultiplier :: int

record heartbeat_request =
  hb_serviceId :: string
  hb_sequence :: string
  hb_metrics :: "service_metrics option"
  hb_health :: "application_health option"

record activity_request =
  ra_serviceId :: string
  ra_targetService :: string
  ra_type :: activity_type
  ra_timestampMs :: "string option"
  ra_latencyMs :: "int option"
  ra_method :: "string option"
  ra_success :: "bool option"
  ra_batchSize :: "int option"
  ra_errorMessage :: "string option"

text \<open>Which edge a source and a target name: \<open>edgeKey\<close> of the store and of the dashboard.\<close>

definition edge_key_of :: "string \<Rightarrow> string \<Rightarrow> string" where
  "edge_key_of sourceServiceId targetService = sourceServiceId @ ''::'' @ targetService"

end
