(* ===== verification/Topology_Store.thy ===== *)
theory Topology_Store
  imports Topology_Types
begin

text \<open>
  The in-memory topology (\<open>apps/topology/src/topology-store.ts\<close>): registered services with
  their heartbeats, the edges of observed activity with counters and rates, and the updates each
  operation returns for broadcast.  \<open>now\<close> is the value of \<open>getNow\<close>, \<open>serviceId\<close> that of
  \<open>generateId()\<close>.  Clocks and counters are integers (exact up to \<open>2 ^ 53\<close>), average latency and
  rate are doubles.
\<close>

named_theorems store_simps \<open>how the operations of the store act on its parts\<close>

record service_record =
  sr_node :: service_node
  sr_lastHeartbeatMs :: int
  sr_lastActivityMs :: int
  sr_lastNodeUpdateMs :: int
  sr_heartbeatIntervalMs :: int
  sr_timeoutMultiplier :: int

record rate_sample =
  rs_timeMs :: int
  rs_totalCount :: int

record edge_record =
  er_edge :: service_edge
  er_lastActivityMs :: int
  er_lastFlushMs :: int
  er_pendingCount :: int
  er_pendingErrorCount :: int
  er_pendingLatencyTotal :: int
  er_totalCount :: int
  er_totalErrorCount :: int
  er_avgLatencyMs :: rat
  er_rateSamples :: "rate_sample list"

definition buildServiceKey :: "service_node \<Rightarrow> string" where
  "buildServiceKey node =
     (let serviceInterface = Option.bind (sn_metadata node) (\<lambda>m. map_option trim (meta_serviceInterface m));
          serviceRole = Option.bind (sn_metadata node) (\<lambda>m. map_option trim (meta_serviceRole m))
      in if nullish serviceInterface [] \<noteq> [] then
           (if nullish serviceRole [] \<noteq> []
            then nullish serviceInterface [] @ ''::'' @ nullish serviceRole []
            else nullish serviceInterface [])
         else sn_serviceName node)"

definition buildServiceKeys :: "service_node \<Rightarrow> string set" where
  "buildServiceKeys node =
     (let keys = {sn_serviceName node};
          serviceKey = buildServiceKey node;
          keys = insert serviceKey keys;
          address = map_option trim (sn_address node)
      in if nullish address [] \<noteq> [] then
           (let keys = insert (nullish address []) keys
            in if serviceKey \<noteq> [] then insert (serviceKey @ ''@'' @ nullish address []) keys else keys)
         else keys)"

record store_options =
  so_heartbeatIntervalMs :: "int option"
  so_timeoutMultiplier :: "int option"
  so_idleTimeoutMs :: "int option"
  so_unknownEdgeTimeoutMs :: "int option"
  so_rpsWindowMs :: "int option"
  so_activityFlushMs :: "int option"
  so_nodeUpdateThrottleMs :: "int option"

record topology_store =
  services :: "(string, service_record) js_map"
  edges :: "(string, edge_record) js_map"
  serviceNameIndex :: "(string, string) js_map"
  heartbeatIntervalMs :: int
  timeoutMultiplier :: int
  idleTimeoutMs :: int
  unknownEdgeTimeoutMs :: int
  rpsWindowMs :: int
  activityFlushMs :: int
  nodeUpdateThrottleMs :: int
  lastActivityFlushMs :: int

definition new_store :: "store_options \<Rightarrow> int \<Rightarrow> topology_store" where
  "new_store options now =
     (let idle = nullish (so_idleTimeoutMs options) 30000 in
      \<lparr>services = [], edges = [], serviceNameIndex = [],
       heartbeatIntervalMs = nullish (so_heartbeatIntervalMs options) 5000,
       timeoutMultiplier = nullish (so_timeoutMultiplier options) 3,
       idleTimeoutMs = idle,
       unknownEdgeTimeoutMs = nullish (so_unknownEdgeTimeoutMs options) (idle * 2),
       rpsWindowMs = nullish (so_rpsWindowMs options) 5000,
       activityFlushMs = nullish (so_activityFlushMs options) 1000,
       nodeUpdateThrottleMs = nullish (so_nodeUpdateThrottleMs options) 5000,
       lastActivityFlushMs = now\<rparr>)"

subsection \<open>Updates\<close>

definition createNodeUpdate :: "update_type \<Rightarrow> service_node \<Rightarrow> topology_update" where
  "createNodeUpdate ty node = \<lparr>tu_type = ty, tu_node = Some node, tu_edge = None, tu_snapshot = None\<rparr>"

definition createEdgeUpdate :: "update_type \<Rightarrow> service_edge \<Rightarrow> topology_update" where
  "createEdgeUpdate ty edge = \<lparr>tu_type = ty, tu_node = None, tu_edge = Some edge, tu_snapshot = None\<rparr>"

definition shouldEmitNodeUpdate :: "topology_store \<Rightarrow> service_record \<Rightarrow> int \<Rightarrow> bool" where
  "shouldEmitNodeUpdate s record now =
     (if nodeUpdateThrottleMs s \<le> 0 then True
      else now - sr_lastNodeUpdateMs record \<ge> nodeUpdateThrottleMs s)"

text \<open>\<open>queueNodeUpdate\<close> pushes the node's update and stamps the record.\<close>

definition queueNodeUpdate ::
  "service_record \<Rightarrow> topology_update list \<Rightarrow> int \<Rightarrow> service_record \<times> topology_update list" where
  "queueNodeUpdate record updates now =
     (record\<lparr>sr_lastNodeUpdateMs := now\<rparr>,
      updates @ [createNodeUpdate UPDATE_TYPE_NODE_UPDATED (sr_node record)])"

subsection \<open>Registration\<close>

definition registered_node :: "register_request \<Rightarrow> string \<Rightarrow> int \<Rightarrow> service_node" where
  "registered_node request serviceId now =
     \<lparr>sn_serviceId = serviceId,
      sn_serviceName = rq_serviceName request,
      sn_serviceType = rq_serviceType request,
      sn_language = rq_language request,
      sn_version = rq_version request,
      sn_address = rq_address request,
      sn_host = rq_host request,
      sn_metadata = rq_metadata request,
      sn_state = SERVICE_STATE_REGISTERED,
      sn_lastHeartbeatMs = string_of_int now,
      sn_lastActivityMs = ''0'',
      sn_health = HEALTH_STATE_UNKNOWN\<rparr>"

definition registerService ::
  "topology_store \<Rightarrow> register_request \<Rightarrow> string \<Rightarrow> int
   \<Rightarrow> topology_store \<times> service_handle \<times> topology_update list" where
  "registerService s request serviceId now =
     (let handle = \<lparr>sh_serviceId = serviceId,
                    sh_heartbeatIntervalMs = heartbeatIntervalMs s,
                    sh_timeoutMultiplier = timeoutMultiplier s\<rparr>;
          node = registered_node request serviceId now;
          record = \<lparr>sr_node = node, sr_lastHeartbeatMs = now, sr_lastActivityMs = 0,
                    sr_lastNodeUpdateMs = now,
                    sr_heartbeatIntervalMs = heartbeatIntervalMs s,
                    sr_timeoutMultiplier = timeoutMultiplier s\<rparr>;
          s = s\<lparr>services := map_set serviceId record (services s),
                serviceNameIndex := map_set (rq_serviceName request) serviceId (serviceNameIndex s)\<rparr>
      in (s, handle, [createNodeUpdate UPDATE_TYPE_NODE_ADDED node]))"

text \<open>
  \<open>removeService\<close> drops the service and every edge that starts at it or whose target is one of
  its keys, in the order of the edge map.
\<close>

definition edge_of_service :: "string \<Rightarrow> string set \<Rightarrow> edge_record \<Rightarrow> bool" where
  "edge_of_service serviceId serviceKeys er =
     (se_sourceServiceId (er_edge er) = serviceId \<or> se_targetService (er_edge er) \<in> serviceKeys)"

definition removeService ::
  "topology_store \<Rightarrow> string \<Rightarrow> update_type \<Rightarrow> topology_store \<times> topology_update list" where
  "removeService s serviceId updateType =
     (case map_get (services s) serviceId of
        None \<Rightarrow> (s, [])
      | Some record \<Rightarrow>
          (let serviceKeys = buildServiceKeys (sr_node record);
               gone = \<lambda>(edgeKey, er). edge_of_service serviceId serviceKeys er;
               updates = createNodeUpdate updateType (sr_node record)
                 # map (\<lambda>(edgeKey, er). createEdgeUpdate UPDATE_TYPE_EDGE_REMOVED (er_edge er))
                     (filter gone (edges s))
           in (s\<lparr>services := map_delete serviceId (services s),
                 serviceNameIndex := map_delete (sn_serviceName (sr_node record)) (serviceNameIndex s),
                 edges := filter (\<lambda>e. \<not> gone e) (edges s)\<rparr>, updates)))"

definition unregisterService :: "topology_store \<Rightarrow> string \<Rightarrow> topology_store \<times> topology_update list" where
  "unregisterService s serviceId = removeService s serviceId UPDATE_TYPE_NODE_REMOVED"

subsection \<open>Heartbeats\<close>

text \<open>The record after a heartbeat, and whether an update must be sent whatever the throttle says.\<close>

definition heartbeat_record ::
  "service_record \<Rightarrow> heartbeat_request \<Rightarrow> int \<Rightarrow> service_record \<times> bool" where
  "heartbeat_record record request now =
     (let record = record\<lparr>sr_lastHeartbeatMs := now,
            sr_node := (sr_node record)\<lparr>sn_lastHeartbeatMs := string_of_int now\<rparr>\<rparr>;
          nextState = (if sr_lastActivityMs record > 0 then SERVICE_STATE_IDLE
                       else SERVICE_STATE_REGISTERED);
          (record, force) =
            (if sn_state (sr_node record) = SERVICE_STATE_STALE
             then (record\<lparr>sr_node := (sr_node record)\<lparr>sn_state := nextState\<rparr>\<rparr>, True)
             else (record, False))
      in case hb_health request of
           None \<Rightarrow> (record, force)
         | Some h \<Rightarrow>
             if ah_state h \<noteq> sn_health (sr_node record)
             then (record\<lparr>sr_node := (sr_node record)\<lparr>sn_health := ah_state h\<rparr>\<rparr>, True)
             else (record, force))"

definition recordHeartbeat ::
  "topology_store \<Rightarrow> heartbeat_request \<Rightarrow> int \<Rightarrow> topology_store \<times> topology_update list" where
  "recordHeartbeat s request now =
     (case map_get (services s) (hb_serviceId request) of
        None \<Rightarrow> (s, [])
      | Some record \<Rightarrow>
          (let (record, forceUpdate) = heartbeat_record record request now;
               (record, updates) =
                 (if forceUpdate \<or> shouldEmitNodeUpdate s record now
                  then queueNodeUpdate record [] now else (record, []))
           in (s\<lparr>services := map_set (hb_serviceId request) record (services s)\<rparr>, updates)))"

subsection \<open>Activity\<close>

definition edgeKey :: "string \<Rightarrow> string \<Rightarrow> string" where
  "edgeKey sourceServiceId targetService = edge_key_of sourceServiceId targetService"

definition activity_record :: "service_record \<Rightarrow> int \<Rightarrow> service_record \<times> bool" where
  "activity_record record now =
     (let record = record\<lparr>sr_lastActivityMs := now,
            sr_node := (sr_node record)\<lparr>sn_lastActivityMs := string_of_int now\<rparr>\<rparr>
      in if sn_state (sr_node record) \<noteq> SERVICE_STATE_ACTIVE
         then (record\<lparr>sr_node := (sr_node record)\<lparr>sn_state := SERVICE_STATE_ACTIVE\<rparr>\<rparr>, True)
         else (record, False))"

definition created_edge :: "activity_request \<Rightarrow> int \<Rightarrow> edge_record" where
  "created_edge event now =
     \<lparr>er_edge = \<lparr>se_sourceServiceId = ra_serviceId event,
                 se_targetService = ra_targetService event,
                 se_state = CONNECTION_STATE_ACTIVE,
                 se_lastActivityMs = string_of_int now,
                 se_totalRequests = ''0'', se_totalErrors = ''0'',
                 se_avgLatencyMs = 0, se_rps = 0\<rparr>,
      er_lastActivityMs = now, er_lastFlushMs = now,
      er_pendingCount = 0, er_pendingErrorCount = 0, er_pendingLatencyTotal = 0,
      er_totalCount = 0, er_totalErrorCount = 0, er_avgLatencyMs = 0,
      er_rateSamples = [\<lparr>rs_timeMs = now, rs_totalCount = 0\<rparr>]\<rparr>"

definition activity_batchSize :: "activity_request \<Rightarrow> int" where
  "activity_batchSize event = max 1 (nullish (ra_batchSize event) 1)"

definition activity_failed :: "activity_request \<Rightarrow> bool" where
  "activity_failed event = (ra_type event = ACTIVITY_TYPE_ERROR \<or> ra_success event = Some False)"

definition add_activity :: "edge_record \<Rightarrow> activity_request \<Rightarrow> int \<Rightarrow> edge_record" where
  "add_activity er event now =
     (let batchSize = activity_batchSize event in
      er\<lparr>er_pendingCount := er_pendingCount er + batchSize,
         er_pendingLatencyTotal := er_pendingLatencyTotal er + nullish (ra_latencyMs event) 0 * batchSize,
         er_pendingErrorCount :=
           (if activity_failed event then er_pendingErrorCount er + batchSize else er_pendingErrorCount er),
         er_lastActivityMs := now,
         er_edge := (er_edge er)\<lparr>se_lastActivityMs := string_of_int now,
                                 se_state := CONNECTION_STATE_ACTIVE\<rparr>\<rparr>)"

definition recordActivity ::
  "topology_store \<Rightarrow> activity_request \<Rightarrow> int \<Rightarrow> topology_store \<times> topology_update list" where
  "recordActivity s event now =
     (case map_get (services s) (ra_serviceId event) of
        None \<Rightarrow> (s, [])
      | Some record \<Rightarrow>
          (let (record, forceUpdate) = activity_record record now;
               (record, updates) =
                 (if forceUpdate \<or> shouldEmitNodeUpdate s record now
                  then queueNodeUpdate record [] now else (record, []));
               s = s\<lparr>services := map_set (ra_serviceId event) record (services s)\<rparr>;
               key = edgeKey (ra_serviceId event) (ra_targetService event);
               (s, updates) =
                 (case map_get (edges s) key of
                    None \<Rightarrow> (s\<lparr>edges := map_set key (created_edge event now) (edges s)\<rparr>,
                             updates @ [createEdgeUpdate UPDATE_TYPE_EDGE_ADDED
                                          (er_edge (created_edge event now))])
                  | Some _ \<Rightarrow> (s, updates))
           in case map_get (edges s) key of
                None \<Rightarrow> (s, updates)
              | Some activeEdge \<Rightarrow>
                  (s\<lparr>edges := map_set key (add_activity activeEdge event now) (edges s)\<rparr>, updates)))"

subsection \<open>Flushing aggregated activity\<close>

text \<open>The while loop of \<open>updateEdgeRps\<close>: drop samples before the window, keeping at least two.\<close>

fun trim_samples :: "int \<Rightarrow> rate_sample list \<Rightarrow> rate_sample list" where
  "trim_samples cutoff samples =
     (case samples of
        [] \<Rightarrow> []
      | x # xs \<Rightarrow> if length samples > 2 \<and> rs_timeMs x < cutoff then trim_samples cutoff xs else samples)"

declare trim_samples.simps [simp del]

definition sample_rate :: "rate_sample list \<Rightarrow> rat" where
  "sample_rate samples =
     (if length samples < 2 then 0
      else
        (let oldest = hd samples;
             latest = last samples;
             elapsedMs = max 1 (rs_timeMs latest - rs_timeMs oldest);
             delta = rs_totalCount latest - rs_totalCount oldest
         in fl (of_int delta / fl (of_int elapsedMs / 1000))))"

definition updateEdgeRps :: "int \<Rightarrow> edge_record \<Rightarrow> int \<Rightarrow> rat \<Rightarrow> edge_record" where
  "updateEdgeRps window er now elapsedSeconds =
     (if window \<le> 0
      then er\<lparr>er_edge := (er_edge er)\<lparr>se_rps := fl (of_int (er_pendingCount er) / elapsedSeconds)\<rparr>\<rparr>
      else
        (let samples = trim_samples (now - window)
               (er_rateSamples er @ [\<lparr>rs_timeMs = now, rs_totalCount = er_totalCount er\<rparr>])
         in er\<lparr>er_rateSamples := samples,
               er_edge := (er_edge er)\<lparr>se_rps := sample_rate samples\<rparr>\<rparr>))"

text \<open>The new average: the old one weighted by the old count, plus the pending total.\<close>

definition merged_latency :: "edge_record \<Rightarrow> rat" where
  "merged_latency er =
     (let combinedCount = er_totalCount er + er_pendingCount er;
          previousCount = combinedCount - er_pendingCount er;
          previousLatencyTotal = fl (er_avgLatencyMs er * of_int (max 0 previousCount))
      in if combinedCount = 0 then 0
         else fl (fl (previousLatencyTotal + of_int (er_pendingLatencyTotal er)) / of_int combinedCount))"

definition flush_edge :: "int \<Rightarrow> edge_record \<Rightarrow> int \<Rightarrow> rat \<Rightarrow> edge_record" where
  "flush_edge window er now elapsedSeconds =
     (let avg = merged_latency er;
          er = er\<lparr>er_totalCount := er_totalCount er + er_pendingCount er,
                  er_totalErrorCount := er_totalErrorCount er + er_pendingErrorCount er,
                  er_avgLatencyMs := avg\<rparr>;
          er = er\<lparr>er_edge := (er_edge er)\<lparr>se_totalRequests := string_of_int (er_totalCount er),
                                           se_totalErrors := string_of_int (er_totalErrorCount er),
                                           se_avgLatencyMs := er_avgLatencyMs er\<rparr>\<rparr>;
          er = updateEdgeRps window er now elapsedSeconds
      in er\<lparr>er_pendingCount := 0, er_pendingErrorCount := 0, er_pendingLatencyTotal := 0,
            er_lastFlushMs := now\<rparr>)"

definition flushActivity :: "topology_store \<Rightarrow> int \<Rightarrow> topology_store \<times> topology_update list" where
  "flushActivity s now =
     (let elapsedMs = max 1 (now - lastActivityFlushMs s);
          elapsedSeconds = fl (of_int elapsedMs / 1000);
          flush = (\<lambda>er. flush_edge (rpsWindowMs s) er now elapsedSeconds);
          pending = (\<lambda>er. er_pendingCount er \<noteq> 0)
      in (s\<lparr>lastActivityFlushMs := now,
            edges := map (\<lambda>(k, er). (k, if pending er then flush er else er)) (edges s)\<rparr>,
          map (\<lambda>(k, er). createEdgeUpdate UPDATE_TYPE_EDGE_UPDATED (er_edge (flush er)))
            (filter (\<lambda>(k, er). pending er) (edges s))))"

subsection \<open>Sweeping\<close>

definition collectServiceTargets :: "topology_store \<Rightarrow> string set" where
  "collectServiceTargets s = \<Union> (set (map (\<lambda>(k, r). buildServiceKeys (sr_node r)) (services s)))"

text \<open>A service whose heartbeat is not overdue: it may turn stale, or idle.\<close>

definition sweep_record ::
  "int \<Rightarrow> service_record \<Rightarrow> int \<Rightarrow> topology_update list \<Rightarrow> service_record \<times> topology_update list" where
  "sweep_record idleTimeout record now updates =
     (let elapsed = now - sr_lastHeartbeatMs record;
          (record, updates) =
            (if elapsed > sr_heartbeatIntervalMs record * 2
                \<and> sn_state (sr_node record) \<noteq> SERVICE_STATE_STALE
             then queueNodeUpdate
                    (record\<lparr>sr_node := (sr_node record)\<lparr>sn_state := SERVICE_STATE_STALE\<rparr>\<rparr>) updates now
             else (record, updates))
      in if sn_state (sr_node record) = SERVICE_STATE_ACTIVE then
           (let idleElapsed = now - sr_lastActivityMs record
            in if sr_lastActivityMs record > 0 \<and> idleElapsed > idleTimeout
               then queueNodeUpdate
                      (record\<lparr>sr_node := (sr_node record)\<lparr>sn_state := SERVICE_STATE_IDLE\<rparr>\<rparr>) updates now
               else (record, updates))
         else (record, updates))"

definition heartbeat_expired :: "service_record \<Rightarrow> int \<Rightarrow> bool" where
  "heartbeat_expired record now =
     (now - sr_lastHeartbeatMs record > sr_heartbeatIntervalMs record * sr_timeoutMultiplier record)"

fun sweep_services ::
  "topology_store \<Rightarrow> int \<Rightarrow> (string \<times> service_record) list \<Rightarrow> topology_update list
   \<Rightarrow> topology_store \<times> topology_update list" where
  "sweep_services s now [] updates = (s, updates)"
| "sweep_services s now ((serviceId, record) # rest) updates =
     (if heartbeat_expired record now then
        (let (s, removed) = removeService s serviceId UPDATE_TYPE_NODE_REMOVED
         in sweep_services s now rest (updates @ removed))
      else
        (let (record, updates) = sweep_record (idleTimeoutMs s) record now updates
         in sweep_services (s\<lparr>services := map_set serviceId record (services s)\<rparr>) now rest updates))"

fun sweep_edges ::
  "topology_store \<Rightarrow> int \<Rightarrow> string set \<Rightarrow> (string \<times> edge_record) list
   \<Rightarrow> (string \<times> edge_record) list \<times> topology_update list" where
  "sweep_edges s now knownTargets [] = ([], [])"
| "sweep_edges s now knownTargets ((key, er) # rest) =
     (let idleElapsed = now - er_lastActivityMs er;
          (kept, updates) = sweep_edges s now knownTargets rest
      in if unknownEdgeTimeoutMs s > 0 \<and> idleElapsed > unknownEdgeTimeoutMs s
            \<and> se_targetService (er_edge er) \<notin> knownTargets
         then (kept, createEdgeUpdate UPDATE_TYPE_EDGE_REMOVED (er_edge er) # updates)
         else if se_state (er_edge er) = CONNECTION_STATE_ACTIVE \<and> idleElapsed > idleTimeoutMs s
         then (let er = er\<lparr>er_edge := (er_edge er)\<lparr>se_state := CONNECTION_STATE_IDLE\<rparr>\<rparr>
               in ((key, er) # kept, createEdgeUpdate UPDATE_TYPE_EDGE_UPDATED (er_edge er) # updates))
         else ((key, er) # kept, updates))"

definition sweep :: "topology_store \<Rightarrow> int \<Rightarrow> topology_store \<times> topology_update list" where
  "sweep s now =
     (let knownTargets = collectServiceTargets s;
          (s, serviceUpdates) = sweep_services s now (services s) [];
          (kept, edgeUpdates) = sweep_edges s now knownTargets (edges s)
      in (s\<lparr>edges := kept\<rparr>, serviceUpdates @ edgeUpdates))"

definition snapshot :: "topology_store \<Rightarrow> int \<Rightarrow> topology_snapshot" where
  "snapshot s now =
     \<lparr>ts_nodes = map sr_node (map_values (services s)),
      ts_edges = map er_edge (map_values (edges s)),
      ts_timestampMs = string_of_int now\<rparr>"

subsection \<open>The store as a reactive component\<close>

datatype store_event =
    Ev_Register register_request string int
  | Ev_Unregister string
  | Ev_Heartbeat heartbeat_request int
  | Ev_Activity activity_request int
  | Ev_Flush int
  | Ev_Sweep int

fun store_step :: "topology_store \<Rightarrow> store_event \<Rightarrow> topology_store \<times> topology_update list" where
  "store_step s (Ev_Register request serviceId now) =
     (case registerService s request serviceId now of (s, _, updates) \<Rightarrow> (s, updates))"
| "store_step s (Ev_Unregister serviceId) = unregisterService s serviceId"
| "store_step s (Ev_Heartbeat request now) = recordHeartbeat s request now"
| "store_step s (Ev_Activity event now) = recordActivity s event now"
| "store_step s (Ev_Flush now) = flushActivity s now"
| "store_step s (Ev_Sweep now) = sweep s now"

end
