(* ===== verification/Topology_Invariant.thy ===== *)
theory Topology_Invariant
  imports Topology_Store
begin

text \<open>
  What every operation of the topology store keeps: keys are distinct and agree with the entries
  they name, printed clocks and counters agree with the numbers they print, an edge always starts
  at a registered service, errors never exceed requests, and rate samples count upwards.
\<close>

definition node_times_ok :: "service_record \<Rightarrow> bool" where
  "node_times_ok r \<longleftrightarrow>
     sn_lastHeartbeatMs (sr_node r) = string_of_int (sr_lastHeartbeatMs r) \<and>
     sn_lastActivityMs (sr_node r) = string_of_int (sr_lastActivityMs r)"

definition service_ok :: "string \<Rightarrow> service_record \<Rightarrow> bool" where
  "service_ok serviceId r \<longleftrightarrow>
     sn_serviceId (sr_node r) = serviceId \<and> node_times_ok r \<and>
     sn_state (sr_node r) \<in> {SERVICE_STATE_REGISTERED, SERVICE_STATE_IDLE,
                             SERVICE_STATE_ACTIVE, SERVICE_STATE_STALE}"

definition edge_names_ok :: "string \<Rightarrow> edge_record \<Rightarrow> bool" where
  "edge_names_ok key er \<longleftrightarrow>
     key = edgeKey (se_sourceServiceId (er_edge er)) (se_targetService (er_edge er)) \<and>
     se_lastActivityMs (er_edge er) = string_of_int (er_lastActivityMs er) \<and>
     se_totalRequests (er_edge er) = string_of_int (er_totalCount er) \<and>
     se_totalErrors (er_edge er) = string_of_int (er_totalErrorCount er) \<and>
     se_avgLatencyMs (er_edge er) = er_avgLatencyMs er"

definition edge_counts_ok :: "edge_record \<Rightarrow> bool" where
  "edge_counts_ok er \<longleftrightarrow>
     0 \<le> er_pendingErrorCount er \<and> er_pendingErrorCount er \<le> er_pendingCount er \<and>
     0 \<le> er_totalErrorCount er \<and> er_totalErrorCount er \<le> er_totalCount er"

definition samples_ok :: "edge_record \<Rightarrow> bool" where
  "samples_ok er \<longleftrightarrow>
     er_rateSamples er \<noteq> [] \<and> sorted (map rs_totalCount (er_rateSamples er)) \<and>
     (\<forall>x \<in> set (er_rateSamples er). rs_totalCount x \<le> er_totalCount er)"

definition edge_state_ok :: "edge_record \<Rightarrow> bool" where
  "edge_state_ok er \<longleftrightarrow>
     se_state (er_edge er) \<in> {CONNECTION_STATE_ACTIVE, CONNECTION_STATE_IDLE} \<and>
     0 \<le> se_rps (er_edge er)"

definition edge_ok :: "string \<Rightarrow> edge_record \<Rightarrow> bool" where
  "edge_ok key er \<longleftrightarrow> edge_names_ok key er \<and> edge_counts_ok er \<and> samples_ok er \<and> edge_state_ok er"

definition store_inv :: "topology_store \<Rightarrow> bool" where
  "store_inv s \<longleftrightarrow>
     distinct (map_keys (services s)) \<and> (\<forall>(k, r) \<in> set (services s). service_ok k r) \<and>
     distinct (map_keys (edges s)) \<and> (\<forall>(k, er) \<in> set (edges s). edge_ok k er) \<and>
     (\<forall>(k, er) \<in> set (edges s). se_sourceServiceId (er_edge er) \<in> fst ` set (services s))"

lemmas ok_defs = service_ok_def node_times_ok_def edge_ok_def edge_names_ok_def edge_counts_ok_def
  samples_ok_def edge_state_ok_def

subsection \<open>Records\<close>

lemma string_of_int_0: "string_of_int 0 = ''0''"
  by code_simp

lemma queueNodeUpdate_node [simp]: "sr_node (fst (queueNodeUpdate r us now)) = sr_node r"
  by (simp add: queueNodeUpdate_def)

lemma queueNodeUpdate_updates [simp]:
  "snd (queueNodeUpdate r us now) = us @ [createNodeUpdate UPDATE_TYPE_NODE_UPDATED (sr_node r)]"
  by (simp add: queueNodeUpdate_def)

lemma queueNodeUpdate_ok [simp]: "service_ok k (fst (queueNodeUpdate r us now)) = service_ok k r"
  by (simp add: queueNodeUpdate_def ok_defs)

lemma registered_ok:
  "service_ok serviceId \<lparr>sr_node = registered_node request serviceId now, sr_lastHeartbeatMs = now,
     sr_lastActivityMs = 0, sr_lastNodeUpdateMs = now, sr_heartbeatIntervalMs = h,
     sr_timeoutMultiplier = t\<rparr>"
  by (simp add: ok_defs registered_node_def string_of_int_0)

lemma heartbeat_record_ok:
  "service_ok k r \<Longrightarrow> service_ok k (fst (heartbeat_record r request now))"
  by (auto simp: heartbeat_record_def Let_def ok_defs split: option.splits)

lemma activity_record_ok: "service_ok k r \<Longrightarrow> service_ok k (fst (activity_record r now))"
  by (auto simp: activity_record_def Let_def ok_defs)

lemma sweep_record_ok: "service_ok k r \<Longrightarrow> service_ok k (fst (sweep_record idle r now us))"
  by (auto simp: sweep_record_def Let_def queueNodeUpdate_def ok_defs split: prod.splits)

lemma trim_samples_suffix: "\<exists>p. xs = p @ trim_samples c xs"
proof (induction c xs rule: trim_samples.induct)
  case (1 c xs)
  show ?case
  proof (cases xs)
    case Nil
    then show ?thesis by (simp add: trim_samples.simps)
  next
    case (Cons y ys)
    show ?thesis
    proof (cases "length xs > 2 \<and> rs_timeMs y < c")
      case True
      with 1 Cons obtain p where "ys = p @ trim_samples c ys" by blast
      moreover from True Cons have "trim_samples c xs = trim_samples c ys"
        by (simp add: trim_samples.simps [of c "y # ys"])
      ultimately show ?thesis using Cons by (metis append_Cons)
    next
      case False
      with Cons have "trim_samples c xs = xs" by (auto simp: trim_samples.simps [of c "y # ys"])
      then show ?thesis by simp
    qed
  qed
qed

lemma trim_samples_long: "2 \<le> length xs \<Longrightarrow> 2 \<le> length (trim_samples c xs)"
proof (induction c xs rule: trim_samples.induct)
  case (1 c xs)
  then obtain y ys where xs: "xs = y # ys" by (cases xs) auto
  show ?case
  proof (cases "length xs > 2 \<and> rs_timeMs y < c")
    case True
    with 1 xs have "2 \<le> length (trim_samples c ys)" by simp
    with True xs show ?thesis by (simp add: trim_samples.simps [of c "y # ys"])
  next
    case False
    with 1 xs show ?thesis by (auto simp: trim_samples.simps [of c "y # ys"])
  qed
qed

lemma trim_samples_last: "xs \<noteq> [] \<Longrightarrow> trim_samples c xs \<noteq> [] \<and> last (trim_samples c xs) = last xs"
proof (induction c xs rule: trim_samples.induct)
  case (1 c xs)
  then obtain y ys where xs: "xs = y # ys" by (cases xs) auto
  show ?case
  proof (cases "length xs > 2 \<and> rs_timeMs y < c")
    case True
    with xs have "ys \<noteq> []" by auto
    with 1 xs True show ?thesis by (simp add: trim_samples.simps [of c "y # ys"])
  next
    case False
    with xs show ?thesis by (auto simp: trim_samples.simps [of c "y # ys"])
  qed
qed

lemma sorted_head_last: "sorted (map f xs) \<Longrightarrow> xs \<noteq> [] \<Longrightarrow> f (hd xs) \<le> f (last xs)"
  by (cases xs) auto

lemma sample_rate_nonneg: "sorted (map rs_totalCount xs) \<Longrightarrow> 0 \<le> sample_rate xs"
proof -
  assume s: "sorted (map rs_totalCount xs)"
  show ?thesis
  proof (cases "length xs < 2")
    case True
    then show ?thesis by (simp add: sample_rate_def)
  next
    case False
    then have "xs \<noteq> []" by auto
    with s have d: "(0::rat) \<le> of_int (rs_totalCount (last xs) - rs_totalCount (hd xs))"
      using sorted_head_last by fastforce
    moreover have "0 \<le> fl (of_int (max 1 (rs_timeMs (last xs) - rs_timeMs (hd xs))) / 1000)"
      by (intro fl_nonneg divide_nonneg_nonneg) auto
    ultimately show ?thesis
      using False unfolding sample_rate_def Let_def by (simp only: if_False fl_nonneg divide_nonneg_nonneg)
  qed
qed

subsection \<open>Edges\<close>

lemma created_edge_ok:
  "edge_ok (edgeKey (ra_serviceId event) (ra_targetService event)) (created_edge event now)"
  by (simp add: ok_defs created_edge_def string_of_int_0)

lemma batchSize_pos: "1 \<le> activity_batchSize event"
  by (simp add: activity_batchSize_def)

lemma add_activity_ok: "edge_ok k er \<Longrightarrow> edge_ok k (add_activity er event now)"
  using batchSize_pos [of event] by (auto simp: add_activity_def Let_def ok_defs)

lemma add_activity_source [simp]:
  "se_sourceServiceId (er_edge (add_activity er event now)) = se_sourceServiceId (er_edge er)"
  by (simp add: add_activity_def Let_def)

lemma idle_edge_ok:
  "edge_ok k er \<Longrightarrow> edge_ok k (er\<lparr>er_edge := (er_edge er)\<lparr>se_state := CONNECTION_STATE_IDLE\<rparr>\<rparr>)"
  by (simp add: ok_defs)

lemma updateEdgeRps_fields [simp]:
  "er_totalCount (updateEdgeRps w er now e) = er_totalCount er"
  "er_totalErrorCount (updateEdgeRps w er now e) = er_totalErrorCount er"
  "er_avgLatencyMs (updateEdgeRps w er now e) = er_avgLatencyMs er"
  "er_lastActivityMs (updateEdgeRps w er now e) = er_lastActivityMs er"
  "se_sourceServiceId (er_edge (updateEdgeRps w er now e)) = se_sourceServiceId (er_edge er)"
  "se_targetService (er_edge (updateEdgeRps w er now e)) = se_targetService (er_edge er)"
  "se_state (er_edge (updateEdgeRps w er now e)) = se_state (er_edge er)"
  "se_lastActivityMs (er_edge (updateEdgeRps w er now e)) = se_lastActivityMs (er_edge er)"
  "se_totalRequests (er_edge (updateEdgeRps w er now e)) = se_totalRequests (er_edge er)"
  "se_totalErrors (er_edge (updateEdgeRps w er now e)) = se_totalErrors (er_edge er)"
  "se_avgLatencyMs (er_edge (updateEdgeRps w er now e)) = se_avgLatencyMs (er_edge er)"
  by (simp_all add: updateEdgeRps_def Let_def)

lemma updateEdgeRps_samples:
  "samples_ok er \<Longrightarrow> samples_ok (updateEdgeRps w er now e)"
proof (cases "w \<le> 0")
  case True
  assume "samples_ok er"
  with True show ?thesis by (simp add: updateEdgeRps_def samples_ok_def)
next
  case False
  let ?xs = "er_rateSamples er @ [\<lparr>rs_timeMs = now, rs_totalCount = er_totalCount er\<rparr>]"
  assume ok: "samples_ok er"
  obtain p where p: "?xs = p @ trim_samples (now - w) ?xs" using trim_samples_suffix by blast
  have "sorted (map rs_totalCount ?xs)" using ok by (auto simp: samples_ok_def sorted_append)
  then have "sorted (map rs_totalCount (trim_samples (now - w) ?xs))"
    using p by (metis map_append sorted_append)
  moreover have "\<forall>x \<in> set (trim_samples (now - w) ?xs). rs_totalCount x \<le> er_totalCount er"
  proof -
    have "set (trim_samples (now - w) ?xs) \<subseteq> set ?xs" using p by (metis set_append Un_upper2)
    moreover have "\<forall>x \<in> set ?xs. rs_totalCount x \<le> er_totalCount er"
      using ok by (auto simp: samples_ok_def)
    ultimately show ?thesis by blast
  qed
  moreover have "trim_samples (now - w) ?xs \<noteq> []" using trim_samples_last [of ?xs] by simp
  ultimately show ?thesis using False by (simp add: updateEdgeRps_def Let_def samples_ok_def)
qed

lemma updateEdgeRps_rps:
  "samples_ok er \<Longrightarrow> 0 \<le> er_pendingCount er \<Longrightarrow> 0 \<le> e \<Longrightarrow>
   0 \<le> se_rps (er_edge (updateEdgeRps w er now e))"
proof (cases "w \<le> 0")
  case True
  assume "0 \<le> er_pendingCount er" "0 \<le> e"
  with True show ?thesis by (simp add: updateEdgeRps_def fl_nonneg)
next
  case False
  assume ok: "samples_ok er"
  from updateEdgeRps_samples [OF ok, of w now e]
  have "sorted (map rs_totalCount (er_rateSamples (updateEdgeRps w er now e)))"
    by (simp add: samples_ok_def)
  with False show ?thesis by (simp add: updateEdgeRps_def Let_def sample_rate_nonneg)
qed

lemma flush_edge_ok:
  assumes ok: "edge_ok k er" and e: "0 \<le> e"
  shows "edge_ok k (flush_edge w er now e)"
proof -
  define er1 where "er1 =
    er\<lparr>er_totalCount := er_totalCount er + er_pendingCount er,
       er_totalErrorCount := er_totalErrorCount er + er_pendingErrorCount er,
       er_avgLatencyMs := merged_latency er,
       er_edge := (er_edge er)
         \<lparr>se_totalRequests := string_of_int (er_totalCount er + er_pendingCount er),
          se_totalErrors := string_of_int (er_totalErrorCount er + er_pendingErrorCount er),
          se_avgLatencyMs := merged_latency er\<rparr>\<rparr>"
  have f: "flush_edge w er now e =
    (updateEdgeRps w er1 now e)\<lparr>er_pendingCount := 0, er_pendingErrorCount := 0,
       er_pendingLatencyTotal := 0, er_lastFlushMs := now\<rparr>"
    by (simp add: flush_edge_def Let_def er1_def)
  have s1: "samples_ok er1" using ok by (fastforce simp: er1_def ok_defs)
  have p1: "0 \<le> er_pendingCount er1" using ok by (simp add: er1_def ok_defs)
  note s2 = updateEdgeRps_samples [OF s1, of w now e]
    and r2 = updateEdgeRps_rps [OF s1 p1 e, of w now]
  have n2: "edge_names_ok k (updateEdgeRps w er1 now e)"
    using ok by (simp add: edge_names_ok_def edge_ok_def er1_def)
  show ?thesis
    using s2 r2 n2 ok unfolding f
    by (simp add: edge_ok_def samples_ok_def edge_state_ok_def edge_counts_ok_def edge_names_ok_def)
       (simp add: er1_def)
qed

lemma flush_edge_ends [simp]:
  "se_sourceServiceId (er_edge (flush_edge w er now e)) = se_sourceServiceId (er_edge er)"
  "se_targetService (er_edge (flush_edge w er now e)) = se_targetService (er_edge er)"
  by (simp_all add: flush_edge_def Let_def)

subsection \<open>One pass over the edges\<close>

text \<open>
  Removal, flush and sweep go over the edge map once; each entry is kept (perhaps changed) or
  dropped, and may send an update.  The three loops are instances of one pass.
\<close>

type_synonym edge_act = "edge_record \<Rightarrow> edge_record option \<times> topology_update list"

definition pass_entries :: "edge_act \<Rightarrow> (string \<times> edge_record) list \<Rightarrow> (string \<times> edge_record) list" where
  "pass_entries act xs =
     concat (map (\<lambda>(k, er). case fst (act er) of None \<Rightarrow> [] | Some er' \<Rightarrow> [(k, er')]) xs)"

definition pass_updates :: "edge_act \<Rightarrow> (string \<times> edge_record) list \<Rightarrow> topology_update list" where
  "pass_updates act xs = concat (map (\<lambda>(k, er). snd (act er)) xs)"

definition remove_act :: "string \<Rightarrow> string set \<Rightarrow> edge_act" where
  "remove_act serviceId keys er =
     (if edge_of_service serviceId keys er
      then (None, [createEdgeUpdate UPDATE_TYPE_EDGE_REMOVED (er_edge er)]) else (Some er, []))"

definition flush_act :: "int \<Rightarrow> int \<Rightarrow> rat \<Rightarrow> edge_act" where
  "flush_act w now e er =
     (if er_pendingCount er \<noteq> 0
      then (Some (flush_edge w er now e),
            [createEdgeUpdate UPDATE_TYPE_EDGE_UPDATED (er_edge (flush_edge w er now e))])
      else (Some er, []))"

definition sweep_act :: "topology_store \<Rightarrow> int \<Rightarrow> string set \<Rightarrow> edge_act" where
  "sweep_act s now known er =
     (if unknownEdgeTimeoutMs s > 0 \<and> now - er_lastActivityMs er > unknownEdgeTimeoutMs s
         \<and> se_targetService (er_edge er) \<notin> known
      then (None, [createEdgeUpdate UPDATE_TYPE_EDGE_REMOVED (er_edge er)])
      else if se_state (er_edge er) = CONNECTION_STATE_ACTIVE
              \<and> now - er_lastActivityMs er > idleTimeoutMs s
      then (Some (er\<lparr>er_edge := (er_edge er)\<lparr>se_state := CONNECTION_STATE_IDLE\<rparr>\<rparr>),
            [createEdgeUpdate UPDATE_TYPE_EDGE_UPDATED ((er_edge er)\<lparr>se_state := CONNECTION_STATE_IDLE\<rparr>)])
      else (Some er, []))"

lemma pass_Nil [simp]: "pass_entries act [] = []" "pass_updates act [] = []"
  by (simp_all add: pass_entries_def pass_updates_def)

lemma pass_Cons [simp]:
  "pass_entries act ((k, er) # xs) =
     (case fst (act er) of None \<Rightarrow> [] | Some er' \<Rightarrow> [(k, er')]) @ pass_entries act xs"
  "pass_updates act ((k, er) # xs) = snd (act er) @ pass_updates act xs"
  by (simp_all add: pass_entries_def pass_updates_def)

lemma remove_pass:
  "filter (\<lambda>e. \<not> (\<lambda>(k, er). edge_of_service i keys er) e) xs = pass_entries (remove_act i keys) xs"
  "map (\<lambda>(k, er). createEdgeUpdate UPDATE_TYPE_EDGE_REMOVED (er_edge er))
     (filter (\<lambda>(k, er). edge_of_service i keys er) xs) = pass_updates (remove_act i keys) xs"
  by (induction xs) (auto simp: remove_act_def)

lemma flush_pass:
  "map (\<lambda>(k, er). (k, if er_pendingCount er \<noteq> 0 then flush_edge w er now e else er)) xs
     = pass_entries (flush_act w now e) xs"
  "map (\<lambda>(k, er). createEdgeUpdate UPDATE_TYPE_EDGE_UPDATED (er_edge (flush_edge w er now e)))
     (filter (\<lambda>(k, er). er_pendingCount er \<noteq> 0) xs) = pass_updates (flush_act w now e) xs"
  by (induction xs) (auto simp: flush_act_def)

lemma sweep_pass:
  "sweep_edges s now known xs = (pass_entries (sweep_act s now known) xs, pass_updates (sweep_act s now known) xs)"
  by (induction xs) (auto simp: sweep_act_def Let_def)

lemma pass_entry_source:
  "(k, er') \<in> set (pass_entries act xs) \<Longrightarrow> \<exists>er. (k, er) \<in> set xs \<and> fst (act er) = Some er'"
  by (force simp: pass_entries_def split: option.splits)

lemma pass_keys: "set (map fst (pass_entries act xs)) \<subseteq> set (map fst xs)"
  by (force dest!: pass_entry_source)

lemma pass_distinct: "distinct (map fst xs) \<Longrightarrow> distinct (map fst (pass_entries act xs))"
proof (induction xs)
  case (Cons x xs)
  obtain k er where x: "x = (k, er)" by force
  with Cons show ?case using pass_keys [of act xs] by (auto split: option.splits)
qed simp

text \<open>An action is good when what it keeps is still a good entry from the same source.\<close>

definition good_act :: "edge_act \<Rightarrow> bool" where
  "good_act act \<longleftrightarrow> (\<forall>k er er'. edge_ok k er \<and> fst (act er) = Some er' \<longrightarrow>
     edge_ok k er' \<and> se_sourceServiceId (er_edge er') = se_sourceServiceId (er_edge er))"

lemma good_acts:
  "good_act (remove_act i keys)" "0 \<le> e \<Longrightarrow> good_act (flush_act w now e)" "good_act (sweep_act s now known)"
  by (auto simp: good_act_def remove_act_def flush_act_def sweep_act_def flush_edge_ok idle_edge_ok
      split: if_splits)

definition edges_inv :: "(string \<times> service_record) list \<Rightarrow> (string \<times> edge_record) list \<Rightarrow> bool" where
  "edges_inv ss es \<longleftrightarrow> distinct (map_keys es) \<and> (\<forall>(k, er) \<in> set es. edge_ok k er) \<and>
     (\<forall>(k, er) \<in> set es. se_sourceServiceId (er_edge er) \<in> fst ` set ss)"

definition services_inv :: "(string \<times> service_record) list \<Rightarrow> bool" where
  "services_inv ss \<longleftrightarrow> distinct (map_keys ss) \<and> (\<forall>(k, r) \<in> set ss. service_ok k r)"

lemma store_inv_split: "store_inv s \<longleftrightarrow> services_inv (services s) \<and> edges_inv (services s) (edges s)"
  by (auto simp: store_inv_def services_inv_def edges_inv_def)

lemma pass_inv: "good_act act \<Longrightarrow> edges_inv ss es \<Longrightarrow> edges_inv ss (pass_entries act es)"
  unfolding edges_inv_def good_act_def
  by (auto simp: pass_distinct dest!: pass_entry_source) (metis case_prodD)+

lemma edges_inv_services:
  "edges_inv ss es \<Longrightarrow> fst ` set ss \<subseteq> fst ` set ss' \<Longrightarrow> edges_inv ss' es"
  by (auto simp: edges_inv_def)

lemma services_inv_set:
  "services_inv ss \<Longrightarrow> service_ok k r \<Longrightarrow> services_inv (map_set k r ss)"
  by (auto simp: services_inv_def distinct_update set_update_distinct)

lemma services_inv_get: "services_inv ss \<Longrightarrow> map_get ss k = Some r \<Longrightarrow> service_ok k r"
  by (auto simp: services_inv_def dest: map_of_SomeD)

lemma edges_inv_put: "edges_inv ss es \<Longrightarrow> edges_inv (map_set k r ss) es"
  by (auto simp: edges_inv_def dom_update)

lemma edges_inv_set:
  "edges_inv ss es \<Longrightarrow> edge_ok k er \<Longrightarrow> se_sourceServiceId (er_edge er) \<in> fst ` set ss \<Longrightarrow>
   edges_inv ss (map_set k er es)"
  by (auto simp: edges_inv_def distinct_update set_update_distinct)

lemma edges_inv_get:
  "edges_inv ss es \<Longrightarrow> map_get es k = Some er \<Longrightarrow>
   edge_ok k er \<and> se_sourceServiceId (er_edge er) \<in> fst ` set ss"
  by (auto simp: edges_inv_def dest: map_of_SomeD)

lemma keys_set [simp]: "fst ` set (map_set k v m) = insert k (fst ` set m)"
  by (simp add: dom_update)

subsection \<open>Every operation keeps the invariant\<close>

lemma register_inv: "store_inv s \<Longrightarrow> store_inv (fst (registerService s request i now))"
  by (auto simp: store_inv_split registerService_def Let_def
      intro!: services_inv_set registered_ok edges_inv_put)

lemma removeService_parts:
  "map_get (services s) i = Some r \<Longrightarrow>
   services (fst (removeService s i ty)) = map_delete i (services s) \<and>
   edges (fst (removeService s i ty)) = pass_entries (remove_act i (buildServiceKeys (sr_node r))) (edges s) \<and>
   snd (removeService s i ty) = createNodeUpdate ty (sr_node r)
     # pass_updates (remove_act i (buildServiceKeys (sr_node r))) (edges s)"
  by (simp add: removeService_def Let_def remove_pass)

lemma removeService_None: "map_get (services s) i = None \<Longrightarrow> removeService s i ty = (s, [])"
  by (simp add: removeService_def)

lemma removeService_config [simp]:
  "idleTimeoutMs (fst (removeService s i ty)) = idleTimeoutMs s"
  "unknownEdgeTimeoutMs (fst (removeService s i ty)) = unknownEdgeTimeoutMs s"
  by (simp_all add: removeService_def Let_def split: option.splits)

lemma remove_pass_source:
  "(k, er) \<in> set (pass_entries (remove_act i keys) es) \<Longrightarrow> se_sourceServiceId (er_edge er) \<noteq> i"
  by (auto dest!: pass_entry_source simp: remove_act_def edge_of_service_def split: if_splits)

lemma remove_inv: "store_inv s \<Longrightarrow> store_inv (fst (removeService s i ty))"
proof (cases "map_get (services s) i")
  case None
  assume "store_inv s"
  with None show ?thesis by (simp add: removeService_None)
next
  case (Some r)
  assume inv: "store_inv s"
  then have s: "services_inv (services s)" and e: "edges_inv (services s) (edges s)"
    by (simp_all add: store_inv_split)
  let ?es = "pass_entries (remove_act i (buildServiceKeys (sr_node r))) (edges s)"
  have "edges_inv (services s) ?es" using e good_acts(1) by (rule pass_inv [rotated])
  moreover have "se_sourceServiceId (er_edge er) \<noteq> i" if "(k, er) \<in> set ?es" for k er
    using that by (rule remove_pass_source)
  ultimately have "edges_inv (map_delete i (services s)) ?es"
    by (fastforce simp: edges_inv_def delete_filter)
  moreover have "services_inv (map_delete i (services s))"
    using s by (auto simp: services_inv_def delete_filter distinct_keys_filter)
  ultimately show ?thesis using removeService_parts [OF Some] by (simp add: store_inv_split)
qed

lemma set_service_inv:
  assumes "store_inv s" "map_get (services s) i = Some r0" "service_ok i r"
  shows "store_inv (s\<lparr>services := map_set i r (services s)\<rparr>)"
  using assms by (simp add: store_inv_split services_inv_set edges_inv_put)

lemma heartbeat_inv: "store_inv s \<Longrightarrow> store_inv (fst (recordHeartbeat s request now))"
proof (cases "map_get (services s) (hb_serviceId request)")
  case (Some r)
  assume inv: "store_inv s"
  then have "service_ok (hb_serviceId request) r"
    using services_inv_get [OF _ Some] by (simp add: store_inv_split)
  then have "service_ok (hb_serviceId request) (fst (heartbeat_record r request now))"
    by (rule heartbeat_record_ok)
  with inv Some show ?thesis
    by (auto simp: recordHeartbeat_def Let_def split: prod.splits if_splits
        intro!: set_service_inv) (metis queueNodeUpdate_ok fst_conv)+
qed (simp add: recordHeartbeat_def)

lemma put_edge_inv:
  assumes "store_inv s" "edge_ok k er" "se_sourceServiceId (er_edge er) \<in> fst ` set (services s)"
  shows "store_inv (s\<lparr>edges := map_set k er (edges s)\<rparr>)"
  using assms by (simp add: store_inv_split edges_inv_set)

text \<open>The edge an activity is booked on: the existing one, or a fresh one.\<close>

definition booked_edge :: "topology_store \<Rightarrow> activity_request \<Rightarrow> int \<Rightarrow> edge_record" where
  "booked_edge s event now =
     nullish (map_get (edges s) (edgeKey (ra_serviceId event) (ra_targetService event)))
       (created_edge event now)"

definition touched_service :: "topology_store \<Rightarrow> activity_request \<Rightarrow> int \<Rightarrow> service_record
   \<Rightarrow> service_record \<times> topology_update list" where
  "touched_service s event now r =
     (let (r', force) = activity_record r now
      in if force \<or> shouldEmitNodeUpdate s r' now then queueNodeUpdate r' [] now else (r', []))"

lemma recordActivity_eq:
  "map_get (services s) (ra_serviceId event) = Some r \<Longrightarrow>
   recordActivity s event now =
     (let key = edgeKey (ra_serviceId event) (ra_targetService event);
          (r', us) = touched_service s event now r
      in (s\<lparr>services := map_set (ra_serviceId event) r' (services s),
            edges := map_set key (add_activity (booked_edge s event now) event now) (edges s)\<rparr>,
          us @ (if map_get (edges s) key = None
                then [createEdgeUpdate UPDATE_TYPE_EDGE_ADDED (er_edge (created_edge event now))] else [])))"
  by (auto simp: recordActivity_def touched_service_def booked_edge_def Let_def update_conv'
      split: prod.splits option.splits if_splits)

lemma touched_service_ok:
  "service_ok k r \<Longrightarrow> service_ok k (fst (touched_service s event now r))"
  using activity_record_ok [of k r now]
  by (auto simp: touched_service_def Let_def split: prod.splits)

lemma booked_edge_ok:
  assumes "store_inv s" "map_get (services s) (ra_serviceId event) = Some r"
  shows "edge_ok (edgeKey (ra_serviceId event) (ra_targetService event)) (booked_edge s event now)"
    and "se_sourceServiceId (er_edge (booked_edge s event now)) \<in> fst ` set (services s)"
proof -
  let ?key = "edgeKey (ra_serviceId event) (ra_targetService event)"
  have e: "edges_inv (services s) (edges s)" using assms(1) by (simp add: store_inv_split)
  have src: "ra_serviceId event \<in> fst ` set (services s)"
    using assms(2) by (force dest: map_of_SomeD)
  show "edge_ok ?key (booked_edge s event now)"
    using edges_inv_get [OF e] created_edge_ok
    by (cases "map_get (edges s) ?key") (auto simp: booked_edge_def)
  show "se_sourceServiceId (er_edge (booked_edge s event now)) \<in> fst ` set (services s)"
    using edges_inv_get [OF e, of ?key] src
    by (cases "map_get (edges s) ?key") (auto simp: booked_edge_def created_edge_def)
qed

lemma activity_inv: "store_inv s \<Longrightarrow> store_inv (fst (recordActivity s event now))"
proof (cases "map_get (services s) (ra_serviceId event)")
  case (Some r)
  assume inv: "store_inv s"
  let ?i = "ra_serviceId event"
  let ?r = "fst (touched_service s event now r)"
  let ?key = "edgeKey ?i (ra_targetService event)"
  have "service_ok ?i ?r"
    using inv services_inv_get [OF _ Some] by (simp add: store_inv_split touched_service_ok)
  with inv Some have "store_inv (s\<lparr>services := map_set ?i ?r (services s)\<rparr>)"
    by (rule set_service_inv)
  then have "store_inv (s\<lparr>services := map_set ?i ?r (services s),
      edges := map_set ?key (add_activity (booked_edge s event now) event now) (edges s)\<rparr>)"
    using put_edge_inv [of "s\<lparr>services := map_set ?i ?r (services s)\<rparr>" ?key
        "add_activity (booked_edge s event now) event now"] booked_edge_ok [OF inv Some, of now]
    by (simp add: add_activity_ok)
  then show ?thesis by (simp add: recordActivity_eq [OF Some] Let_def case_prod_beta)
qed (simp add: recordActivity_def)

lemma flushActivity_eq:
  "flushActivity s now =
     (let e = fl (of_int (max 1 (now - lastActivityFlushMs s)) / 1000);
          act = flush_act (rpsWindowMs s) now e
      in (s\<lparr>lastActivityFlushMs := now, edges := pass_entries act (edges s)\<rparr>, pass_updates act (edges s)))"
  by (simp add: flushActivity_def Let_def flush_pass)

lemma flush_inv: "store_inv s \<Longrightarrow> store_inv (fst (flushActivity s now))"
proof -
  assume "store_inv s"
  then have "edges_inv (services s)
      (pass_entries (flush_act (rpsWindowMs s) now (fl (of_int (max 1 (now - lastActivityFlushMs s)) / 1000)))
        (edges s))"
    by (intro pass_inv good_acts fl_nonneg) (auto simp: store_inv_split)
  with \<open>store_inv s\<close> show ?thesis by (simp add: flushActivity_eq Let_def store_inv_split)
qed

lemma sweep_services_inv:
  "store_inv s \<Longrightarrow> (\<forall>(k, r) \<in> set rest. service_ok k r \<and> map_get (services s) k \<noteq> None) \<Longrightarrow>
   distinct (map fst rest) \<Longrightarrow> store_inv (fst (sweep_services s now rest us))"
proof (induction s now rest us rule: sweep_services.induct)
  case (1 s now us)
  then show ?case by simp
next
  case (2 s now k r rest us)
  show ?case
  proof (cases "heartbeat_expired r now")
    case True
    obtain s' removed where rm: "removeService s k UPDATE_TYPE_NODE_REMOVED = (s', removed)" by force
    have inv: "store_inv s'" using remove_inv [OF "2.prems"(1)] rm by (metis fst_conv)
    obtain r0 where r0: "map_get (services s) k = Some r0" using "2.prems"(2) by auto
    have sv: "services s' = map_delete k (services s)"
      using removeService_parts [OF r0, of UPDATE_TYPE_NODE_REMOVED] rm by simp
    have "k' \<noteq> k" if "(k', r') \<in> set rest" for k' r' using "2.prems"(3) that by force
    then have "\<forall>(k', r') \<in> set rest. service_ok k' r' \<and> map_get (services s') k' \<noteq> None"
      using "2.prems"(2) by (auto simp: sv)
    then have "store_inv (fst (sweep_services s' now rest (us @ removed)))"
      using "2.IH"(1) [OF True rm [symmetric] refl] inv "2.prems"(3) by simp
    with True rm show ?thesis by simp
  next
    case False
    obtain r' us' where sw: "sweep_record (idleTimeoutMs s) r now us = (r', us')" by force
    have ok: "service_ok k r'" using sweep_record_ok [of k r "idleTimeoutMs s" now us] "2.prems"(2) sw by simp
    obtain r0 where r0: "map_get (services s) k = Some r0" using "2.prems"(2) by auto
    let ?s = "s\<lparr>services := map_set k r' (services s)\<rparr>"
    have inv: "store_inv ?s" using set_service_inv [OF "2.prems"(1) r0 ok] .
    have "\<forall>(k', r') \<in> set rest. service_ok k' r' \<and> map_get (services ?s) k' \<noteq> None"
      using "2.prems"(2) by (auto simp: update_conv')
    then have "store_inv (fst (sweep_services ?s now rest us'))"
      using "2.IH"(2) [OF False sw [symmetric] refl] inv "2.prems"(3) by simp
    with False sw show ?thesis by simp
  qed
qed

lemma sweep_inv: "store_inv s \<Longrightarrow> store_inv (fst (sweep s now))"
proof -
  assume inv: "store_inv s"
  obtain s1 us where s1: "sweep_services s now (services s) [] = (s1, us)" by force
  have "store_inv (fst (sweep_services s now (services s) []))"
    using inv by (intro sweep_services_inv) (force simp: store_inv_def map_of_eq_None_iff)+
  then have "store_inv s1" using s1 by simp
  then show ?thesis
    by (simp add: sweep_def Let_def s1 sweep_pass store_inv_split pass_inv good_acts)
qed

lemma store_step_inv: "store_inv s \<Longrightarrow> store_inv (fst (store_step s e))"
proof (cases e)
  case (Ev_Register request i now)
  assume "store_inv s"
  then have "store_inv (fst (registerService s request i now))" by (rule register_inv)
  with Ev_Register show ?thesis by (simp add: case_prod_beta)
qed (simp_all add: unregisterService_def remove_inv heartbeat_inv activity_inv flush_inv sweep_inv)

interpretation store: reactive "\<lambda>s e. fst (store_step s e)" store_inv
  by unfold_locales (rule store_step_inv)

lemma new_store_inv: "store_inv (new_store options now)"
  by (simp add: store_inv_def new_store_def Let_def)

end
