(* ===== verification/Dashboard_Stream.thy ===== *)
theory Dashboard_Stream
  imports Topology_Types
begin

text \<open>
  The dashboard's replica of the topology (\<open>apps/dashboard/src/hooks/useTopologyStream.ts\<close>): a
  snapshot that each streamed update changes, the comparison that suppresses renders, and the
  connection status.  \<open>now\<close> is the value of \<open>Date.now()\<close>.
\<close>

definition initialSnapshot :: topology_snapshot where
  "initialSnapshot = \<lparr>ts_nodes = [], ts_edges = [], ts_timestampMs = ''0''\<rparr>"

definition removeNode ::
  "service_node list \<Rightarrow> service_edge list \<Rightarrow> service_node \<Rightarrow> int \<Rightarrow> topology_snapshot" where
  "removeNode nodes edges node now =
     \<lparr>ts_nodes = filter (\<lambda>item. sn_serviceId item \<noteq> sn_serviceId node) nodes,
      ts_edges = filter (\<lambda>edge. se_sourceServiceId edge \<noteq> sn_serviceId node
                            \<and> se_targetService edge \<noteq> sn_serviceName node) edges,
      ts_timestampMs = string_of_int now\<rparr>"

definition upsertNode ::
  "service_node list \<Rightarrow> service_edge list \<Rightarrow> service_node \<Rightarrow> int \<Rightarrow> topology_snapshot" where
  "upsertNode nodes edges node now =
     (if \<not> (\<exists>item \<in> set nodes. sn_serviceId item = sn_serviceId node)
      then \<lparr>ts_nodes = nodes @ [node], ts_edges = edges, ts_timestampMs = string_of_int now\<rparr>
      else \<lparr>ts_nodes = map (\<lambda>item. if sn_serviceId item = sn_serviceId node then node else item) nodes,
            ts_edges = edges, ts_timestampMs = string_of_int now\<rparr>)"

definition dashEdgeKey :: "service_edge \<Rightarrow> string" where
  "dashEdgeKey edge = edge_key_of (se_sourceServiceId edge) (se_targetService edge)"

definition removeEdge ::
  "service_node list \<Rightarrow> service_edge list \<Rightarrow> service_edge \<Rightarrow> int \<Rightarrow> topology_snapshot" where
  "removeEdge nodes edges edge now =
     \<lparr>ts_nodes = nodes,
      ts_edges = filter (\<lambda>item. dashEdgeKey item \<noteq> dashEdgeKey edge) edges,
      ts_timestampMs = string_of_int now\<rparr>"

definition upsertEdge ::
  "service_node list \<Rightarrow> service_edge list \<Rightarrow> service_edge \<Rightarrow> int \<Rightarrow> topology_snapshot" where
  "upsertEdge nodes edges edge now =
     (let key = dashEdgeKey edge in
      if \<not> (\<exists>item \<in> set edges. dashEdgeKey item = key)
      then \<lparr>ts_nodes = nodes, ts_edges = edges @ [edge], ts_timestampMs = string_of_int now\<rparr>
      else \<lparr>ts_nodes = nodes,
            ts_edges = map (\<lambda>item. if dashEdgeKey item = key then edge else item) edges,
            ts_timestampMs = string_of_int now\<rparr>)"

text \<open>
  \<open>applyUpdate\<close>: a complete snapshot replaces everything; otherwise the node part of the message
  is looked at before the edge part, and a message of any other shape changes nothing.
\<close>

definition apply_edge_part :: "topology_snapshot \<Rightarrow> topology_update \<Rightarrow> int \<Rightarrow> topology_snapshot" where
  "apply_edge_part snap update now =
     (case tu_edge update of
        Some edge \<Rightarrow>
          if tu_type update = UPDATE_TYPE_EDGE_REMOVED
          then removeEdge (ts_nodes snap) (ts_edges snap) edge now
          else if tu_type update = UPDATE_TYPE_EDGE_ADDED \<or> tu_type update = UPDATE_TYPE_EDGE_UPDATED
          then upsertEdge (ts_nodes snap) (ts_edges snap) edge now
          else snap
      | None \<Rightarrow> snap)"

definition applyUpdate :: "topology_snapshot \<Rightarrow> topology_update \<Rightarrow> int \<Rightarrow> topology_snapshot" where
  "applyUpdate snap update now =
     (if tu_type update = UPDATE_TYPE_SNAPSHOT \<and> tu_snapshot update \<noteq> None
      then the (tu_snapshot update)
      else case tu_node update of
        Some node \<Rightarrow>
          if tu_type update = UPDATE_TYPE_NODE_REMOVED
          then removeNode (ts_nodes snap) (ts_edges snap) node now
          else if tu_type update = UPDATE_TYPE_NODE_ADDED \<or> tu_type update = UPDATE_TYPE_NODE_UPDATED
          then upsertNode (ts_nodes snap) (ts_edges snap) node now
          else apply_edge_part snap update now
      | None \<Rightarrow> apply_edge_part snap update now)"

subsection \<open>Equality of snapshots\<close>

definition areServiceNodesEqual :: "service_node \<Rightarrow> service_node \<Rightarrow> bool" where
  "areServiceNodesEqual left right \<longleftrightarrow>
     sn_serviceId left = sn_serviceId right \<and> sn_serviceName left = sn_serviceName right \<and>
     sn_serviceType left = sn_serviceType right \<and> sn_language left = sn_language right \<and>
     sn_version left = sn_version right \<and> sn_address left = sn_address right \<and>
     sn_host left = sn_host right \<and> sn_state left = sn_state right \<and>
     sn_lastHeartbeatMs left = sn_lastHeartbeatMs right \<and>
     sn_lastActivityMs left = sn_lastActivityMs right \<and> sn_health left = sn_health right"

definition areServiceEdgesEqual :: "service_edge \<Rightarrow> service_edge \<Rightarrow> bool" where
  "areServiceEdgesEqual left right \<longleftrightarrow>
     se_sourceServiceId left = se_sourceServiceId right \<and>
     se_targetService left = se_targetService right \<and> se_state left = se_state right \<and>
     se_lastActivityMs left = se_lastActivityMs right \<and>
     se_totalRequests left = se_totalRequests right \<and>
     se_totalErrors left = se_totalErrors right \<and>
     se_avgLatencyMs left = se_avgLatencyMs right \<and> se_rps left = se_rps right"

text \<open>\<open>new Map(items.map((x) => [key x, x]))\<close>: a later item takes the place of an earlier one.\<close>

definition index_by :: "('a \<Rightarrow> string) \<Rightarrow> 'a list \<Rightarrow> (string, 'a) js_map" where
  "index_by key items = foldl (\<lambda>m x. map_set (key x) x m) [] items"

definition index_equal :: "('a \<Rightarrow> 'a \<Rightarrow> bool) \<Rightarrow> (string, 'a) js_map \<Rightarrow> (string, 'a) js_map \<Rightarrow> bool" where
  "index_equal eq left right \<longleftrightarrow>
     length left = length right \<and>
     list_all (\<lambda>(k, x). case map_get right k of None \<Rightarrow> False | Some y \<Rightarrow> eq x y) left"

definition areSnapshotsEqual :: "topology_snapshot \<Rightarrow> topology_snapshot \<Rightarrow> bool" where
  "areSnapshotsEqual left right \<longleftrightarrow>
     left = right \<or>
     (length (ts_nodes left) = length (ts_nodes right) \<and>
      length (ts_edges left) = length (ts_edges right) \<and>
      index_equal areServiceNodesEqual
        (index_by sn_serviceId (ts_nodes left)) (index_by sn_serviceId (ts_nodes right)) \<and>
      index_equal areServiceEdgesEqual
        (index_by dashEdgeKey (ts_edges left)) (index_by dashEdgeKey (ts_edges right)))"

subsection \<open>The hook\<close>

datatype connection_status = Connecting | Live | Error_Status

record stream_state =
  st_status :: connection_status
  st_snapshot :: topology_snapshot
  st_lastEventMs :: string

datatype stream_event =
    Sse_Open
  | Sse_Error
  | Sse_Message "topology_update option" int  \<comment> \<open>\<open>None\<close>: the data is not JSON\<close>

definition initial_stream :: stream_state where
  "initial_stream = \<lparr>st_status = Connecting, st_snapshot = initialSnapshot, st_lastEventMs = ''0''\<rparr>"

fun stream_step :: "stream_state \<Rightarrow> stream_event \<Rightarrow> stream_state" where
  "stream_step st Sse_Open = st\<lparr>st_status := Live\<rparr>"
| "stream_step st Sse_Error = st\<lparr>st_status := Error_Status, st_snapshot := initialSnapshot\<rparr>"
| "stream_step st (Sse_Message None now) = st\<lparr>st_status := Error_Status\<rparr>"
| "stream_step st (Sse_Message (Some update) now) =
     (let next = applyUpdate (st_snapshot st) update now in
      if areSnapshotsEqual (st_snapshot st) next then st
      else st\<lparr>st_lastEventMs := string_of_int now, st_snapshot := next\<rparr>)"

subsection \<open>Applying the messages of the topology service\<close>

definition node_message :: "update_type \<Rightarrow> service_node \<Rightarrow> topology_update" where
  "node_message ty node = \<lparr>tu_type = ty, tu_node = Some node, tu_edge = None, tu_snapshot = None\<rparr>"

definition edge_message :: "update_type \<Rightarrow> service_edge \<Rightarrow> topology_update" where
  "edge_message ty edge = \<lparr>tu_type = ty, tu_node = None, tu_edge = Some edge, tu_snapshot = None\<rparr>"

definition snapshot_message :: "topology_snapshot \<Rightarrow> topology_update" where
  "snapshot_message snap =
     \<lparr>tu_type = UPDATE_TYPE_SNAPSHOT, tu_node = None, tu_edge = None, tu_snapshot = Some snap\<rparr>"

lemmas message_defs = node_message_def edge_message_def snapshot_message_def

lemma applyUpdate_messages [simp]:
  "applyUpdate d (snapshot_message snap) now = snap"
  "applyUpdate d (node_message UPDATE_TYPE_NODE_REMOVED n) now = removeNode (ts_nodes d) (ts_edges d) n now"
  "applyUpdate d (node_message UPDATE_TYPE_NODE_ADDED n) now = upsertNode (ts_nodes d) (ts_edges d) n now"
  "applyUpdate d (node_message UPDATE_TYPE_NODE_UPDATED n) now = upsertNode (ts_nodes d) (ts_edges d) n now"
  "applyUpdate d (edge_message UPDATE_TYPE_EDGE_REMOVED e) now = removeEdge (ts_nodes d) (ts_edges d) e now"
  "applyUpdate d (edge_message UPDATE_TYPE_EDGE_ADDED e) now = upsertEdge (ts_nodes d) (ts_edges d) e now"
  "applyUpdate d (edge_message UPDATE_TYPE_EDGE_UPDATED e) now = upsertEdge (ts_nodes d) (ts_edges d) e now"
  by (simp_all add: applyUpdate_def apply_edge_part_def message_defs)

text \<open>A list of messages, each with the dashboard's clock when it arrives.\<close>

definition replay :: "topology_snapshot \<Rightarrow> (topology_update \<times> int) list \<Rightarrow> topology_snapshot" where
  "replay d us = foldl (\<lambda>d (u, now). applyUpdate d u now) d us"

lemma replay_simps [simp]:
  "replay d [] = d"
  "replay d ((u, now) # us) = replay (applyUpdate d u now) us"
  "replay d (us @ vs) = replay (replay d us) vs"
  by (simp_all add: replay_def)

end
