(* ===== verification/Replication.thy ===== *)
theory Replication
  imports Main
begin

text \<open>
  The interface between a store that describes its changes as update messages and anybody who
  keeps a copy by replaying them.  A message reaches the copy together with a local clock reading.
\<close>

text \<open>A copy that starts at \<open>d0\<close> and has replayed exactly the messages \<open>log\<close> agrees with the store.\<close>

definition caught_up ::
  "('s \<Rightarrow> 'd \<Rightarrow> bool) \<Rightarrow> ('d \<Rightarrow> 'u \<times> 't \<Rightarrow> 'd) \<Rightarrow> 'd \<Rightarrow> 's \<Rightarrow> 'u list \<Rightarrow> bool" where
  "caught_up rel app d0 s log \<longleftrightarrow> (\<forall>ms. map fst ms = log \<longrightarrow> rel s (foldl app d0 ms))"

fun run_updates :: "('s \<Rightarrow> 'e \<Rightarrow> 's \<times> 'u list) \<Rightarrow> 's \<Rightarrow> 'e list \<Rightarrow> 's \<times> 'u list" where
  "run_updates step s [] = (s, [])"
| "run_updates step s (e # es) =
     (let (s1, us) = step s e; (s2, vs) = run_updates step s1 es in (s2, us @ vs))"

lemma run_updates_foldl: "fst (run_updates step s es) = foldl (\<lambda>s e. fst (step s e)) s es"
  by (induction es arbitrary: s) (simp_all add: Let_def case_prod_beta)

lemma run_updates_append:
  "run_updates step s (es @ es') =
     (fst (run_updates step (fst (run_updates step s es)) es'),
      snd (run_updates step s es) @ snd (run_updates step (fst (run_updates step s es)) es'))"
  by (induction es arbitrary: s) (simp_all add: Let_def case_prod_beta)

locale replicated_store =
  fixes step :: "'s \<Rightarrow> 'e \<Rightarrow> 's \<times> 'u list"
    and inv :: "'s \<Rightarrow> bool"
    and app :: "'d \<Rightarrow> 'u \<times> 't \<Rightarrow> 'd"
    and rel :: "'s \<Rightarrow> 'd \<Rightarrow> bool"
    and whole :: "'u \<Rightarrow> bool"
  assumes inv_step: "inv s \<Longrightarrow> inv (fst (step s e))"
    and rel_step: "inv s \<Longrightarrow> rel s d \<Longrightarrow> map fst ms = snd (step s e) \<Longrightarrow> rel (fst (step s e)) (foldl app d ms)"
    and rel_whole: "whole u \<Longrightarrow> app d (u, t) = app d' (u, t)"
    and not_whole: "u \<in> set (snd (step s e)) \<Longrightarrow> \<not> whole u"
begin

lemma caught_up_step:
  assumes "inv s" "caught_up rel app d0 s log"
  shows "caught_up rel app d0 (fst (step s e)) (log @ snd (step s e))"
  unfolding caught_up_def
proof (intro allI impI)
  fix ms :: "('u \<times> 't) list" assume "map fst ms = log @ snd (step s e)"
  then obtain as bs where ms: "ms = as @ bs" "map fst as = log" "map fst bs = snd (step s e)"
    by (auto simp: map_eq_append_conv)
  with assms have "rel s (foldl app d0 as)" by (simp add: caught_up_def)
  with assms(1) ms(3) have "rel (fst (step s e)) (foldl app (foldl app d0 as) bs)" by (intro rel_step)
  with ms(1) show "rel (fst (step s e)) (foldl app d0 ms)" by simp
qed

text \<open>A message that carries the whole state brings any copy up to date.\<close>

lemma caught_up_whole:
  assumes "whole u" "\<And>t. rel s (app d0 (u, t))"
  shows "caught_up rel app d0 s (log @ [u])"
  unfolding caught_up_def
proof (intro allI impI)
  fix ms :: "('u \<times> 't) list" assume "map fst ms = log @ [u]"
  then obtain as t where ms: "ms = as @ [(u, t)]" by (auto simp: map_eq_append_conv)
  have "rel s (app d0 (u, t))" by (rule assms(2))
  then show "rel s (foldl app d0 ms)" using ms rel_whole [OF assms(1), of "foldl app d0 as" t d0] by simp
qed

lemma run_inv: "inv s \<Longrightarrow> inv (fst (run_updates step s es))"
  by (induction es arbitrary: s) (simp_all add: case_prod_beta Let_def inv_step)

lemma run_caught_up:
  "inv s \<Longrightarrow> caught_up rel app d0 s log \<Longrightarrow>
   caught_up rel app d0 (fst (run_updates step s es)) (log @ snd (run_updates step s es))"
proof (induction es arbitrary: s log)
  case (Cons e es)
  have "inv (fst (step s e))" using Cons.prems(1) by (rule inv_step)
  moreover have "caught_up rel app d0 (fst (step s e)) (log @ snd (step s e))"
    using Cons.prems by (rule caught_up_step)
  ultimately have "caught_up rel app d0 (fst (run_updates step (fst (step s e)) es))
      ((log @ snd (step s e)) @ snd (run_updates step (fst (step s e)) es))"
    by (rule Cons.IH)
  then show ?case by (simp add: case_prod_beta Let_def)
qed simp

end

end
