(* ===== verification/Topology_Replica.thy ===== *)
theory Topology_Replica
  imports Topology_Invariant Dashboard_Stream Replication
begin

text \<open>
  The contract between the topology store and the dashboard: replaying the updates an operation
  returns takes a replica of the old store to a replica of the new one.  A replica agrees with the
  store on the order and the identity of nodes and edges and on every field, except for the two
  clocks of a node (throttled) and, on an edge with activity not yet flushed, the state and the
  clock of the edge.
\<close>

subsection \<open>Lists that follow a map\<close>

text \<open>The list \<open>xs\<close> has one item per map entry, in the same order, with the entry's key.\<close>

definition follows :: "('v \<Rightarrow> 'b \<Rightarrow> bool) \<Rightarrow> ('b \<Rightarrow> 'k) \<Rightarrow> ('k, 'v) js_map \<Rightarrow> 'b list \<Rightarrow> bool" where
  "follows R key m xs \<longleftrightarrow> list_all2 (\<lambda>(k, a) b. key b = k \<and> R a b) m xs"

definition put_by :: "('b \<Rightarrow> 'k) \<Rightarrow> 'b \<Rightarrow> 'b list \<Rightarrow> 'b list" where
  "put_by key x xs =
     (if \<not> (\<exists>item \<in> set xs. key item = key x) then xs @ [x]
      else map (\<lambda>item. if key item = key x then x else item) xs)"

lemma follows_Nil [simp]: "follows R key [] xs \<longleftrightarrow> xs = []"
  by (simp add: follows_def)

lemma follows_Cons: "follows R key ((k, a) # m) xs \<longleftrightarrow>
    (\<exists>b bs. xs = b # bs \<and> key b = k \<and> R a b \<and> follows R key m bs)"
  by (auto simp: follows_def list_all2_Cons1)

lemma follows_keys: "follows R key m xs \<Longrightarrow> map key xs = map fst m"
  by (induction m arbitrary: xs) (auto simp: follows_Cons)

lemma follows_length: "follows R key m xs \<Longrightarrow> length xs = length m"
  by (metis follows_keys length_map)

lemma follows_append: "follows R key m xs \<Longrightarrow> follows R key m' ys \<Longrightarrow> follows R key (m @ m') (xs @ ys)"
  by (simp add: follows_def list_all2_appendI)

lemma follows_filter:
  "follows R key m xs \<Longrightarrow> (\<And>k a b. (k, a) \<in> set m \<Longrightarrow> key b = k \<Longrightarrow> R a b \<Longrightarrow> P (k, a) = Q b) \<Longrightarrow>
   follows R key (filter P m) (filter Q xs)"
proof (induction m arbitrary: xs)
  case (Cons p m)
  obtain k a where p: "p = (k, a)" by force
  with Cons.prems(1) obtain b bs where xs: "xs = b # bs" "key b = k" "R a b" "follows R key m bs"
    by (auto simp: follows_Cons)
  have "follows R key (filter P m) (filter Q bs)" using Cons.IH xs(4) Cons.prems(2) by simp
  moreover have "P (k, a) = Q b" using Cons.prems(2) p xs by simp
  ultimately show ?case using p xs by (simp add: follows_Cons)
qed simp

lemma follows_map:
  "follows R key m xs \<Longrightarrow>
   (\<And>k a b. (k, a) \<in> set m \<Longrightarrow> key b = k \<Longrightarrow> R a b \<Longrightarrow> key (g b) = fst (f (k, a)) \<and> R (snd (f (k, a))) (g b)) \<Longrightarrow>
   follows R key (map f m) (map g xs)"
proof (induction m arbitrary: xs)
  case (Cons p m)
  obtain k a where p: "p = (k, a)" by force
  with Cons.prems(1) obtain b bs where xs: "xs = b # bs" "key b = k" "R a b" "follows R key m bs"
    by (auto simp: follows_Cons)
  have "follows R key (map f m) (map g bs)" using Cons.IH xs(4) Cons.prems(2) by simp
  moreover have "key (g b) = fst (f (k, a)) \<and> R (snd (f (k, a))) (g b)"
    using Cons.prems(2) p xs by simp
  moreover obtain k' a' where "f (k, a) = (k', a')" by force
  ultimately show ?case using p xs by (simp add: follows_Cons)
qed simp

lemma follows_has_key: "follows R key m xs \<Longrightarrow> (\<exists>item \<in> set xs. key item = k) \<longleftrightarrow> k \<in> fst ` set m"
  using follows_keys by (metis image_iff image_set)

text \<open>Writing an entry and sending the new item.\<close>

lemma follows_put:
  assumes "follows R key m xs" "distinct (map fst m)" "R a b" "key b = k"
  shows "follows R key (map_set k a m) (put_by key b xs)"
proof (cases "k \<in> fst ` set m")
  case True
  then have "\<exists>item \<in> set xs. key item = key b" using follows_has_key assms(1,4) by metis
  moreover have "follows R key (map (\<lambda>(k', a'). if k' = k then (k, a) else (k', a')) m)
      (map (\<lambda>item. if key item = key b then b else item) xs)"
    using assms(1) by (rule follows_map) (use assms(3,4) in auto)
  ultimately show ?thesis using True assms(2) by (simp add: put_by_def update_present)
next
  case False
  then have "\<not> (\<exists>item \<in> set xs. key item = key b)" using follows_has_key assms(1,4) by metis
  moreover have "follows R key (m @ [(k, a)]) (xs @ [b])"
    using assms(1) by (rule follows_append) (simp add: follows_Cons assms(3,4))
  ultimately show ?thesis using False by (simp add: put_by_def update_fresh)
qed

text \<open>Writing an entry without sending anything.\<close>

lemma follows_silent:
  assumes "follows R key m xs" "distinct (map fst m)" "map_get m k = Some a0"
    and "\<And>b. R a0 b \<Longrightarrow> R a b"
  shows "follows R key (map_set k a m) xs"
proof -
  have k: "k \<in> fst ` set m" using assms(3) by (force dest: map_of_SomeD)
  have only: "a' = a0" if "(k, a') \<in> set m" for a'
    using that assms(2,3) by (simp add: map_of_Some_iff)
  have "follows R key (map (\<lambda>(k', a'). if k' = k then (k, a) else (k', a')) m) (map (\<lambda>b. b) xs)"
    using assms(1) by (rule follows_map) (use assms(4) only in auto)
  then show ?thesis by (simp add: update_present assms(2) k)
qed

subsection \<open>Replicas\<close>

definition node_sim :: "service_record \<Rightarrow> service_node \<Rightarrow> bool" where
  "node_sim r n \<longleftrightarrow>
     n\<lparr>sn_lastHeartbeatMs := sn_lastHeartbeatMs (sr_node r),
       sn_lastActivityMs := sn_lastActivityMs (sr_node r)\<rparr> = sr_node r"

definition edge_sim :: "edge_record \<Rightarrow> service_edge \<Rightarrow> bool" where
  "edge_sim er e \<longleftrightarrow>
     e\<lparr>se_state := se_state (er_edge er), se_lastActivityMs := se_lastActivityMs (er_edge er)\<rparr>
       = er_edge er \<and>
     (er_pendingCount er = 0 \<longrightarrow> e = er_edge er)"

definition replica :: "topology_store \<Rightarrow> topology_snapshot \<Rightarrow> bool" where
  "replica s d \<longleftrightarrow>
     follows node_sim sn_serviceId (services s) (ts_nodes d) \<and>
     follows edge_sim dashEdgeKey (edges s) (ts_edges d)"

lemma node_sim_refl [simp]: "node_sim r (sr_node r)"
  by (simp add: node_sim_def)

lemma edge_sim_refl [simp]: "edge_sim er (er_edge er)"
  by (simp add: edge_sim_def)

lemma node_sim_ids: "node_sim r n \<Longrightarrow>
    sn_serviceId n = sn_serviceId (sr_node r) \<and> sn_serviceName n = sn_serviceName (sr_node r)"
  by (cases n; cases "sr_node r") (simp add: node_sim_def)

lemma edge_sim_ends: "edge_sim er e \<Longrightarrow>
    se_sourceServiceId e = se_sourceServiceId (er_edge er) \<and> se_targetService e = se_targetService (er_edge er)"
  by (cases e; cases "er_edge er") (simp add: edge_sim_def)

lemma edge_names_key: "edge_names_ok k er \<Longrightarrow> dashEdgeKey (er_edge er) = k"
  by (simp add: edge_names_ok_def dashEdgeKey_def edgeKey_def)

lemma edge_ok_key: "edge_ok k er \<Longrightarrow> dashEdgeKey (er_edge er) = k"
  by (simp add: edge_ok_def edge_names_key)

lemma ts_upserts [simp]:
  "ts_nodes (upsertNode ns es n now) = put_by sn_serviceId n ns"
  "ts_edges (upsertNode ns es n now) = es"
  "ts_nodes (upsertEdge ns es e now) = ns"
  "ts_edges (upsertEdge ns es e now) = put_by dashEdgeKey e es"
  by (simp_all add: upsertNode_def upsertEdge_def put_by_def Let_def)

lemma ts_removes [simp]:
  "ts_nodes (removeNode ns es n now) = filter (\<lambda>item. sn_serviceId item \<noteq> sn_serviceId n) ns"
  "ts_edges (removeNode ns es n now) = filter (\<lambda>e. se_sourceServiceId e \<noteq> sn_serviceId n
       \<and> se_targetService e \<noteq> sn_serviceName n) es"
  "ts_nodes (removeEdge ns es e now) = ns"
  "ts_edges (removeEdge ns es e now) = filter (\<lambda>item. dashEdgeKey item \<noteq> dashEdgeKey e) es"
  by (simp_all add: removeNode_def removeEdge_def)

lemma messages_created:
  "createNodeUpdate ty n = node_message ty n" "createEdgeUpdate ty e = edge_message ty e"
  by (simp_all add: createNodeUpdate_def createEdgeUpdate_def message_defs)

lemma snapshot_replica: "store_inv s \<Longrightarrow> replica s (snapshot s now)"
proof -
  assume inv: "store_inv s"
  have n: "follows node_sim sn_serviceId m (map (\<lambda>p. sr_node (snd p)) m)"
    if "\<forall>(k, r) \<in> set m. service_ok k r" for m
    using that by (induction m) (auto simp: follows_Cons service_ok_def)
  have e: "follows edge_sim dashEdgeKey m (map (\<lambda>p. er_edge (snd p)) m)"
    if "\<forall>(k, er) \<in> set m. edge_ok k er" for m
    using that by (induction m) (auto simp: follows_Cons edge_ok_key)
  show ?thesis using inv n e by (simp add: replica_def snapshot_def store_inv_def comp_def)
qed

lemma follows_exact:
  "follows R key m xs \<Longrightarrow> (\<And>k a x. (k, a) \<in> set m \<Longrightarrow> R a x \<Longrightarrow> x = f a) \<Longrightarrow> xs = map f (map snd m)"
proof (induction m arbitrary: xs)
  case (Cons p m)
  obtain k a where p: "p = (k, a)" by force
  with Cons.prems(1) obtain x xs' where "xs = x # xs'" "R a x" "follows R key m xs'"
    by (auto simp: follows_Cons)
  moreover from this(2) p have "x = f a" by (intro Cons.prems(2) [of k]) simp_all
  moreover from \<open>follows R key m xs'\<close> have "xs' = map f (map snd m)"
    by (rule Cons.IH) (auto intro: Cons.prems(2))
  ultimately show ?case using p by simp
qed simp

lemma follows_clockless:
  assumes "follows node_sim key m xs"
  shows "map (\<lambda>n. n\<lparr>sn_lastHeartbeatMs := [], sn_lastActivityMs := []\<rparr>) xs =
    map (\<lambda>n. n\<lparr>sn_lastHeartbeatMs := [], sn_lastActivityMs := []\<rparr>) (map sr_node (map snd m))"
  using assms
proof (induction m arbitrary: xs)
  case (Cons p m)
  obtain k r where p: "p = (k, r)" by force
  with Cons.prems obtain n xs' where n: "xs = n # xs'" "node_sim r n" "follows node_sim key m xs'"
    by (auto simp: follows_Cons)
  from n(2) have "n\<lparr>sn_lastHeartbeatMs := [], sn_lastActivityMs := []\<rparr> =
      (sr_node r)\<lparr>sn_lastHeartbeatMs := [], sn_lastActivityMs := []\<rparr>"
    using arg_cong [OF n(2) [unfolded node_sim_def],
        of "\<lambda>n. n\<lparr>sn_lastHeartbeatMs := [], sn_lastActivityMs := []\<rparr>"] by simp
  with Cons.IH n p show ?case by simp
qed simp

subsection \<open>Simulation, operation by operation\<close>

definition simulates ::
  "topology_store \<Rightarrow> topology_snapshot \<Rightarrow> topology_store \<times> topology_update list \<Rightarrow> bool" where
  "simulates s d res \<longleftrightarrow> (\<forall>ms. map fst ms = snd res \<longrightarrow> replica (fst res) (replay d ms))"

lemma simulates_nil: "simulates s d (s', []) \<longleftrightarrow> replica s' d"
  by (simp add: simulates_def)

lemma simulates_one: "simulates s d (s', [u]) \<longleftrightarrow> (\<forall>t. replica s' (applyUpdate d u t))"
  by (auto simp: simulates_def map_eq_Cons_conv)

lemma simulates_trans:
  assumes "simulates s d (s1, us)" "\<And>d1. replica s1 d1 \<Longrightarrow> simulates s1 d1 (s2, vs)"
  shows "simulates s d (s2, us @ vs)"
  unfolding simulates_def
proof (intro allI impI)
  fix ms :: "(topology_update \<times> int) list"
  assume "map fst ms = snd (s2, us @ vs)"
  then obtain ms1 ms2 where ms: "ms = ms1 @ ms2" "map fst ms1 = us" "map fst ms2 = vs"
    by (auto simp: map_eq_append_conv)
  then have "replica s1 (replay d ms1)" using assms(1) by (simp add: simulates_def)
  then show "replica (fst (s2, us @ vs)) (replay d ms)" using assms(2) ms by (simp add: simulates_def)
qed

lemma replica_put_node:
  assumes "store_inv s" "replica s d" "service_ok k r"
  shows "replica (s\<lparr>services := map_set k r (services s)\<rparr>)
           (upsertNode (ts_nodes d) (ts_edges d) (sr_node r) t)"
  using assms follows_put [of node_sim sn_serviceId "services s" "ts_nodes d" r "sr_node r" k]
  by (simp add: replica_def store_inv_def service_ok_def)

lemma replica_silent_node:
  assumes "store_inv s" "replica s d" "map_get (services s) k = Some r0"
    and "\<And>n. node_sim r0 n \<Longrightarrow> node_sim r n"
  shows "replica (s\<lparr>services := map_set k r (services s)\<rparr>) d"
  using assms follows_silent [of node_sim sn_serviceId "services s" "ts_nodes d" k r0 r]
  by (simp add: replica_def store_inv_def)

lemma replica_put_edge:
  assumes "store_inv s" "replica s d" "edge_sim er e" "dashEdgeKey e = k"
  shows "replica (s\<lparr>edges := map_set k er (edges s)\<rparr>) (upsertEdge (ts_nodes d) (ts_edges d) e t)"
  using assms follows_put [of edge_sim dashEdgeKey "edges s" "ts_edges d" er e k]
  by (simp add: replica_def store_inv_def)

lemma replica_silent_edge:
  assumes "store_inv s" "replica s d" "map_get (edges s) k = Some er0"
    and "\<And>e. edge_sim er0 e \<Longrightarrow> edge_sim er e"
  shows "replica (s\<lparr>edges := map_set k er (edges s)\<rparr>) d"
  using assms follows_silent [of edge_sim dashEdgeKey "edges s" "ts_edges d" k er0 er]
  by (simp add: replica_def store_inv_def)

lemma register_sim:
  assumes "store_inv s" "replica s d"
  shows "simulates s d (case registerService s request i now of (s', h, us) \<Rightarrow> (s', us))"
proof -
  let ?r = "\<lparr>sr_node = registered_node request i now, sr_lastHeartbeatMs = now, sr_lastActivityMs = 0,
     sr_lastNodeUpdateMs = now, sr_heartbeatIntervalMs = heartbeatIntervalMs s,
     sr_timeoutMultiplier = timeoutMultiplier s\<rparr>"
  have "replica (s\<lparr>services := map_set i ?r (services s)\<rparr>)
          (upsertNode (ts_nodes d) (ts_edges d) (registered_node request i now) t)" for t
    using replica_put_node [OF assms registered_ok] by simp
  then show ?thesis
    by (simp add: registerService_def Let_def simulates_one messages_created replica_def)
qed

text \<open>Only the clocks of a node may change without an update.\<close>

lemma node_sim_heartbeat:
  "sr_node r' = (sr_node r)\<lparr>sn_lastHeartbeatMs := h\<rparr> \<Longrightarrow> node_sim r n \<Longrightarrow> node_sim r' n"
  by (cases n; cases "sr_node r") (simp add: node_sim_def)

lemma node_sim_activity:
  "sr_node r' = (sr_node r)\<lparr>sn_lastActivityMs := a\<rparr> \<Longrightarrow> node_sim r n \<Longrightarrow> node_sim r' n"
  by (cases n; cases "sr_node r") (simp add: node_sim_def)

lemma heartbeat_record_quiet:
  "\<not> snd (heartbeat_record r request now) \<Longrightarrow>
   sr_node (fst (heartbeat_record r request now)) = (sr_node r)\<lparr>sn_lastHeartbeatMs := string_of_int now\<rparr>"
  by (cases "hb_health request"; cases "sn_state (sr_node r) = SERVICE_STATE_STALE")
    (simp_all add: heartbeat_record_def Let_def split: if_splits)

lemma activity_record_quiet:
  "\<not> snd (activity_record r now) \<Longrightarrow>
   sr_node (fst (activity_record r now)) = (sr_node r)\<lparr>sn_lastActivityMs := string_of_int now\<rparr>"
  by (simp add: activity_record_def Let_def split: if_splits)

lemma heartbeat_record_silent:
  "\<not> snd (heartbeat_record r request now) \<Longrightarrow> node_sim r n \<Longrightarrow>
   node_sim (fst (heartbeat_record r request now)) n"
  by (rule node_sim_heartbeat [OF heartbeat_record_quiet])

lemma queue_sim:
  assumes "store_inv s" "replica s d" "map_get (services s) k = Some r0" "service_ok k r"
    and "emit \<or> (\<forall>n. node_sim r0 n \<longrightarrow> node_sim r n)"
    and "q = (if emit then queueNodeUpdate r [] now else (r, []))"
  shows "simulates s d (s\<lparr>services := map_set k (fst q) (services s)\<rparr>, snd q)"
proof (cases emit)
  case True
  have ok: "service_ok k (fst (queueNodeUpdate r [] now))" using assms(4) by simp
  from replica_put_node [OF assms(1,2) ok] True assms(6) show ?thesis
    by (simp add: simulates_one messages_created)
next
  case False
  with replica_silent_node [OF assms(1,2,3), of r] assms(5,6) show ?thesis
    by (simp add: simulates_nil)
qed

lemma heartbeat_sim:
  assumes inv: "store_inv s" and rep: "replica s d"
  shows "simulates s d (recordHeartbeat s request now)"
proof (cases "map_get (services s) (hb_serviceId request)")
  case None
  with rep show ?thesis by (simp add: recordHeartbeat_def simulates_nil)
next
  case (Some r)
  obtain r' force where hr: "heartbeat_record r request now = (r', force)" by force
  define emit where "emit = (force \<or> shouldEmitNodeUpdate s r' now)"
  define q where "q = (if emit then queueNodeUpdate r' [] now else (r', []))"
  have ok: "service_ok (hb_serviceId request) r'"
    using heartbeat_record_ok [OF services_inv_get [OF _ Some], of request now] inv hr
    by (simp add: store_inv_split)
  have "emit \<or> (\<forall>n. node_sim r n \<longrightarrow> node_sim r' n)"
    using heartbeat_record_silent [of r request now] hr by (auto simp: emit_def)
  from queue_sim [OF inv rep Some ok this q_def] show ?thesis
    by (simp only: recordHeartbeat_def Some option.case Let_def hr case_prod_beta fst_conv snd_conv
        q_def emit_def)
qed

lemma activity_record_silent:
  "\<not> snd (activity_record r now) \<Longrightarrow> node_sim r n \<Longrightarrow> node_sim (fst (activity_record r now)) n"
  by (rule node_sim_activity [OF activity_record_quiet])

lemma touched_service_sim:
  assumes inv: "store_inv s" and rep: "replica s d" and r: "map_get (services s) (ra_serviceId event) = Some r"
  shows "simulates s d (s\<lparr>services := map_set (ra_serviceId event) (fst (touched_service s event now r)) (services s)\<rparr>,
           snd (touched_service s event now r))"
proof -
  obtain r' force where ar: "activity_record r now = (r', force)" by force
  define emit where "emit = (force \<or> shouldEmitNodeUpdate s r' now)"
  have ok: "service_ok (ra_serviceId event) r'"
    using activity_record_ok [OF services_inv_get [OF _ r], of now] inv ar by (simp add: store_inv_split)
  have "emit \<or> (\<forall>n. node_sim r n \<longrightarrow> node_sim r' n)"
    using activity_record_silent [of r now] ar by (auto simp: emit_def)
  from queue_sim [OF inv rep r ok this refl [of "if emit then queueNodeUpdate r' [] now else (r', [])"]]
  show ?thesis by (simp only: touched_service_def ar emit_def Let_def prod.case)
qed

lemma add_activity_sim:
  assumes "edge_counts_ok er" "edge_sim er e"
  shows "edge_sim (add_activity er event now) e"
  using assms batchSize_pos [of event]
  by (cases e; cases "er_edge er") (simp add: edge_sim_def add_activity_def Let_def edge_counts_ok_def)

lemma created_edge_sim: "edge_sim (add_activity (created_edge event now) event now) (er_edge (created_edge event now))"
  using batchSize_pos [of event] by (simp add: edge_sim_def add_activity_def created_edge_def Let_def)

lemma created_edge_key:
  "dashEdgeKey (er_edge (created_edge event now)) = edgeKey (ra_serviceId event) (ra_targetService event)"
  by (simp add: created_edge_def dashEdgeKey_def edgeKey_def)

lemma booked_edge_sim:
  fixes event :: activity_request
  assumes inv: "store_inv s" and rep: "replica s d"
  defines "key \<equiv> edgeKey (ra_serviceId event) (ra_targetService event)"
  shows "simulates s d
    (s\<lparr>edges := map_set key (add_activity (booked_edge s event now) event now) (edges s)\<rparr>,
     if map_get (edges s) key = None
     then [createEdgeUpdate UPDATE_TYPE_EDGE_ADDED (er_edge (created_edge event now))] else [])"
proof (cases "map_get (edges s) key")
  case None
  then show ?thesis
    using replica_put_edge [OF inv rep created_edge_sim created_edge_key]
    by (simp add: booked_edge_def key_def simulates_one messages_created)
next
  case (Some er)
  have "edge_counts_ok er"
    using edges_inv_get [OF _ Some, of "services s"] inv by (simp add: store_inv_split edge_ok_def)
  then have "replica (s\<lparr>edges := map_set key (add_activity er event now) (edges s)\<rparr>) d"
    by (intro replica_silent_edge [OF inv rep Some] add_activity_sim)
  with Some show ?thesis by (simp add: booked_edge_def key_def simulates_nil)
qed

lemma activity_sim:
  assumes inv: "store_inv s" and rep: "replica s d"
  shows "simulates s d (recordActivity s event now)"
proof (cases "map_get (services s) (ra_serviceId event)")
  case None
  with rep show ?thesis by (simp add: recordActivity_def simulates_nil)
next
  case (Some r)
  let ?i = "ra_serviceId event"
  let ?t = "touched_service s event now r"
  let ?s1 = "s\<lparr>services := map_set ?i (fst ?t) (services s)\<rparr>"
  have inv1: "store_inv ?s1"
    using set_service_inv [OF inv Some] touched_service_ok services_inv_get [OF _ Some] inv
    by (simp add: store_inv_split)
  have b: "booked_edge ?s1 event now = booked_edge s event now" by (simp add: booked_edge_def)
  have "simulates s d (?s1, snd ?t)" using inv rep Some by (rule touched_service_sim)
  note this simulates_trans [OF this booked_edge_sim [OF inv1, of _ event now]]
  then show ?thesis by (simp add: recordActivity_eq [OF Some] Let_def case_prod_beta b)
qed

subsection \<open>Removing a service\<close>

lemma replay_removed_edges:
  "map fst ms = map (edge_message UPDATE_TYPE_EDGE_REMOVED) es \<Longrightarrow>
   ts_nodes (replay d ms) = ts_nodes d \<and>
   ts_edges (replay d ms) = filter (\<lambda>e. dashEdgeKey e \<notin> dashEdgeKey ` set es) (ts_edges d)"
proof (induction es arbitrary: ms d)
  case (Cons e es)
  then obtain t ms' where ms: "ms = (edge_message UPDATE_TYPE_EDGE_REMOVED e, t) # ms'"
      "map fst ms' = map (edge_message UPDATE_TYPE_EDGE_REMOVED) es"
    by (cases ms) auto
  show ?case using Cons.IH [OF ms(2)] ms(1) by (auto intro: filter_cong)
qed simp

lemma removed_updates:
  "pass_updates (remove_act i keys) es =
     map (edge_message UPDATE_TYPE_EDGE_REMOVED)
       (map (\<lambda>p. er_edge (snd p)) (filter (\<lambda>(k, er). edge_of_service i keys er) es))"
  by (induction es) (auto simp: remove_act_def messages_created)

lemma remove_entries:
  "pass_entries (remove_act i keys) es = filter (\<lambda>(k, er). \<not> edge_of_service i keys er) es"
  by (induction es) (auto simp: remove_act_def)

lemma serviceName_key: "sn_serviceName n \<in> buildServiceKeys n"
  by (simp add: buildServiceKeys_def Let_def)

lemma remove_edges_follow:
  fixes i :: string
  assumes f: "follows edge_sim dashEdgeKey es xs" and d: "distinct (map fst es)"
    and ok: "\<forall>(k, er) \<in> set es. edge_ok k er" and name: "name \<in> keys"
  defines "gone \<equiv> map (\<lambda>p. er_edge (snd p)) (filter (\<lambda>(k, er). edge_of_service i keys er) es)"
  shows "follows edge_sim dashEdgeKey (filter (\<lambda>(k, er). \<not> edge_of_service i keys er) es)
    (filter (\<lambda>e. dashEdgeKey e \<notin> dashEdgeKey ` set gone)
      (filter (\<lambda>e. se_sourceServiceId e \<noteq> i \<and> se_targetService e \<noteq> name) xs))"
proof -
  have keys_gone: "k \<in> dashEdgeKey ` set gone \<longleftrightarrow> edge_of_service i keys er" if "(k, er) \<in> set es" for k er
  proof -
    have "dashEdgeKey ` set gone = (\<lambda>p. dashEdgeKey (er_edge (snd p))) ` {p \<in> set es. edge_of_service i keys (snd p)}"
      by (auto simp: gone_def image_image)
    also have "\<dots> = fst ` {p \<in> set es. edge_of_service i keys (snd p)}"
      using ok by (intro image_cong) (auto simp: edge_ok_key)
    also have "k \<in> \<dots> \<longleftrightarrow> edge_of_service i keys er"
    proof
      assume "k \<in> fst ` {p \<in> set es. edge_of_service i keys (snd p)}"
      then obtain er' where "(k, er') \<in> set es" "edge_of_service i keys er'" by auto
      with eq_key_imp_eq_value [OF d that] show "edge_of_service i keys er" by blast
    qed (use that in force)
    finally show ?thesis .
  qed
  have "follows edge_sim dashEdgeKey (filter (\<lambda>(k, er). \<not> edge_of_service i keys er) es)
    (filter (\<lambda>e. (se_sourceServiceId e \<noteq> i \<and> se_targetService e \<noteq> name)
       \<and> dashEdgeKey e \<notin> dashEdgeKey ` set gone) xs)"
    using f
  proof (rule follows_filter)
    fix k er e
    assume h: "(k, er) \<in> set es" "dashEdgeKey e = k" "edge_sim er e"
    then show "(case (k, er) of (k, er) \<Rightarrow> \<not> edge_of_service i keys er) =
      ((se_sourceServiceId e \<noteq> i \<and> se_targetService e \<noteq> name) \<and> dashEdgeKey e \<notin> dashEdgeKey ` set gone)"
      using keys_gone [OF h(1)] edge_sim_ends [OF h(3)] name by (auto simp: edge_of_service_def)
  qed
  then show ?thesis by (simp add: conj_commute)
qed

lemma remove_sim:
  assumes inv: "store_inv s" and rep: "replica s d"
  shows "simulates s d (removeService s i UPDATE_TYPE_NODE_REMOVED)"
proof (cases "map_get (services s) i")
  case None
  with rep show ?thesis by (simp add: removeService_None simulates_nil)
next
  case (Some r)
  let ?n = "sr_node r" and ?keys = "buildServiceKeys (sr_node r)"
  let ?gone = "map (\<lambda>p. er_edge (snd p)) (filter (\<lambda>(k, er). edge_of_service i ?keys er) (edges s))"
  note parts = removeService_parts [OF Some, of UPDATE_TYPE_NODE_REMOVED]
  have id: "sn_serviceId ?n = i"
    using services_inv_get [OF _ Some] inv by (simp add: store_inv_split service_ok_def)
  show ?thesis
    unfolding simulates_def
  proof (intro allI impI)
    fix ms :: "(topology_update \<times> int) list"
    assume "map fst ms = snd (removeService s i UPDATE_TYPE_NODE_REMOVED)"
    with parts obtain t ms' where ms: "ms = (node_message UPDATE_TYPE_NODE_REMOVED ?n, t) # ms'"
        "map fst ms' = map (edge_message UPDATE_TYPE_EDGE_REMOVED) ?gone"
      by (auto simp: map_eq_Cons_conv removed_updates messages_created)
    let ?d = "removeNode (ts_nodes d) (ts_edges d) ?n t"
    note r = replay_removed_edges [OF ms(2), of ?d]
    have "follows node_sim sn_serviceId (map_delete i (services s)) (ts_nodes (replay ?d ms'))"
      unfolding delete_filter using rep r
      by (simp add: replica_def id) (rule follows_filter, auto)
    moreover have "follows edge_sim dashEdgeKey (edges (fst (removeService s i UPDATE_TYPE_NODE_REMOVED)))
        (ts_edges (replay ?d ms'))"
      using remove_edges_follow [of "edges s" "ts_edges d" "sn_serviceName ?n" ?keys i] rep inv r parts
      by (simp add: remove_entries replica_def store_inv_def serviceName_key id)
    ultimately show "replica (fst (removeService s i UPDATE_TYPE_NODE_REMOVED)) (replay d ms)"
      using ms(1) parts by (simp add: replica_def)
  qed
qed

subsection \<open>Flush and sweep of the edges\<close>

text \<open>An action announces its effect: it drops and says so, updates and says so, or is unobservable.\<close>

definition announced :: "edge_act \<Rightarrow> bool" where
  "announced act \<longleftrightarrow> (\<forall>er.
     act er = (None, [edge_message UPDATE_TYPE_EDGE_REMOVED (er_edge er)]) \<or>
     act er = (Some er, []) \<or>
     (\<exists>er'. act er = (Some er', [edge_message UPDATE_TYPE_EDGE_UPDATED (er_edge er')]) \<and>
        dashEdgeKey (er_edge er') = dashEdgeKey (er_edge er)))"

lemma put_by_middle:
  "key b = key x \<Longrightarrow> key x \<notin> key ` set pre \<Longrightarrow> key x \<notin> key ` set post \<Longrightarrow>
   put_by key b (pre @ x # post) = pre @ b # post"
  by (auto simp: put_by_def image_iff intro!: map_idI)

lemma filter_middle:
  "key x \<notin> key ` set pre \<Longrightarrow> key x \<notin> key ` set post \<Longrightarrow>
   filter (\<lambda>item. key item \<noteq> key x) (pre @ x # post) = pre @ post"
proof -
  assume h: "key x \<notin> key ` set pre" "key x \<notin> key ` set post"
  have "filter (\<lambda>item. key item \<noteq> key x) pre = pre" using h(1) by (intro filter_True) (metis image_eqI)
  moreover have "filter (\<lambda>item. key item \<noteq> key x) post = post" using h(2) by (intro filter_True) (metis image_eqI)
  ultimately show ?thesis by simp
qed

lemma pass_sim:
  assumes "announced act"
  shows "follows edge_sim dashEdgeKey m xs \<Longrightarrow> \<forall>(k, er) \<in> set m. edge_ok k er \<Longrightarrow>
    distinct (map dashEdgeKey (pre @ xs)) \<Longrightarrow> ts_edges d = pre @ xs \<Longrightarrow> map fst ms = pass_updates act m \<Longrightarrow>
    ts_nodes (replay d ms) = ts_nodes d \<and>
    (\<exists>ys. ts_edges (replay d ms) = pre @ ys \<and> follows edge_sim dashEdgeKey (pass_entries act m) ys)"
proof (induction m arbitrary: xs pre d ms)
  case (Cons p m)
  obtain k er where p: "p = (k, er)" by force
  from Cons.prems(1) p obtain e es where xs: "xs = e # es" "dashEdgeKey e = k" "edge_sim er e"
      "follows edge_sim dashEdgeKey m es"
    by (auto simp: follows_Cons)
  have key: "dashEdgeKey (er_edge er) = k" using Cons.prems(2) p by (simp add: edge_ok_key)
  have ok: "\<forall>(k, er) \<in> set m. edge_ok k er" using Cons.prems(2) by simp
  have fresh: "k \<notin> dashEdgeKey ` set pre" "k \<notin> dashEdgeKey ` set es"
    using Cons.prems(3) xs by auto
  have dist: "distinct (map dashEdgeKey ((pre @ [x]) @ es))" if "dashEdgeKey x = k" for x
    using Cons.prems(3) xs that by auto
  consider (rem) "act er = (None, [edge_message UPDATE_TYPE_EDGE_REMOVED (er_edge er)])"
    | (silent) "act er = (Some er, [])"
    | (upd) er' where "act er = (Some er', [edge_message UPDATE_TYPE_EDGE_UPDATED (er_edge er')])"
        "dashEdgeKey (er_edge er') = k"
    using assms key unfolding announced_def by metis
  then show ?case
  proof cases
    case rem
    with Cons.prems(5) p obtain t ms' where
      ms: "ms = (edge_message UPDATE_TYPE_EDGE_REMOVED (er_edge er), t) # ms'" "map fst ms' = pass_updates act m"
      by (auto simp: map_eq_Cons_conv)
    let ?d = "removeEdge (ts_nodes d) (ts_edges d) (er_edge er) t"
    have "ts_edges ?d = pre @ es"
      using filter_middle [of dashEdgeKey e pre es] fresh xs Cons.prems(4) key by simp
    moreover have "distinct (map dashEdgeKey (pre @ es))" using Cons.prems(3) xs by auto
    ultimately show ?thesis using Cons.IH [OF xs(4) ok _ _ ms(2), of pre ?d] ms(1) rem p by simp
  next
    case silent
    with Cons.prems(5) p have "map fst ms = pass_updates act m" by simp
    from Cons.IH [OF xs(4) ok dist [OF xs(2)] _ this, of d] obtain ys where
      ys: "ts_nodes (replay d ms) = ts_nodes d" "ts_edges (replay d ms) = pre @ e # ys"
        "follows edge_sim dashEdgeKey (pass_entries act m) ys"
      using Cons.prems(4) xs(1) by auto
    then have "follows edge_sim dashEdgeKey (pass_entries act (p # m)) (e # ys)"
      using silent p xs by (simp add: follows_Cons)
    with ys show ?thesis by blast
  next
    case upd
    with Cons.prems(5) p obtain t ms' where
      ms: "ms = (edge_message UPDATE_TYPE_EDGE_UPDATED (er_edge er'), t) # ms'" "map fst ms' = pass_updates act m"
      by (auto simp: map_eq_Cons_conv)
    let ?d = "upsertEdge (ts_nodes d) (ts_edges d) (er_edge er') t"
    have "ts_edges ?d = (pre @ [er_edge er']) @ es"
      using put_by_middle [of dashEdgeKey "er_edge er'" e pre es] fresh xs Cons.prems(4) upd(2) by simp
    from Cons.IH [OF xs(4) ok dist [OF upd(2)] this ms(2)] obtain ys where
      ys: "ts_nodes (replay d ms) = ts_nodes d" "ts_edges (replay d ms) = pre @ er_edge er' # ys"
        "follows edge_sim dashEdgeKey (pass_entries act m) ys"
      using ms(1) by auto
    then have "follows edge_sim dashEdgeKey (pass_entries act (p # m)) (er_edge er' # ys)"
      using upd p by (simp add: follows_Cons)
    with ys show ?thesis by blast
  qed
qed simp

lemma announced_acts: "announced (sweep_act s now known)" "announced (flush_act w now e)"
  by (auto simp: announced_def sweep_act_def flush_act_def messages_created dashEdgeKey_def)

lemma pass_edges_sim:
  assumes inv: "store_inv s" and rep: "replica s d" and ann: "announced act"
    and parts: "services s' = services s" "edges s' = pass_entries act (edges s)"
  shows "simulates s d (s', pass_updates act (edges s))"
  unfolding simulates_def
proof (intro allI impI)
  fix ms :: "(topology_update \<times> int) list"
  assume "map fst ms = snd (s', pass_updates act (edges s))"
  then have ms: "map fst ms = pass_updates act (edges s)" by simp
  have f: "follows edge_sim dashEdgeKey (edges s) (ts_edges d)" using rep by (simp add: replica_def)
  have ok: "\<forall>(k, er) \<in> set (edges s). edge_ok k er" using inv by (simp add: store_inv_def)
  have dist: "distinct (map dashEdgeKey ([] @ ts_edges d))"
    using inv follows_keys [OF f] by (simp add: store_inv_def)
  have "ts_edges d = [] @ ts_edges d" by simp
  from pass_sim [OF ann f ok dist this ms]
  show "replica (fst (s', pass_updates act (edges s))) (replay d ms)"
    using rep parts by (auto simp: replica_def)
qed

lemma flush_sim: "store_inv s \<Longrightarrow> replica s d \<Longrightarrow> simulates s d (flushActivity s now)"
  by (simp add: flushActivity_eq Let_def pass_edges_sim announced_acts)

lemma sweep_record_acc:
  "sweep_record idle r now us = (fst (sweep_record idle r now []), us @ snd (sweep_record idle r now []))"
  by (simp add: sweep_record_def Let_def queueNodeUpdate_def split: prod.splits)

lemma sweep_record_cases:
  "(snd (sweep_record idle r now []) = [] \<and> fst (sweep_record idle r now []) = r) \<or>
   snd (sweep_record idle r now []) =
     [node_message UPDATE_TYPE_NODE_UPDATED (sr_node (fst (sweep_record idle r now [])))]"
  by (auto simp: sweep_record_def Let_def queueNodeUpdate_def messages_created split: prod.splits)

lemma sweep_services_acc:
  "sweep_services s now rest us =
     (fst (sweep_services s now rest []), us @ snd (sweep_services s now rest []))"
proof (induction rest arbitrary: s us)
  case (Cons p rest)
  obtain k r where p: "p = (k, r)" by force
  show ?case
  proof (cases "heartbeat_expired r now")
    case True
    obtain s' removed where "removeService s k UPDATE_TYPE_NODE_REMOVED = (s', removed)" by force
    with True p Cons.IH [of s' "us @ removed"] Cons.IH [of s' removed] show ?thesis by simp
  next
    case False
    let ?sw = "sweep_record (idleTimeoutMs s) r now []"
    let ?s = "s\<lparr>services := map_set k (fst ?sw) (services s)\<rparr>"
    have "sweep_services s now (p # rest) vs = sweep_services ?s now rest (vs @ snd ?sw)" for vs
      using False p sweep_record_acc [of "idleTimeoutMs s" r now vs] by simp
    with Cons.IH [of ?s "us @ snd ?sw"] Cons.IH [of ?s "snd ?sw"] show ?thesis by simp
  qed
qed simp

lemma sweep_step_sim:
  fixes now :: int
  assumes inv: "store_inv s" and rep: "replica s d" and k: "map_get (services s) k = Some r"
  defines "q \<equiv> sweep_record (idleTimeoutMs s) r now []"
  shows "simulates s d (s\<lparr>services := map_set k (fst q) (services s)\<rparr>, snd q)"
proof -
  have ok: "service_ok k (fst q)"
    using sweep_record_ok services_inv_get [OF _ k] inv by (simp add: q_def store_inv_split)
  show ?thesis
    using sweep_record_cases [of "idleTimeoutMs s" r now, folded q_def]
  proof (elim disjE)
    assume "snd q = [] \<and> fst q = r"
    then show ?thesis using rep k by (simp add: simulates_nil AList.update_triv)
  next
    assume "snd q = [node_message UPDATE_TYPE_NODE_UPDATED (sr_node (fst q))]"
    then show ?thesis using replica_put_node [OF inv rep ok] by (simp add: simulates_one)
  qed
qed

lemma sweep_services_sim:
  "store_inv s \<Longrightarrow> replica s d \<Longrightarrow> \<forall>(k, r) \<in> set rest. map_get (services s) k = Some r \<Longrightarrow>
   distinct (map fst rest) \<Longrightarrow> simulates s d (sweep_services s now rest [])"
proof (induction rest arbitrary: s d)
  case Nil
  then show ?case by (simp add: simulates_nil)
next
  case (Cons p rest)
  obtain k r where p: "p = (k, r)" by force
  have k: "map_get (services s) k = Some r" using Cons.prems(3) p by simp
  have other: "k' \<noteq> k" if "(k', r') \<in> set rest" for k' r' using Cons.prems(4) p that by force
  have dist: "distinct (map fst rest)" using Cons.prems(4) by simp
  show ?case
  proof (cases "heartbeat_expired r now")
    case True
    let ?rm = "removeService s k UPDATE_TYPE_NODE_REMOVED"
    have sv: "services (fst ?rm) = map_delete k (services s)" using removeService_parts [OF k] by simp
    have sim: "simulates s d (fst ?rm, snd ?rm)" using remove_sim [OF Cons.prems(1,2)] by simp
    have "\<forall>(k', r') \<in> set rest. map_get (services (fst ?rm)) k' = Some r'"
      using Cons.prems(3) other by (auto simp: sv)
    then have "replica (fst ?rm) d1 \<Longrightarrow> simulates (fst ?rm) d1 (sweep_services (fst ?rm) now rest [])" for d1
      using Cons.IH [OF remove_inv [OF Cons.prems(1)]] dist by blast
    then have "simulates s d (fst (sweep_services (fst ?rm) now rest []),
        snd ?rm @ snd (sweep_services (fst ?rm) now rest []))"
      by (intro simulates_trans [OF sim]) simp
    then show ?thesis using True p sweep_services_acc [of "fst ?rm" now rest "snd ?rm"]
      by (simp add: case_prod_beta)
  next
    case False
    let ?q = "sweep_record (idleTimeoutMs s) r now []"
    let ?s = "s\<lparr>services := map_set k (fst ?q) (services s)\<rparr>"
    have sim: "simulates s d (?s, snd ?q)" using sweep_step_sim [OF Cons.prems(1,2) k] .
    have inv: "store_inv ?s"
      using set_service_inv [OF Cons.prems(1) k] sweep_record_ok services_inv_get [OF _ k] Cons.prems(1)
      by (simp add: store_inv_split)
    have "\<forall>(k', r') \<in> set rest. map_get (services ?s) k' = Some r'"
      using Cons.prems(3) other by (auto simp: update_conv')
    then have "replica ?s d1 \<Longrightarrow> simulates ?s d1 (sweep_services ?s now rest [])" for d1
      using Cons.IH [OF inv] dist by blast
    then have "simulates s d (fst (sweep_services ?s now rest []), snd ?q @ snd (sweep_services ?s now rest []))"
      by (intro simulates_trans [OF sim]) simp
    then show ?thesis using False p sweep_services_acc [of ?s now rest "snd ?q"]
      by (simp add: case_prod_beta)
  qed
qed

lemma sweep_sim:
  assumes inv: "store_inv s" and rep: "replica s d"
  shows "simulates s d (sweep s now)"
proof -
  let ?r = "sweep_services s now (services s) []"
  let ?act = "sweep_act (fst ?r) now (collectServiceTargets s)"
  have members: "\<forall>(k, r) \<in> set (services s). map_get (services s) k = Some r"
    using inv by (auto simp: store_inv_def map_of_Some_iff)
  have sim: "simulates s d (fst ?r, snd ?r)"
    using sweep_services_sim [OF inv rep members] inv by (simp add: store_inv_def)
  have inv1: "store_inv (fst ?r)"
    using inv by (intro sweep_services_inv) (force simp: store_inv_def map_of_eq_None_iff)+
  have "simulates (fst ?r) d1 ((fst ?r)\<lparr>edges := pass_entries ?act (edges (fst ?r))\<rparr>,
      pass_updates ?act (edges (fst ?r)))" if "replica (fst ?r) d1" for d1
    using pass_edges_sim [OF inv1 that announced_acts(1)] by simp
  from simulates_trans [OF sim this] show ?thesis
    by (simp add: sweep_def Let_def sweep_pass case_prod_beta)
qed

lemma store_step_sim: "store_inv s \<Longrightarrow> replica s d \<Longrightarrow> simulates s d (store_step s e)"
  by (cases e) (simp_all add: register_sim unregisterService_def remove_sim heartbeat_sim activity_sim
      flush_sim sweep_sim)

subsection \<open>The store as a replicated store\<close>

definition is_snapshot :: "topology_update \<Rightarrow> bool" where
  "is_snapshot u \<longleftrightarrow> tu_type u = UPDATE_TYPE_SNAPSHOT \<and> tu_snapshot u \<noteq> None"

abbreviation apply_message :: "topology_snapshot \<Rightarrow> topology_update \<times> int \<Rightarrow> topology_snapshot" where
  "apply_message \<equiv> \<lambda>d (u, now). applyUpdate d u now"

lemma message_not_snapshot [simp]:
  "\<not> is_snapshot (node_message ty n)" "\<not> is_snapshot (edge_message ty e)"
  by (simp_all add: is_snapshot_def message_defs)

lemma pass_not_snapshot:
  "announced act \<Longrightarrow> u \<in> set (pass_updates act es) \<Longrightarrow> \<not> is_snapshot u"
  by (induction es) (auto simp: announced_def, metis empty_iff list.set(1) message_not_snapshot(2)
      set_ConsD snd_conv)

lemma remove_not_snapshot: "u \<in> set (snd (removeService s i ty)) \<Longrightarrow> \<not> is_snapshot u"
  by (auto simp: removeService_def Let_def messages_created split: option.splits)

lemma sweep_services_not_snapshot:
  "u \<in> set (snd (sweep_services s now rest [])) \<Longrightarrow> \<not> is_snapshot u"
proof (induction rest arbitrary: s)
  case (Cons p rest)
  obtain k r where p: "p = (k, r)" by force
  show ?case
  proof (cases "heartbeat_expired r now")
    case True
    with Cons p sweep_services_acc [of "fst (removeService s k UPDATE_TYPE_NODE_REMOVED)" now rest
        "snd (removeService s k UPDATE_TYPE_NODE_REMOVED)"]
    show ?thesis by (auto simp: case_prod_beta dest: remove_not_snapshot)
  next
    case False
    let ?q = "sweep_record (idleTimeoutMs s) r now []"
    have "v \<in> set (snd ?q) \<Longrightarrow> \<not> is_snapshot v" for v
      using sweep_record_cases [of "idleTimeoutMs s" r now] by auto
    with False Cons p sweep_services_acc [of "s\<lparr>services := map_set k (fst ?q) (services s)\<rparr>" now rest "snd ?q"]
    show ?thesis by (auto simp: case_prod_beta)
  qed
qed simp

lemma store_step_not_snapshot: "u \<in> set (snd (store_step s e)) \<Longrightarrow> \<not> is_snapshot u"
proof (cases e)
  case (Ev_Activity event now)
  assume u: "u \<in> set (snd (store_step s e))"
  show ?thesis
  proof (cases "map_get (services s) (ra_serviceId event)")
    case None
    with u Ev_Activity show ?thesis by (simp add: recordActivity_def)
  next
    case (Some r)
    with u Ev_Activity show ?thesis
      by (auto simp: recordActivity_eq touched_service_def messages_created Let_def case_prod_beta
          split: if_splits)
  qed
next
  case (Ev_Sweep now)
  assume "u \<in> set (snd (store_step s e))"
  with Ev_Sweep show ?thesis
    by (auto simp: sweep_def Let_def sweep_pass case_prod_beta
        dest: sweep_services_not_snapshot pass_not_snapshot [OF announced_acts(1)])
next
  case (Ev_Flush now)
  assume "u \<in> set (snd (store_step s e))"
  with Ev_Flush show ?thesis
    by (auto simp: flushActivity_eq Let_def dest: pass_not_snapshot [OF announced_acts(2)])
qed (auto simp: registerService_def unregisterService_def recordHeartbeat_def queueNodeUpdate_def
    Let_def messages_created split: prod.splits option.splits if_splits dest: remove_not_snapshot)

interpretation topo: replicated_store store_step store_inv apply_message replica is_snapshot
proof unfold_locales
  fix s e d d' u and t :: int and ms :: "(topology_update \<times> int) list"
  show "store_inv s \<Longrightarrow> store_inv (fst (store_step s e))" by (rule store_step_inv)
  show "store_inv s \<Longrightarrow> replica s d \<Longrightarrow> map fst ms = snd (store_step s e) \<Longrightarrow>
    replica (fst (store_step s e)) (foldl apply_message d ms)"
    using store_step_sim [of s d e] by (simp add: simulates_def replay_def)
  show "is_snapshot u \<Longrightarrow> apply_message d (u, t) = apply_message d' (u, t)"
    by (simp add: is_snapshot_def applyUpdate_def)
  show "u \<in> set (snd (store_step s e)) \<Longrightarrow> \<not> is_snapshot u" by (rule store_step_not_snapshot)
qed

end
