(* ===== verification/Topology_Facts.thy ===== *)
theory Topology_Facts
  imports Topology_Replica
begin

text \<open>
  What the topology store promises over whole runs: how long a service stays registered, what is
  forgotten with it, that no request is lost between recording and flushing, the bounds of the
  published averages, and when a copy agrees with the store to the last field.
\<close>

lemma map_of_pass:
  "distinct (map fst es) \<Longrightarrow> map_of (pass_entries act es) k = Option.bind (map_of es k) (\<lambda>er. fst (act er))"
proof (induction es)
  case (Cons p es)
  obtain k' er where p: "p = (k', er)" by force
  have "k' \<notin> fst ` set (pass_entries act es)" using Cons.prems p pass_keys [of act es] by auto
  then have "map_of (pass_entries act es) k' = None" by (simp add: map_of_eq_None_iff)
  with Cons p show ?case by (auto split: option.splits)
qed simp

lemma services_pass [simp]:
  "services (fst (flushActivity s now)) = services s"
  by (simp add: flushActivity_def Let_def)

lemma removeService_services:
  "services (fst (removeService s i ty)) = map_delete i (services s)"
  by (cases "map_get (services s) i")
     (force simp: removeService_None removeService_parts delete_filter map_of_None_iff
        intro!: filter_True [symmetric])+

definition beaten_service :: "topology_store \<Rightarrow> heartbeat_request \<Rightarrow> int \<Rightarrow> service_record \<Rightarrow> service_record" where
  "beaten_service s request now r =
     (let (r', force) = heartbeat_record r request now
      in if force \<or> shouldEmitNodeUpdate s r' now then r'\<lparr>sr_lastNodeUpdateMs := now\<rparr> else r')"

lemma heartbeat_services:
  "map_get (services (fst (recordHeartbeat s request now))) i =
     (if i = hb_serviceId request then map_option (beaten_service s request now) (map_get (services s) i)
      else map_get (services s) i)"
  by (auto simp: beaten_service_def recordHeartbeat_def Let_def queueNodeUpdate_def update_conv' split: option.splits prod.splits)

lemma activity_services:
  "map_get (services (fst (recordActivity s event now))) i =
     (if i = ra_serviceId event
      then map_option (\<lambda>r. fst (touched_service s event now r)) (map_get (services s) i)
      else map_get (services s) i)"
proof (cases "map_get (services s) (ra_serviceId event)")
  case None
  then show ?thesis by (simp add: recordActivity_def)
next
  case (Some r)
  then show ?thesis by (simp add: recordActivity_eq Let_def case_prod_beta update_conv')
qed

lemma sweep_services_get:
  "distinct (map fst rest) \<Longrightarrow> \<forall>(k, r) \<in> set rest. map_get (services s) k = Some r \<Longrightarrow>
   map_get (services (fst (sweep_services s now rest us))) i =
     (case map_of rest i of
        None \<Rightarrow> map_get (services s) i
      | Some r \<Rightarrow> if heartbeat_expired r now then None
                  else Some (fst (sweep_record (idleTimeoutMs s) r now [])))"
proof (induction rest arbitrary: s us)
  case (Cons p rest)
  obtain k r where p: "p = (k, r)" by force
  have fresh: "\<forall>(k', r') \<in> set rest. k' \<noteq> k" using Cons.prems(1) p by force
  show ?case
  proof (cases "heartbeat_expired r now")
    case True
    let ?s = "fst (removeService s k UPDATE_TYPE_NODE_REMOVED)"
    have get: "map_get (services ?s) j = (if j = k then None else map_get (services s) j)" for j
      by (simp add: removeService_services delete_conv')
    have "\<forall>(k', r') \<in> set rest. map_get (services ?s) k' = Some r'"
      using Cons.prems(2) fresh p get by auto
    with True Cons p fresh get show ?thesis
      by (cases "map_of rest i") (auto simp: case_prod_beta removeService_config dest: map_of_SomeD)
  next
    case False
    let ?r = "fst (sweep_record (idleTimeoutMs s) r now us)"
    let ?s = "s\<lparr>services := map_set k ?r (services s)\<rparr>"
    have r: "?r = fst (sweep_record (idleTimeoutMs s) r now [])"
      by (subst sweep_record_acc) simp
    have "\<forall>(k', r') \<in> set rest. map_get (services ?s) k' = Some r'"
      using Cons.prems(2) fresh p by (auto simp: update_conv')
    with False Cons p fresh show ?thesis
      by (cases "map_of rest i") (auto simp: case_prod_beta update_conv' r dest: map_of_SomeD)
  qed
qed simp

lemma sweep_get:
  assumes "store_inv s"
  shows "map_get (services (fst (sweep s now))) i =
     (case map_get (services s) i of
        None \<Rightarrow> None
      | Some r \<Rightarrow> if heartbeat_expired r now then None
                  else Some (fst (sweep_record (idleTimeoutMs s) r now [])))"
proof -
  have "distinct (map fst (services s))" using assms by (simp add: store_inv_def)
  then show ?thesis
    using sweep_services_get [of "services s" s now "[]" i]
    by (auto simp: sweep_def Let_def case_prod_beta split: option.splits)
qed

subsection \<open>How long a service stays registered\<close>

text \<open>
  The timeout of a service counts from its registration or its last heartbeat; only a sweep
  looks at it, and only an unregistration ends the service earlier.
\<close>

fun registers :: "store_event \<Rightarrow> string option" where
  "registers (Ev_Register request serviceId now) = Some serviceId"
| "registers e = None"

fun keeps_beating :: "string \<Rightarrow> int \<Rightarrow> int \<Rightarrow> store_event list \<Rightarrow> bool" where
  "keeps_beating i timeout t [] = True"
| "keeps_beating i timeout t (Ev_Heartbeat request now # es) =
     keeps_beating i timeout (if hb_serviceId request = i then now else t) es"
| "keeps_beating i timeout t (Ev_Sweep now # es) =
     (now - t \<le> timeout \<and> keeps_beating i timeout t es)"
| "keeps_beating i timeout t (Ev_Unregister j # es) = (j \<noteq> i \<and> keeps_beating i timeout t es)"
| "keeps_beating i timeout t (_ # es) = keeps_beating i timeout t es"

definition beat_data :: "service_record \<Rightarrow> int \<times> int" where
  "beat_data r = (sr_heartbeatIntervalMs r * sr_timeoutMultiplier r, sr_lastHeartbeatMs r)"

lemma beat_data_simps [simp]:
  "beat_data (fst (sweep_record idle r now us)) = beat_data r"
  "beat_data (fst (touched_service s event now r)) = beat_data r"
  "beat_data (beaten_service s request now r) = (fst (beat_data r), now)"
  by (auto simp: beaten_service_def beat_data_def sweep_record_def queueNodeUpdate_def touched_service_def
      activity_record_def heartbeat_record_def Let_def split: prod.splits option.splits)

lemma expired_beat: "heartbeat_expired r now \<longleftrightarrow> now - snd (beat_data r) > fst (beat_data r)"
  by (simp add: heartbeat_expired_def beat_data_def)

lemma absent_step:
  "store_inv s \<Longrightarrow> map_get (services s) i = None \<Longrightarrow> registers e \<noteq> Some i \<Longrightarrow>
   map_get (services (fst (store_step s e))) i = None"
  by (cases e) (auto simp: registerService_def Let_def update_conv' unregisterService_def
      removeService_services delete_conv' heartbeat_services activity_services sweep_get)

lemma absent_run:
  "store_inv s \<Longrightarrow> map_get (services s) i = None \<Longrightarrow> \<forall>e \<in> set es. registers e \<noteq> Some i \<Longrightarrow>
   map_get (services (fst (run_updates store_step s es))) i = None"
  by (induction es arbitrary: s) (simp_all add: absent_step store_step_inv Let_def case_prod_beta)

lemma present_step:
  assumes "store_inv s" "map_get (services s) i = Some r" "registers e \<noteq> Some i"
    "keeps_beating i (fst (beat_data r)) (snd (beat_data r)) (e # es)"
  shows "\<exists>r'. map_get (services (fst (store_step s e))) i = Some r' \<and> fst (beat_data r') = fst (beat_data r)
    \<and> keeps_beating i (fst (beat_data r)) (snd (beat_data r')) es"
  using assms
  by (cases e) (auto simp: registerService_def Let_def update_conv' unregisterService_def
      removeService_services delete_conv' heartbeat_services activity_services sweep_get expired_beat)

lemma ended_step:
  assumes "store_inv s" "map_get (services s) i = Some r" "registers e \<noteq> Some i"
    "\<not> keeps_beating i (fst (beat_data r)) (snd (beat_data r)) (e # es)"
  shows "map_get (services (fst (store_step s e))) i = None \<or>
    (\<exists>r'. map_get (services (fst (store_step s e))) i = Some r' \<and> fst (beat_data r') = fst (beat_data r)
    \<and> \<not> keeps_beating i (fst (beat_data r)) (snd (beat_data r')) es)"
  using assms
  by (cases e) (auto simp: registerService_def Let_def update_conv' unregisterService_def
      removeService_services delete_conv' heartbeat_services activity_services sweep_get expired_beat)

lemma run_beating:
  "store_inv s \<Longrightarrow> map_get (services s) i = Some r \<Longrightarrow> \<forall>e \<in> set es. registers e \<noteq> Some i \<Longrightarrow>
   map_get (services (fst (run_updates store_step s es))) i \<noteq> None \<longleftrightarrow>
   keeps_beating i (fst (beat_data r)) (snd (beat_data r)) es"
proof (induction es arbitrary: s r)
  case (Cons e es)
  let ?s = "fst (store_step s e)"
  have inv: "store_inv ?s" and rest: "\<forall>e \<in> set es. registers e \<noteq> Some i" and e: "registers e \<noteq> Some i"
    using Cons.prems by (auto intro: store_step_inv)
  have run: "fst (run_updates store_step s (e # es)) = fst (run_updates store_step ?s es)"
    by (simp add: Let_def case_prod_beta)
  show ?case
  proof (cases "keeps_beating i (fst (beat_data r)) (snd (beat_data r)) (e # es)")
    case True
    from present_step [OF Cons.prems(1,2) e True] Cons.IH [OF inv _ rest] True show ?thesis
      unfolding run by metis
  next
    case False
    from ended_step [OF Cons.prems(1,2) e False] Cons.IH [OF inv _ rest] absent_run [OF inv _ rest] False
    show ?thesis unfolding run by metis
  qed
qed simp

subsection \<open>The options never change\<close>

definition same_options :: "topology_store \<Rightarrow> topology_store \<Rightarrow> bool" where
  "same_options s s' \<longleftrightarrow>
     heartbeatIntervalMs s' = heartbeatIntervalMs s \<and> timeoutMultiplier s' = timeoutMultiplier s \<and>
     idleTimeoutMs s' = idleTimeoutMs s \<and> unknownEdgeTimeoutMs s' = unknownEdgeTimeoutMs s \<and>
     rpsWindowMs s' = rpsWindowMs s \<and> activityFlushMs s' = activityFlushMs s \<and>
     nodeUpdateThrottleMs s' = nodeUpdateThrottleMs s"

lemma same_options_remove: "same_options s (fst (removeService s i ty))"
  by (simp add: same_options_def removeService_def Let_def split: option.splits)

lemma same_options_trans: "same_options s t \<Longrightarrow> same_options t u \<Longrightarrow> same_options s u"
  by (simp add: same_options_def)

lemma same_options_sweep: "same_options s (fst (sweep_services s now rest us))"
proof (induction rest arbitrary: s us)
  case (Cons p rest)
  obtain k r where p: "p = (k, r)" by force
  show ?case
  proof (cases "heartbeat_expired r now")
    case True
    with p same_options_trans [OF same_options_remove Cons.IH] show ?thesis
      by (simp add: case_prod_beta)
  next
    case False
    have "same_options s (s\<lparr>services := m\<rparr>)" for m by (simp add: same_options_def)
    with False p same_options_trans [OF _ Cons.IH] show ?thesis by (simp add: case_prod_beta)
  qed
qed (simp add: same_options_def)

interpretation options: reactive_rel "\<lambda>s e. fst (store_step s e)" same_options
proof unfold_locales
  fix s t u e
  show "same_options s s" by (simp add: same_options_def)
  show "same_options s t \<Longrightarrow> same_options t u \<Longrightarrow> same_options s u" by (rule same_options_trans)
  show "same_options s (fst (store_step s e))"
  proof (cases e)
    case (Ev_Sweep now)
    have "same_options s' (s'\<lparr>edges := m\<rparr>)" for s' m by (simp add: same_options_def)
    then have "same_options s ((fst (sweep_services s now us []))\<lparr>edges := m\<rparr>)" for us m
      using same_options_trans [OF same_options_sweep] by blast
    with Ev_Sweep show ?thesis by (simp add: sweep_def Let_def case_prod_beta)
  next
    case (Ev_Unregister i)
    then show ?thesis by (simp add: unregisterService_def same_options_remove)
  qed (auto simp: same_options_def registerService_def recordHeartbeat_def recordActivity_def
      flushActivity_def Let_def split: prod.splits option.splits)
qed

lemma run_options: "same_options s (fst (run_updates store_step s es))"
  unfolding run_updates_foldl by (rule options.rel_run)

lemma run_store_inv: "store_inv (fst (run_updates store_step (new_store options t) es))"
  by (rule topo.run_inv [OF new_store_inv])

subsection \<open>Requests are counted once\<close>

definition edge_load :: "topology_store \<Rightarrow> string \<Rightarrow> int" where
  "edge_load s key = (case map_get (edges s) key of None \<Rightarrow> 0 | Some er \<Rightarrow> er_totalCount er + er_pendingCount er)"

text \<open>What the activities of a run add to one edge: those of registered services that name it.\<close>

fun counted :: "string \<Rightarrow> string set \<Rightarrow> store_event list \<Rightarrow> int" where
  "counted key ids [] = 0"
| "counted key ids (Ev_Activity event now # es) =
     (if ra_serviceId event \<in> ids \<and> edgeKey (ra_serviceId event) (ra_targetService event) = key
      then activity_batchSize event else 0) + counted key ids es"
| "counted key ids (Ev_Register request serviceId now # es) = counted key (insert serviceId ids) es"
| "counted key ids (_ # es) = counted key ids es"

fun keeps_edges :: "store_event \<Rightarrow> bool" where
  "keeps_edges (Ev_Unregister serviceId) = False"
| "keeps_edges (Ev_Sweep now) = False"
| "keeps_edges e = True"

lemma flush_load: "store_inv s \<Longrightarrow> edge_load (fst (flushActivity s now)) key = edge_load s key"
  by (auto simp: edge_load_def flushActivity_eq Let_def map_of_pass store_inv_def flush_act_def flush_edge_def
      split: option.splits bind_split)

lemma activity_load:
  "edge_load (fst (recordActivity s event now)) key =
     edge_load s key +
     (if map_get (services s) (ra_serviceId event) \<noteq> None
         \<and> edgeKey (ra_serviceId event) (ra_targetService event) = key
      then activity_batchSize event else 0)"
proof (cases "map_get (services s) (ra_serviceId event)")
  case None
  then show ?thesis by (simp add: recordActivity_def)
next
  case (Some r)
  then show ?thesis
    by (auto simp: recordActivity_eq Let_def case_prod_beta edge_load_def update_conv' booked_edge_def
        add_activity_def created_edge_def split: option.splits)
qed

lemma load_step:
  "store_inv s \<Longrightarrow> keeps_edges e \<Longrightarrow>
   edge_load (fst (store_step s e)) key + counted key (dom (map_of (services (fst (store_step s e))))) es =
   edge_load s key + counted key (dom (map_of (services s))) (e # es)"
proof (cases e)
  case (Ev_Activity event now)
  have "dom (map_of (services (fst (recordActivity s event now)))) = dom (map_of (services s))"
    by (auto simp: activity_services split: if_splits)
  with Ev_Activity show ?thesis by (auto simp: activity_load)
next
  case (Ev_Heartbeat request now)
  have "dom (map_of (services (fst (recordHeartbeat s request now)))) = dom (map_of (services s))"
    by (auto simp: heartbeat_services split: if_splits)
  moreover have "edge_load (fst (recordHeartbeat s request now)) key = edge_load s key"
    by (simp add: edge_load_def recordHeartbeat_def case_prod_beta Let_def split: option.splits)
  ultimately show ?thesis using Ev_Heartbeat by simp
next
  case (Ev_Register request i now)
  then show ?thesis by (simp add: registerService_def Let_def edge_load_def update_conv')
qed (simp_all add: flush_load)

lemma run_load:
  "store_inv s \<Longrightarrow> \<forall>e \<in> set es. keeps_edges e \<Longrightarrow>
   edge_load (fst (run_updates store_step s es)) key =
   edge_load s key + counted key (dom (map_of (services s))) es"
proof (induction es arbitrary: s)
  case (Cons e es)
  then show ?case
    using load_step [of s e key es] by (simp add: Let_def case_prod_beta store_step_inv del: counted.simps)
qed simp

lemma flushed_edges:
  assumes "store_inv s" "map_get (edges (fst (flushActivity s now))) key = Some er"
  shows "er_pendingCount er = 0 \<and> se_totalRequests (er_edge er) = string_of_int (edge_load s key)"
proof -
  have inv: "store_inv (fst (flushActivity s now))" using assms(1) by (rule flush_inv)
  then have "edge_ok key er" using assms(2) by (auto simp: store_inv_def dest: map_of_SomeD)
  moreover have "er_pendingCount er = 0"
    using assms by (auto simp: flushActivity_eq Let_def map_of_pass store_inv_def flush_act_def flush_edge_def
        split: bind_splits if_splits)
  moreover have "edge_load (fst (flushActivity s now)) key = edge_load s key"
    using assms(1) by (rule flush_load)
  ultimately show ?thesis using assms(2) by (simp add: edge_load_def edge_ok_def edge_names_ok_def)
qed

subsection \<open>Where an edge comes from\<close>

text \<open>Every edge after a step is an edge of before, booked on, flushed, set idle or untouched.\<close>

inductive edge_from :: "topology_store \<Rightarrow> store_event \<Rightarrow> edge_record \<Rightarrow> bool" for s where
  untouched: "(k, er) \<in> set (edges s) \<Longrightarrow> edge_from s e er"
| idled: "(k, er) \<in> set (edges s) \<Longrightarrow>
    edge_from s (Ev_Sweep now) (er\<lparr>er_edge := (er_edge er)\<lparr>se_state := CONNECTION_STATE_IDLE\<rparr>\<rparr>)"
| flushed: "(k, er) \<in> set (edges s) \<Longrightarrow> er_pendingCount er \<noteq> 0 \<Longrightarrow> edge_from s (Ev_Flush now) (flush_edge w er now t)"
| booked: "(k, er) \<in> set (edges s) \<Longrightarrow> edge_from s (Ev_Activity event now) (add_activity er event now)"
| created: "edge_from s (Ev_Activity event now) (add_activity (created_edge event now) event now)"

lemma sweep_services_edges: "set (edges (fst (sweep_services s now rest us))) \<subseteq> set (edges s)"
proof (induction rest arbitrary: s us)
  case (Cons p rest)
  obtain k r where p: "p = (k, r)" by force
  show ?case
  proof (cases "heartbeat_expired r now")
    case True
    have "set (edges (fst (removeService s k UPDATE_TYPE_NODE_REMOVED))) \<subseteq> set (edges s)"
      by (auto simp: removeService_def Let_def split: option.splits)
    with True p Cons.IH show ?thesis by (simp add: case_prod_beta) blast
  next
    case False
    let ?s = "s\<lparr>services := map_set k (fst (sweep_record (idleTimeoutMs s) r now us)) (services s)\<rparr>"
    have "edges ?s = edges s" by simp
    with False p Cons.IH [of ?s] show ?thesis by (simp add: case_prod_beta)
  qed
qed simp

lemma edge_from_step: "(k, er) \<in> set (edges (fst (store_step s e))) \<Longrightarrow> store_inv s \<Longrightarrow> edge_from s e er"
proof (cases e)
  case (Ev_Activity event now)
  assume er: "(k, er) \<in> set (edges (fst (store_step s e)))" and inv: "store_inv s"
  show ?thesis
  proof (cases "map_get (services s) (ra_serviceId event)")
    case None
    with er Ev_Activity show ?thesis by (simp add: recordActivity_def untouched)
  next
    case (Some r)
    have d: "distinct (map fst (edges s))" using inv by (simp add: store_inv_def)
    have "er = add_activity (booked_edge s event now) event now \<or> (k, er) \<in> set (edges s)"
      using er Ev_Activity Some d
      by (auto simp: recordActivity_eq Let_def case_prod_beta set_update_distinct)
    then show ?thesis
      using Ev_Activity
      by (cases "map_get (edges s) (edgeKey (ra_serviceId event) (ra_targetService event))")
         (auto simp: booked_edge_def intro: edge_from.intros dest: map_of_SomeD)
  qed
next
  case (Ev_Sweep now)
  assume "(k, er) \<in> set (edges (fst (store_step s e)))"
  with Ev_Sweep obtain er0 known s1 where er0: "(k, er0) \<in> set (edges s1)" "s1 = fst (sweep_services s now (services s) [])"
      "fst (sweep_act s1 now known er0) = Some er"
    by (auto simp: sweep_def Let_def case_prod_beta sweep_pass dest!: pass_entry_source)
  then have "(k, er0) \<in> set (edges s)" using sweep_services_edges [of s now "services s" "[]"] by auto
  with er0(3) Ev_Sweep show ?thesis
    by (auto simp: sweep_act_def split: if_splits intro: edge_from.intros)
next
  case (Ev_Flush now)
  assume "(k, er) \<in> set (edges (fst (store_step s e)))"
  with Ev_Flush show ?thesis
    by (auto simp: flushActivity_eq Let_def flush_act_def split: if_splits
        dest!: pass_entry_source intro: edge_from.intros)
qed (auto simp: registerService_def unregisterService_def removeService_def recordHeartbeat_def Let_def
    case_prod_beta intro: untouched split: option.splits)

subsection \<open>The published average\<close>

lemma merged_latency_bounds:
  assumes lo: "0 \<le> lo" "lo \<le> hi" and c: "0 \<le> er_totalCount er" "0 < er_pendingCount er"
    and avg: "0 < er_totalCount er \<Longrightarrow> of_int lo \<le> er_avgLatencyMs er \<and> er_avgLatencyMs er \<le> of_int hi"
    and pend: "lo * er_pendingCount er \<le> er_pendingLatencyTotal er"
      "er_pendingLatencyTotal er \<le> hi * er_pendingCount er"
    and exact: "hi * (er_totalCount er + er_pendingCount er) \<le> 2 ^ 53"
  shows "of_int lo \<le> merged_latency er \<and> merged_latency er \<le> of_int hi"
proof -
  let ?t = "er_totalCount er" and ?p = "er_pendingCount er"
  let ?prev = "fl (er_avgLatencyMs er * of_int (max 0 ?t))"
  let ?sum = "fl (?prev + of_int (er_pendingLatencyTotal er))"
  have small: "0 \<le> x * c" "x * c \<le> 2 ^ 53" if "x = lo \<or> x = hi" "0 \<le> c" "c \<le> ?t + ?p" for x c
  proof -
    show "0 \<le> x * c" using that lo by auto
    have "x * c \<le> hi * (?t + ?p)" using that lo by (intro mult_mono) auto
    with exact show "x * c \<le> 2 ^ 53" by simp
  qed
  have t: "(of_int lo :: rat) * of_int ?t \<le> er_avgLatencyMs er * of_int ?t"
    "er_avgLatencyMs er * of_int ?t \<le> of_int hi * of_int ?t"
    using avg c by (cases "?t = 0"; simp add: mult_right_mono)+
  have "of_int (lo * ?t) \<le> ?prev"
    using t c small [of lo ?t] by (intro fl_ge_int) simp_all
  moreover have "?prev \<le> of_int (hi * ?t)"
    using t c small [of hi ?t] by (intro fl_le_int) simp_all
  moreover have "(of_int (lo * ?p) :: rat) \<le> of_int (er_pendingLatencyTotal er)"
    "(of_int (er_pendingLatencyTotal er) :: rat) \<le> of_int (hi * ?p)"
    using pend by (simp_all only: of_int_le_iff)
  ultimately have s: "of_int (lo * (?t + ?p)) \<le> ?prev + of_int (er_pendingLatencyTotal er)"
    "?prev + of_int (er_pendingLatencyTotal er) \<le> of_int (hi * (?t + ?p))"
    by (simp_all add: distrib_left)
  have "of_int (lo * (?t + ?p)) \<le> ?sum"
    using s(1) c small [of lo "?t + ?p"] by (intro fl_ge_int) simp_all
  moreover have "?sum \<le> of_int (hi * (?t + ?p))"
    using s(2) c small [of hi "?t + ?p"] by (intro fl_le_int) simp_all
  ultimately have "of_int lo \<le> ?sum / of_int (?t + ?p)" "?sum / of_int (?t + ?p) \<le> of_int hi"
    using c by (simp_all add: field_simps)
  then have "of_int lo \<le> fl (?sum / of_int (?t + ?p))" "fl (?sum / of_int (?t + ?p)) \<le> of_int hi"
    using c lo small [of lo 1] small [of hi 1] by (auto intro!: fl_ge_int fl_le_int)
  moreover have "merged_latency er = fl (?sum / of_int (?t + ?p))"
    using c by (simp add: merged_latency_def Let_def)
  ultimately show ?thesis by simp
qed

fun latency_within :: "int \<Rightarrow> int \<Rightarrow> store_event \<Rightarrow> bool" where
  "latency_within lo hi (Ev_Activity event now) =
     (lo \<le> nullish (ra_latencyMs event) 0 \<and> nullish (ra_latencyMs event) 0 \<le> hi)"
| "latency_within lo hi e = True"

fun requests_of :: "store_event \<Rightarrow> int" where
  "requests_of (Ev_Activity event now) = activity_batchSize event"
| "requests_of e = 0"

text \<open>An edge with at most \<open>n\<close> requests, whose latencies are between \<open>lo\<close> and \<open>hi\<close>.\<close>

definition latency_ok :: "int \<Rightarrow> int \<Rightarrow> int \<Rightarrow> edge_record \<Rightarrow> bool" where
  "latency_ok lo hi n er \<longleftrightarrow>
     0 \<le> er_totalCount er \<and> 0 \<le> er_pendingCount er \<and> er_totalCount er + er_pendingCount er \<le> n \<and>
     lo * er_pendingCount er \<le> er_pendingLatencyTotal er \<and>
     er_pendingLatencyTotal er \<le> hi * er_pendingCount er \<and>
     (0 < er_totalCount er \<longrightarrow> of_int lo \<le> er_avgLatencyMs er \<and> er_avgLatencyMs er \<le> of_int hi)"

lemma requests_nonneg: "0 \<le> requests_of e"
  using batchSize_pos by (cases e) (auto simp: order_trans [OF zero_le_one])

lemma latency_add:
  assumes "latency_ok lo hi n er" "latency_within lo hi (Ev_Activity event now)"
  shows "latency_ok lo hi (n + activity_batchSize event) (add_activity er event now)"
proof -
  have "0 \<le> activity_batchSize event" using batchSize_pos [of event] by simp
  then have "lo * activity_batchSize event \<le> nullish (ra_latencyMs event) 0 * activity_batchSize event"
    "nullish (ra_latencyMs event) 0 * activity_batchSize event \<le> hi * activity_batchSize event"
    using assms(2) by (simp_all add: mult_right_mono)
  with \<open>0 \<le> activity_batchSize event\<close> assms(1) show ?thesis
    by (simp add: latency_ok_def add_activity_def Let_def distrib_left)
qed

lemma latency_flush:
  assumes "latency_ok lo hi n er" "0 \<le> lo" "lo \<le> hi" "hi * n \<le> 2 ^ 53"
    and pending: "er_pendingCount er \<noteq> 0"
  shows "latency_ok lo hi n (flush_edge w er now t)"
proof -
  have f: "er_totalCount (flush_edge w er now t) = er_totalCount er + er_pendingCount er"
    "er_pendingCount (flush_edge w er now t) = 0" "er_pendingLatencyTotal (flush_edge w er now t) = 0"
    "er_avgLatencyMs (flush_edge w er now t) = merged_latency er"
    by (simp_all add: flush_edge_def Let_def)
  have small: "hi * c \<le> 2 ^ 53" if "c \<le> n" for c
    using assms that mult_left_mono [of c n hi] by linarith
  have p: "0 < er_pendingCount er" using assms(1) pending by (simp add: latency_ok_def)
  then have "of_int lo \<le> merged_latency er \<and> merged_latency er \<le> of_int hi"
    using assms small by (intro merged_latency_bounds) (simp_all add: latency_ok_def)
  with assms(1) p show ?thesis unfolding latency_ok_def f by auto
qed

lemma latency_from:
  assumes "edge_from s e er" "\<forall>(k, er) \<in> set (edges s). latency_ok lo hi n er"
    "latency_within lo hi e" "0 \<le> lo" "lo \<le> hi" "0 \<le> n" "hi * (n + requests_of e) \<le> 2 ^ 53"
  shows "latency_ok lo hi (n + requests_of e) er"
  using assms(1)
proof (cases rule: edge_from.cases)
  case (untouched k)
  then show ?thesis using assms(2) requests_nonneg [of e] by (auto simp: latency_ok_def)
next
  case (idled k er0 now)
  then show ?thesis using assms(2) by (auto simp: latency_ok_def)
next
  case (flushed k er0 now w t)
  then show ?thesis using assms latency_flush by auto
next
  case (booked k er0 event now)
  then show ?thesis using assms latency_add by auto
next
  case (created event now)
  have "latency_ok lo hi n (created_edge event now)"
    using assms(6) by (simp add: latency_ok_def created_edge_def)
  with created assms(3) latency_add show ?thesis by auto
qed

lemma latency_run:
  "store_inv s \<Longrightarrow> \<forall>(k, er) \<in> set (edges s). latency_ok lo hi n er \<Longrightarrow> 0 \<le> n \<Longrightarrow> 0 \<le> lo \<Longrightarrow> lo \<le> hi \<Longrightarrow>
   \<forall>e \<in> set es. latency_within lo hi e \<Longrightarrow> hi * (n + sum_list (map requests_of es)) \<le> 2 ^ 53 \<Longrightarrow>
   \<forall>(k, er) \<in> set (edges (fst (run_updates store_step s es))).
     latency_ok lo hi (n + sum_list (map requests_of es)) er"
proof (induction es arbitrary: s n)
  case (Cons e es)
  let ?s = "fst (store_step s e)" and ?n = "n + requests_of e"
  have rest: "0 \<le> sum_list (map requests_of es)"
    by (rule sum_list_nonneg) (auto simp: requests_nonneg)
  have "hi * ?n \<le> hi * (n + sum_list (map requests_of (e # es)))"
    using rest Cons.prems(4,5) by (intro mult_left_mono) auto
  then have exact: "hi * ?n \<le> 2 ^ 53" using Cons.prems(7) by linarith
  have "latency_ok lo hi ?n er" if "(k, er) \<in> set (edges ?s)" for k er
    using Cons.prems exact by (intro latency_from [OF edge_from_step [OF that]]) simp_all
  then have ok: "\<forall>(k, er) \<in> set (edges ?s). latency_ok lo hi ?n er" by blast
  have "\<forall>(k, er) \<in> set (edges (fst (run_updates store_step ?s es))).
      latency_ok lo hi (?n + sum_list (map requests_of es)) er"
    using Cons.prems requests_nonneg [of e] ok store_step_inv
    by (intro Cons.IH) (simp_all add: add.assoc)
  then show ?case by (simp add: Let_def case_prod_beta add.assoc)
qed simp

subsection \<open>The stale state\<close>

definition never_stale :: "topology_store \<Rightarrow> service_record \<Rightarrow> bool" where
  "never_stale s r \<longleftrightarrow> sn_state (sr_node r) \<noteq> SERVICE_STATE_STALE \<and>
     sr_heartbeatIntervalMs r = heartbeatIntervalMs s \<and> sr_timeoutMultiplier r = timeoutMultiplier s"

lemma never_stale_touched: "never_stale s r \<Longrightarrow> never_stale s (fst (touched_service s' event now r))"
  by (auto simp: never_stale_def touched_service_def activity_record_def queueNodeUpdate_def Let_def)

lemma never_stale_beaten: "never_stale s r \<Longrightarrow> never_stale s (beaten_service s' request now r)"
  by (auto simp: never_stale_def beaten_service_def heartbeat_record_def Let_def split: option.splits prod.splits)

lemma never_stale_swept:
  assumes "never_stale s r" "0 \<le> heartbeatIntervalMs s" "timeoutMultiplier s \<le> 2" "\<not> heartbeat_expired r now"
  shows "never_stale s (fst (sweep_record idle r now us))"
proof -
  have "heartbeatIntervalMs s * timeoutMultiplier s \<le> heartbeatIntervalMs s * 2"
    using assms(2,3) by (intro mult_left_mono)
  then have "\<not> now - sr_lastHeartbeatMs r > sr_heartbeatIntervalMs r * 2"
    using assms by (simp add: never_stale_def heartbeat_expired_def)
  with assms(1) show ?thesis
    by (auto simp: never_stale_def sweep_record_def queueNodeUpdate_def Let_def)
qed

lemma never_stale_step:
  assumes "store_inv s" "0 \<le> heartbeatIntervalMs s" "timeoutMultiplier s \<le> 2"
    "\<And>k r. map_get (services s) k = Some r \<Longrightarrow> never_stale s r"
    "map_get (services (fst (store_step s e))) k = Some r"
  shows "never_stale s r"
proof (cases e)
  case (Ev_Register request i now)
  then show ?thesis
    using assms(4) assms(5)
    by (auto simp: registerService_def Let_def update_conv' never_stale_def registered_node_def
        split: if_splits)
next
  case (Ev_Sweep now)
  then show ?thesis
    using assms by (auto simp: sweep_get never_stale_swept split: option.splits if_splits)
qed (use assms(4,5) in \<open>auto simp: unregisterService_def removeService_services delete_conv'
      heartbeat_services activity_services never_stale_touched never_stale_beaten split: if_splits\<close>)

lemma never_stale_run:
  "store_inv s \<Longrightarrow> 0 \<le> heartbeatIntervalMs s \<Longrightarrow> timeoutMultiplier s \<le> 2 \<Longrightarrow>
   (\<And>k r. map_get (services s) k = Some r \<Longrightarrow> never_stale s r) \<Longrightarrow>
   map_get (services (fst (run_updates store_step s es))) k = Some r \<Longrightarrow> never_stale s r"
proof (induction es arbitrary: s)
  case (Cons e es)
  let ?s = "fst (store_step s e)"
  have same: "same_options s ?s" by (rule options.rel_step)
  then have eq: "never_stale ?s r' = never_stale s r'" for r'
    by (simp add: never_stale_def same_options_def)
  have "never_stale ?s r"
  proof (rule Cons.IH)
    show "store_inv ?s" using Cons.prems(1) by (rule store_step_inv)
    show "0 \<le> heartbeatIntervalMs ?s" "timeoutMultiplier ?s \<le> 2"
      using Cons.prems(2,3) same by (simp_all add: same_options_def)
    show "never_stale ?s r'" if "map_get (services ?s) k' = Some r'" for k' r'
      unfolding eq using Cons.prems(1-4) that by (rule never_stale_step)
    show "map_get (services (fst (run_updates store_step ?s es))) k = Some r"
      using Cons.prems(5) by (simp add: Let_def case_prod_beta)
  qed
  then show ?case unfolding eq .
qed simp

subsection \<open>What a sweep does to the edges\<close>

definition lost_with_service :: "topology_store \<Rightarrow> int \<Rightarrow> edge_record \<Rightarrow> bool" where
  "lost_with_service s now er \<longleftrightarrow>
     (\<exists>(i, r) \<in> set (services s). heartbeat_expired r now \<and> edge_of_service i (buildServiceKeys (sr_node r)) er)"

lemma sweep_services_edges_eq:
  "distinct (map fst rest) \<Longrightarrow> \<forall>(k, r) \<in> set rest. map_get (services s) k = Some r \<Longrightarrow>
   edges (fst (sweep_services s now rest us)) =
     filter (\<lambda>(k, er). \<not> (\<exists>(i, r) \<in> set rest. heartbeat_expired r now
                             \<and> edge_of_service i (buildServiceKeys (sr_node r)) er)) (edges s)"
proof (induction rest arbitrary: s us)
  case (Cons p rest)
  obtain k r where p: "p = (k, r)" by force
  have fresh: "\<forall>(k', r') \<in> set rest. k' \<noteq> k" using Cons.prems(1) p by force
  show ?case
  proof (cases "heartbeat_expired r now")
    case True
    let ?s = "fst (removeService s k UPDATE_TYPE_NODE_REMOVED)"
    have r: "map_get (services s) k = Some r" using Cons.prems(2) p by simp
    have "\<forall>(k', r') \<in> set rest. map_get (services ?s) k' = Some r'"
      using Cons.prems(2) fresh p by (auto simp: removeService_services delete_conv')
    moreover have "edges ?s = filter (\<lambda>(k', er). \<not> edge_of_service k (buildServiceKeys (sr_node r)) er) (edges s)"
      using r by (auto simp: removeService_def Let_def intro!: filter_cong)
    ultimately show ?thesis
      using True p Cons.prems(1) Cons.IH [of ?s] by (auto simp: case_prod_beta intro!: filter_cong)
  next
    case False
    let ?s = "s\<lparr>services := map_set k (fst (sweep_record (idleTimeoutMs s) r now us)) (services s)\<rparr>"
    have "\<forall>(k', r') \<in> set rest. map_get (services ?s) k' = Some r'"
      using Cons.prems(2) fresh p by (auto simp: update_conv')
    then show ?thesis
      using False p Cons.prems(1) Cons.IH [of ?s] by (simp add: case_prod_beta)
  qed
qed (simp add: case_prod_beta)

lemma map_of_filter_values:
  "distinct (map fst m) \<Longrightarrow>
   map_of (filter (\<lambda>(k, v). P v) m) k = (case map_of m k of None \<Rightarrow> None | Some v \<Rightarrow> if P v then Some v else None)"
  by (induction m) (force simp: map_of_eq_None_iff split: option.splits)+

lemma sweep_edges_get:
  assumes "store_inv s"
  shows "map_get (edges (fst (sweep s now))) key =
    (case map_get (edges s) key of
       None \<Rightarrow> None
     | Some er \<Rightarrow> if lost_with_service s now er then None
                  else fst (sweep_act s now (collectServiceTargets s) er))"
proof -
  let ?s = "fst (sweep_services s now (services s) [])"
  have d: "distinct (map fst (services s))" "distinct (map fst (edges s))"
    using assms by (simp_all add: store_inv_def)
  then have e: "edges ?s = filter (\<lambda>(k, er). \<not> lost_with_service s now er) (edges s)"
    by (subst sweep_services_edges_eq) (auto simp: lost_with_service_def)
  have "same_options s ?s" by (rule same_options_sweep)
  then have act: "sweep_act ?s now known = sweep_act s now known" for known
    by (auto simp: sweep_act_def same_options_def)
  have "map_get (edges (fst (sweep s now))) key =
      Option.bind (map_of (edges ?s) key) (\<lambda>er. fst (sweep_act s now (collectServiceTargets s) er))"
    using d by (simp add: sweep_def Let_def case_prod_beta sweep_pass map_of_pass act e distinct_keys_filter)
  then show ?thesis
    using d by (simp add: e map_of_filter_values split: option.splits)
qed

end
