(* ===== verification/Topology_Service.thy ===== *)
theory Topology_Service
  imports Topology_Replica
begin

text \<open>
  The gRPC service around the store (\<open>apps/topology/src/topology-service.ts\<close>): every handler and
  both timers as one step, the set of watching streams, and what each stream has been sent.
  A \<open>write\<close> on a stream may throw; which writes throw during an event is decided by the
  environment (\<open>throws\<close>).  Streams and activity calls are numbered.
\<close>

type_synonym stream_id = nat
type_synonym throws = "stream_id \<Rightarrow> topology_update \<Rightarrow> bool"

record service_state =
  sv_store :: topology_store
  sv_watchers :: "stream_id list"
  sv_sent :: "stream_id \<Rightarrow> topology_update list"
  sv_accepted :: "nat \<Rightarrow> int"
  sv_nextStream :: stream_id

datatype reply =
    Registered service_handle
  | Heartbeat_Reply string bool
  | Activity_Reply bool string
  | Unregistered bool
  | Topology topology_snapshot
  | Watching stream_id
  | No_Reply
  | Handler_Threw

datatype service_event =
    Call_Register register_request string int
  | Data_Heartbeat heartbeat_request int
  | Data_Activity nat activity_request int
  | End_Activity nat
  | Call_Unregister string
  | Call_GetTopology int
  | Call_Watch int
  | Watch_Closed stream_id
  | Timer_Sweep int
  | Timer_Flush int

text \<open>The inner loop of \<open>broadcast\<close>: what reaches the stream, and whether no write threw.\<close>

fun write_all :: "throws \<Rightarrow> stream_id \<Rightarrow> topology_update list \<Rightarrow> topology_update list \<times> bool" where
  "write_all throws w [] = ([], True)"
| "write_all throws w (u # us) =
     (if throws w u then ([], False)
      else (let (sent, ok) = write_all throws w us in (u # sent, ok)))"

definition broadcast_to ::
  "throws \<Rightarrow> topology_update list \<Rightarrow> service_state \<Rightarrow> stream_id \<Rightarrow> service_state" where
  "broadcast_to throws updates st w =
     (let (sent, ok) = write_all throws w updates;
          st = st\<lparr>sv_sent := (sv_sent st)(w := sv_sent st w @ sent)\<rparr>
      in if ok then st else st\<lparr>sv_watchers := removeAll w (sv_watchers st)\<rparr>)"

definition broadcast :: "throws \<Rightarrow> topology_update list \<Rightarrow> service_state \<Rightarrow> service_state" where
  "broadcast throws updates st =
     (if updates = [] then st else foldl (broadcast_to throws updates) st (sv_watchers st))"

definition on_store ::
  "throws \<Rightarrow> store_event \<Rightarrow> service_state \<Rightarrow> service_state \<times> topology_update list" where
  "on_store throws e st =
     (let (s, updates) = store_step (sv_store st) e
      in (broadcast throws updates (st\<lparr>sv_store := s\<rparr>), updates))"

fun service_step :: "throws \<Rightarrow> service_state \<Rightarrow> service_event \<Rightarrow> service_state \<times> reply" where
  "service_step throws st (Call_Register request serviceId now) =
     (case registerService (sv_store st) request serviceId now of
        (_, handle, _) \<Rightarrow> (fst (on_store throws (Ev_Register request serviceId now) st), Registered handle))"
| "service_step throws st (Data_Heartbeat request now) =
     (fst (on_store throws (Ev_Heartbeat request now) st), Heartbeat_Reply (hb_sequence request) True)"
| "service_step throws st (Data_Activity call event now) =
     (let accepted = sv_accepted st call + activity_batchSize event
      in (fst (on_store throws (Ev_Activity event now) st)
            \<lparr>sv_accepted := (sv_accepted st)(call := accepted)\<rparr>, No_Reply))"
| "service_step throws st (End_Activity call) =
     (st, Activity_Reply True (string_of_int (sv_accepted st call)))"
| "service_step throws st (Call_Unregister serviceId) =
     (let (st, updates) = on_store throws (Ev_Unregister serviceId) st
      in (st, Unregistered (length updates > 0)))"
| "service_step throws st (Call_GetTopology now) = (st, Topology (snapshot (sv_store st) now))"
| "service_step throws st (Call_Watch now) =
     (let w = sv_nextStream st;
          st = st\<lparr>sv_nextStream := Suc w, sv_watchers := sv_watchers st @ [w]\<rparr>;
          update = snapshot_message (snapshot (sv_store st) now)
      in if throws w update then (st, Handler_Threw)
         else (st\<lparr>sv_sent := (sv_sent st)(w := sv_sent st w @ [update])\<rparr>, Watching w))"
| "service_step throws st (Watch_Closed w) =
     (st\<lparr>sv_watchers := removeAll w (sv_watchers st)\<rparr>, No_Reply)"
| "service_step throws st (Timer_Sweep now) = (fst (on_store throws (Ev_Sweep now) st), No_Reply)"
| "service_step throws st (Timer_Flush now) = (fst (on_store throws (Ev_Flush now) st), No_Reply)"

definition initial_service :: "store_options \<Rightarrow> int \<Rightarrow> service_state" where
  "initial_service options now =
     \<lparr>sv_store = new_store options now, sv_watchers = [], sv_sent = (\<lambda>_. []), sv_accepted = (\<lambda>_. 0), sv_nextStream = 0\<rparr>"

definition run_service :: "service_state \<Rightarrow> (throws \<times> service_event) list \<Rightarrow> service_state" where
  "run_service st es = foldl (\<lambda>st (throws, e). fst (service_step throws st e)) st es"

subsection \<open>What a broadcast does\<close>

lemma write_all_ok: "snd (write_all throws w us) \<Longrightarrow> fst (write_all throws w us) = us"
  by (induction us) (auto split: if_splits prod.splits)

lemma write_all_prefix: "\<exists>rest. us = fst (write_all throws w us) @ rest"
  by (induction us) (auto split: prod.splits)

lemma broadcast_to_simps [simp]:
  "sv_store (broadcast_to throws us st w) = sv_store st"
  "sv_accepted (broadcast_to throws us st w) = sv_accepted st"
  "sv_nextStream (broadcast_to throws us st w) = sv_nextStream st"
  by (simp_all add: broadcast_to_def case_prod_beta Let_def)

lemma foldl_broadcast:
  "distinct ws \<Longrightarrow>
   sv_store (foldl (broadcast_to throws us) st ws) = sv_store st \<and>
   sv_accepted (foldl (broadcast_to throws us) st ws) = sv_accepted st \<and>
   sv_nextStream (foldl (broadcast_to throws us) st ws) = sv_nextStream st \<and>
   sv_watchers (foldl (broadcast_to throws us) st ws) =
     filter (\<lambda>w. w \<in> set ws \<longrightarrow> snd (write_all throws w us)) (sv_watchers st) \<and>
   (\<forall>w. sv_sent (foldl (broadcast_to throws us) st ws) w =
     (if w \<in> set ws then sv_sent st w @ fst (write_all throws w us) else sv_sent st w))"
proof (induction ws arbitrary: st)
  case (Cons w ws)
  have "removeAll w xs = filter (\<lambda>v. v \<noteq> w) xs" for xs :: "nat list"
    by (induction xs) auto
  with Cons show ?case
    by (auto simp: broadcast_to_def case_prod_beta Let_def intro!: filter_cong)
qed simp

lemma broadcast_parts:
  assumes "distinct (sv_watchers st)"
  shows "sv_store (broadcast throws us st) = sv_store st"
    and "sv_accepted (broadcast throws us st) = sv_accepted st"
    and "sv_nextStream (broadcast throws us st) = sv_nextStream st"
    and "sv_watchers (broadcast throws us st) = filter (\<lambda>w. snd (write_all throws w us)) (sv_watchers st)"
    and "sv_sent (broadcast throws us st) w =
      (if w \<in> set (sv_watchers st) then sv_sent st w @ fst (write_all throws w us) else sv_sent st w)"
proof -
  note f = foldl_broadcast [OF assms, of throws us st]
  show "sv_store (broadcast throws us st) = sv_store st"
    "sv_accepted (broadcast throws us st) = sv_accepted st"
    "sv_nextStream (broadcast throws us st) = sv_nextStream st"
    using f by (simp_all add: broadcast_def)
  show "sv_watchers (broadcast throws us st) = filter (\<lambda>w. snd (write_all throws w us)) (sv_watchers st)"
    using f by (auto simp: broadcast_def intro!: filter_cong)
  show "sv_sent (broadcast throws us st) w =
      (if w \<in> set (sv_watchers st) then sv_sent st w @ fst (write_all throws w us) else sv_sent st w)"
    using f by (simp add: broadcast_def)
qed

subsection \<open>Watchers stay in step with the store\<close>

text \<open>
  A stream is served once its first snapshot was written.  A served stream that is still watched
  holds a replica of the store, whatever the clocks of the replica say.
\<close>

definition served :: "service_state \<Rightarrow> stream_id \<Rightarrow> bool" where
  "served st w \<longleftrightarrow> (\<exists>u \<in> set (sv_sent st w). is_snapshot u)"

abbreviation stream_in_step :: "service_state \<Rightarrow> stream_id \<Rightarrow> bool" where
  "stream_in_step st w \<equiv> caught_up replica apply_message initialSnapshot (sv_store st) (sv_sent st w)"

definition service_inv :: "service_state \<Rightarrow> bool" where
  "service_inv st \<longleftrightarrow> store_inv (sv_store st) \<and> distinct (sv_watchers st) \<and>
     (\<forall>w \<in> set (sv_watchers st). w < sv_nextStream st) \<and>
     (\<forall>w \<ge> sv_nextStream st. sv_sent st w = []) \<and>
     (\<forall>w \<in> set (sv_watchers st). served st w \<longrightarrow> stream_in_step st w)"

lemma initial_service_inv: "service_inv (initial_service options now)"
  by (simp add: service_inv_def initial_service_def new_store_inv)

lemma on_store_parts:
  assumes "service_inv st"
  shows "sv_store (fst (on_store throws e st)) = fst (store_step (sv_store st) e)"
    and "snd (on_store throws e st) = snd (store_step (sv_store st) e)"
    and "sv_accepted (fst (on_store throws e st)) = sv_accepted st"
  using assms broadcast_parts [of "st\<lparr>sv_store := fst (store_step (sv_store st) e)\<rparr>"]
  by (simp_all add: on_store_def case_prod_beta Let_def service_inv_def)

lemma on_store_inv: "service_inv st \<Longrightarrow> service_inv (fst (on_store throws e st))"
proof -
  assume inv: "service_inv st"
  define us where "us = snd (store_step (sv_store st) e)"
  define st1 where "st1 = st\<lparr>sv_store := fst (store_step (sv_store st) e)\<rparr>"
  have d: "distinct (sv_watchers st1)" using inv by (simp add: service_inv_def st1_def)
  have eq: "fst (on_store throws e st) = broadcast throws us st1"
    by (simp add: on_store_def case_prod_beta Let_def us_def st1_def)
  note b = broadcast_parts [OF d, of throws us]
  have sv1: "sv_store st1 = fst (store_step (sv_store st) e)" by (simp add: st1_def)
  have old: "\<forall>w \<ge> sv_nextStream st1. sv_sent (broadcast throws us st1) w = []"
    using inv b(5) by (force simp: service_inv_def st1_def)
  have step: "stream_in_step (broadcast throws us st1) w"
    if w: "w \<in> set (sv_watchers st)" "snd (write_all throws w us)"
      and served: "served (broadcast throws us st1) w" for w
  proof -
    have sent: "sv_sent (broadcast throws us st1) w = sv_sent st w @ us"
      using w b(5) [of w] write_all_ok by (simp add: st1_def)
    have "\<not> is_snapshot u" if "u \<in> set us" for u
      using that by (simp add: us_def store_step_not_snapshot)
    with served sent have "served st w" by (auto simp: served_def)
    with inv w have "stream_in_step st w" by (simp add: service_inv_def)
    then have "caught_up replica apply_message initialSnapshot (fst (store_step (sv_store st) e))
        (sv_sent st w @ snd (store_step (sv_store st) e))"
      using inv by (intro topo.caught_up_step) (simp_all add: service_inv_def)
    then show ?thesis by (simp add: sent b(1) sv1 flip: us_def)
  qed
  have "store_inv (sv_store st1)"
    using inv by (simp add: st1_def service_inv_def store_step_inv)
  then show ?thesis
    using d old step inv by (simp add: service_inv_def eq b(1,3,4)) (simp add: st1_def)
qed

lemma watch_inv: "service_inv st \<Longrightarrow> service_inv (fst (service_step throws st (Call_Watch now)))"
proof -
  assume inv: "service_inv st"
  let ?u = "snapshot_message (snapshot (sv_store st) now)"
  have rep: "replica (sv_store st) (snapshot (sv_store st) now)"
    using inv by (simp add: service_inv_def snapshot_replica)
  have whole: "is_snapshot ?u" by (simp add: is_snapshot_def message_defs)
  have "caught_up replica apply_message initialSnapshot (sv_store st) (log @ [?u])" for log
    by (rule topo.caught_up_whole [OF whole]) (simp add: rep)
  from this [of "[]"] show ?thesis
    using inv by (auto simp: service_inv_def served_def Let_def)
qed

lemma service_step_inv: "service_inv st \<Longrightarrow> service_inv (fst (service_step throws st e))"
proof (cases e)
  case (Call_Watch now)
  assume "service_inv st"
  with Call_Watch watch_inv show ?thesis by blast
next
  case (Watch_Closed w)
  assume "service_inv st"
  with Watch_Closed show ?thesis by (simp add: service_inv_def served_def distinct_removeAll)
next
  case (Data_Activity call event now)
  assume "service_inv st"
  then have "service_inv (fst (on_store throws (Ev_Activity event now) st))" by (rule on_store_inv)
  with Data_Activity show ?thesis by (simp add: service_inv_def served_def Let_def)
qed (simp_all add: on_store_inv case_prod_beta)

interpretation service: reactive "\<lambda>st (throws, e). fst (service_step throws st e)" service_inv
  by unfold_locales (simp add: service_step_inv case_prod_beta)

text \<open>A stream that was opened is served unless the write of its snapshot threw.\<close>

lemma served_on_store:
  assumes "service_inv st"
  shows "served st w \<Longrightarrow> served (fst (on_store throws e st)) w"
    and "sv_nextStream (fst (on_store throws e st)) = sv_nextStream st"
proof -
  let ?st1 = "st\<lparr>sv_store := fst (store_step (sv_store st) e)\<rparr>"
  have eq: "fst (on_store throws e st) = broadcast throws (snd (store_step (sv_store st) e)) ?st1"
    by (simp add: on_store_def case_prod_beta Let_def)
  have d: "distinct (sv_watchers ?st1)" using assms by (simp add: service_inv_def)
  show "served st w \<Longrightarrow> served (fst (on_store throws e st)) w"
    by (auto simp: served_def eq broadcast_parts(5) [OF d])
  show "sv_nextStream (fst (on_store throws e st)) = sv_nextStream st" by (simp add: eq broadcast_parts(3) [OF d])
qed

lemma served_step:
  assumes "service_inv st" "\<forall>u. is_snapshot u \<longrightarrow> \<not> throws w u" "w < sv_nextStream st \<longrightarrow> served st w"
  shows "w < sv_nextStream (fst (service_step throws st e)) \<longrightarrow> served (fst (service_step throws st e)) w"
proof (cases e)
  case (Call_Watch now)
  have "is_snapshot (snapshot_message (snapshot (sv_store st) now))" by (simp add: is_snapshot_def message_defs)
  with assms Call_Watch show ?thesis by (auto simp: served_def Let_def less_Suc_eq)
next
  case (Data_Activity call event now)
  have "served (fst (on_store throws (Ev_Activity event now) st)) w" if "w < sv_nextStream st"
    using assms that by (simp add: served_on_store)
  with assms(1) Data_Activity show ?thesis by (simp add: served_def served_on_store(2) Let_def)
next
  case (Watch_Closed v)
  with assms(3) show ?thesis by (simp add: served_def)
qed (use assms in \<open>simp_all add: served_on_store case_prod_beta Let_def\<close>)

lemma served_run:
  assumes "\<forall>(throws, e) \<in> set es. \<forall>u. is_snapshot u \<longrightarrow> \<not> throws w u" "service_inv st" "w < sv_nextStream st \<longrightarrow> served st w"
  shows "w < sv_nextStream (run_service st es) \<longrightarrow> served (run_service st es) w"
  using assms
proof (induction es arbitrary: st)
  case (Cons x es)
  obtain throws e where x: "x = (throws, e)" by (cases x)
  have s: "w < sv_nextStream (fst (service_step throws st e)) \<longrightarrow> served (fst (service_step throws st e)) w"
    by (rule served_step) (use Cons.prems in \<open>simp_all add: x\<close>)
  have "w < sv_nextStream (run_service (fst (service_step throws st e)) es) \<longrightarrow>
      served (run_service (fst (service_step throws st e)) es) w"
    by (rule Cons.IH) (use Cons.prems s service_step_inv in \<open>simp_all add: x\<close>)
  then show ?case by (simp add: run_service_def x)
qed (simp add: run_service_def)

end
