(* ===== verification/Topology_Properties.thy ===== *)
theory Topology_Properties
  imports Topology_Facts Topology_Service
begin

text \<open>
  The promises of the topology store over every history of calls and timer ticks, from the
  constructor on.  Each is followed by a concrete history that meets its hypotheses.
\<close>

subsection \<open>Concrete inputs\<close>

definition sample_options :: store_options where
  "sample_options = \<lparr>so_heartbeatIntervalMs = Some 1000, so_timeoutMultiplier = Some 3, so_idleTimeoutMs = None,
     so_unknownEdgeTimeoutMs = None, so_rpsWindowMs = None, so_activityFlushMs = None,
     so_nodeUpdateThrottleMs = None\<rparr>"

definition sample_register :: "string \<Rightarrow> register_request" where
  "sample_register name = \<lparr>rq_serviceName = name, rq_serviceType = SERVICE_TYPE_SERVER,
     rq_language = SERVICE_LANGUAGE_TYPESCRIPT, rq_version = None, rq_address = None, rq_host = None,
     rq_metadata = None\<rparr>"

definition sample_beat :: "string \<Rightarrow> heartbeat_request" where
  "sample_beat serviceId = \<lparr>hb_serviceId = serviceId, hb_sequence = ''1'', hb_metrics = None, hb_health = None\<rparr>"

definition sample_call :: "string \<Rightarrow> string \<Rightarrow> int \<Rightarrow> int \<Rightarrow> activity_request" where
  "sample_call serviceId target latency batch = \<lparr>ra_serviceId = serviceId, ra_targetService = target,
     ra_type = ACTIVITY_TYPE_RESPONSE_RECEIVED, ra_timestampMs = None, ra_latencyMs = Some latency,
     ra_method = None, ra_success = Some True, ra_batchSize = Some batch, ra_errorMessage = None\<rparr>"

lemmas samples = sample_options_def sample_register_def sample_beat_def sample_call_def

definition store_after :: "store_options \<Rightarrow> int \<Rightarrow> store_event list \<Rightarrow> topology_store" where
  "store_after options t es = fst (run_updates store_step (new_store options t) es)"

lemma store_after_inv: "store_inv (store_after options t es)"
  unfolding store_after_def by (rule run_store_inv)

lemma store_after_options: "same_options (new_store options t) (store_after options t es)"
  unfolding store_after_def by (rule run_options)

text \<open>C9.
  Whatever calls and timer ticks reach a new store, its two maps stay well formed: keys are
  distinct and name their entries, the printed clocks, counters and averages are those of the
  records, errors never exceed requests, rates are not negative, and every edge starts at a
  registered service.\<close>

theorem store_always_well_formed: "store_inv (fst (run_updates store_step (new_store options t) es))"
  by (rule topo.run_inv [OF new_store_inv])

text \<open>C10.
  A registered service is in the store exactly as long as it was not unregistered and no sweep
  came later than heartbeat interval times timeout multiplier (5000 and 3 by default) after its
  registration or its last heartbeat.  Activity does not count as a heartbeat.\<close>

theorem registered_until_silent:
  assumes "\<forall>e \<in> set es. registers e \<noteq> Some i"
  shows "i \<in> set (map_keys (services (fst (run_updates store_step
      (fst (registerService (store_after options t before) request i now)) es)))) \<longleftrightarrow>
    keeps_beating i (nullish (so_heartbeatIntervalMs options) 5000 * nullish (so_timeoutMultiplier options) 3)
      now es"
proof -
  let ?s = "store_after options t before"
  let ?s1 = "fst (registerService ?s request i now)"
  have inv: "store_inv ?s1" by (rule register_inv [OF store_after_inv])
  obtain r where r: "map_get (services ?s1) i = Some r"
    "beat_data r = (heartbeatIntervalMs ?s * timeoutMultiplier ?s, now)"
    by (simp add: registerService_def Let_def update_conv' beat_data_def)
  have "heartbeatIntervalMs ?s = nullish (so_heartbeatIntervalMs options) 5000"
    "timeoutMultiplier ?s = nullish (so_timeoutMultiplier options) 3"
    using store_after_options [of options t before] by (simp_all add: same_options_def new_store_def Let_def)
  with run_beating [OF inv r(1) assms] r(2) show ?thesis by (simp add: map_of_None_iff)
qed

theorem registered_until_silent_witness:
  "''a'' \<in> set (map_keys (services (fst (run_updates store_step
     (fst (registerService (store_after sample_options 0 []) (sample_register ''A'') ''a'' 10))
     [Ev_Heartbeat (sample_beat ''a'') 2500, Ev_Sweep 5500]))))
   \<and> ''a'' \<notin> set (map_keys (services (fst (run_updates store_step
     (fst (registerService (store_after sample_options 0 []) (sample_register ''A'') ''a'' 10))
     [Ev_Activity (sample_call ''a'' ''B'' 7 1) 2500, Ev_Sweep 3011]))))"
  by (subst registered_until_silent, simp, subst registered_until_silent, simp)
     (simp add: samples)

text \<open>C29.
  Requests are counted exactly once: as long as nothing is removed, the total that a flush
  publishes for an edge is what the edge had plus the batch sizes of all activities in between
  that were reported for it by services registered at that time, and nothing stays pending.\<close>

theorem requests_counted_once:
  assumes "\<forall>e \<in> set es. keeps_edges e"
    and "map_get (edges (fst (flushActivity (fst (run_updates store_step (store_after options t before) es)) now)))
      key = Some er"
  shows "er_pendingCount er = 0 \<and> se_totalRequests (er_edge er) =
    string_of_int (edge_load (store_after options t before) key
      + counted key (set (map_keys (services (store_after options t before)))) es)"
proof -
  let ?s = "store_after options t before"
  have "dom (map_of (services ?s)) = set (map_keys (services ?s))"
    by (simp add: dom_map_of_conv_image_fst)
  then have "edge_load (fst (run_updates store_step ?s es)) key =
      edge_load ?s key + counted key (set (map_keys (services ?s))) es"
    using run_load [OF store_after_inv assms(1)] by simp
  with flushed_edges [OF topo.run_inv [OF store_after_inv] assms(2)] show ?thesis by simp
qed

definition sample_calls :: "store_event list" where
  "sample_calls = [Ev_Activity (sample_call ''a'' ''B'' 7 2) 20,
     Ev_Activity (sample_call ''a'' ''B'' 4 3) 1500, Ev_Activity (sample_call ''x'' ''B'' 4 9) 1600]"

definition sample_before :: "store_event list" where
  "sample_before = [Ev_Register (sample_register ''A'') ''a'' 10]"

theorem requests_counted_once_witness:
  "\<exists>er. map_get (edges (fst (flushActivity (fst (run_updates store_step
      (store_after sample_options 0 sample_before) sample_calls)) 2000))) ''a::B'' = Some er
    \<and> er_pendingCount er = 0 \<and> se_totalRequests (er_edge er) = ''5''"
proof -
  let ?s = "fst (run_updates store_step (store_after sample_options 0 sample_before) sample_calls)"
  have "map_option er_pendingCount (map_get (edges ?s) ''a::B'') = Some 5" by code_simp
  moreover have "store_inv ?s" by (rule topo.run_inv [OF store_after_inv])
  ultimately obtain er where er: "map_get (edges (fst (flushActivity ?s 2000))) ''a::B'' = Some er"
    by (auto simp: flushActivity_eq Let_def map_of_pass store_inv_def flush_act_def)
  have "\<forall>e \<in> set sample_calls. keeps_edges e" by (simp add: sample_calls_def)
  from requests_counted_once [OF this er]
  have "er_pendingCount er = 0 \<and> se_totalRequests (er_edge er) =
    string_of_int (edge_load (store_after sample_options 0 sample_before) ''a::B''
      + counted ''a::B'' (set (map_keys (services (store_after sample_options 0 sample_before)))) sample_calls)" .
  moreover have "string_of_int (edge_load (store_after sample_options 0 sample_before) ''a::B''
      + counted ''a::B'' (set (map_keys (services (store_after sample_options 0 sample_before)))) sample_calls)
      = ''5''" by code_simp
  ultimately show ?thesis using er by simp
qed

text \<open>
  The published average latency of an edge lies between the least and the largest latency ever
  reported, in spite of the roundings of each flush, while requests times the largest latency
  stay within the exact integers of a double.\<close>

theorem average_latency_in_range:
  assumes "\<forall>e \<in> set es. latency_within lo hi e" "0 \<le> lo" "lo \<le> hi"
    and "hi * sum_list (map requests_of es) \<le> 2 ^ 53"
    and "(key, er) \<in> set (edges (store_after options t es))"
    and "0 < er_totalCount er"
  shows "of_int lo \<le> se_avgLatencyMs (er_edge er) \<and> se_avgLatencyMs (er_edge er) \<le> of_int hi"
proof -
  have "\<forall>(k, er) \<in> set (edges (store_after options t es)).
      latency_ok lo hi (0 + sum_list (map requests_of es)) er"
    unfolding store_after_def
    using assms(1-4) by (intro latency_run new_store_inv) (simp_all add: new_store_def Let_def)
  then have "latency_ok lo hi (sum_list (map requests_of es)) er" using assms(5) by auto
  moreover have "\<forall>(k, er) \<in> set (edges (store_after options t es)). edge_ok k er"
    using store_after_inv [of options t es] by (simp add: store_inv_def)
  then have "edge_ok key er" using assms(5) by auto
  ultimately show ?thesis
    using assms(6) by (simp add: latency_ok_def edge_ok_def edge_names_ok_def)
qed

definition sample_history :: "store_event list" where
  "sample_history = sample_before @ sample_calls @ [Ev_Flush 2000]"

theorem average_latency_in_range_witness:
  "\<exists>er. (''a::B'', er) \<in> set (edges (store_after sample_options 0 sample_history)) \<and> 0 < er_totalCount er
    \<and> 4 \<le> se_avgLatencyMs (er_edge er) \<and> se_avgLatencyMs (er_edge er) \<le> 7"
proof -
  let ?es = "edges (store_after sample_options 0 sample_history)"
  let ?s = "store_after sample_options 0 (sample_before @ sample_calls)"
  have h: "store_after sample_options 0 sample_history = fst (flushActivity ?s 2000)"
    by (simp add: store_after_def sample_history_def run_updates_append Let_def case_prod_beta)
  have "map_option (\<lambda>er. (er_totalCount er, er_pendingCount er)) (map_get (edges ?s) ''a::B'') = Some (0, 5)"
    by code_simp
  then obtain er0 where "map_get (edges ?s) ''a::B'' = Some er0" "er_totalCount er0 = 0" "er_pendingCount er0 = 5"
    by auto
  moreover have "distinct (map fst (edges ?s))" using store_after_inv by (simp add: store_inv_def)
  ultimately obtain er where "map_get ?es ''a::B'' = Some er" "er_totalCount er = 5"
    by (auto simp: h flushActivity_eq Let_def map_of_pass flush_act_def flush_edge_def)
  then have er: "(''a::B'', er) \<in> set ?es" "0 < er_totalCount er" by (auto dest: map_of_SomeD)
  have "of_int 4 \<le> se_avgLatencyMs (er_edge er) \<and> se_avgLatencyMs (er_edge er) \<le> of_int 7"
    by (rule average_latency_in_range [OF _ _ _ _ er])
       (simp_all add: sample_history_def sample_calls_def sample_before_def samples activity_batchSize_def)
  with er show ?thesis by auto
qed

text \<open>With a timeout multiplier of at most two a service is never shown as stale: a sweep removes it
  no later than it would mark it.\<close>

theorem no_stale_state_below_three:
  assumes "nullish (so_timeoutMultiplier options) 3 \<le> 2" "0 \<le> nullish (so_heartbeatIntervalMs options) 5000"
    and "n \<in> set (ts_nodes (snapshot (store_after options t es) now))"
  shows "sn_state n \<noteq> SERVICE_STATE_STALE"
proof -
  let ?s = "store_after options t es"
  obtain k r where r: "(k, r) \<in> set (services ?s)" "n = sr_node r"
    using assms(3) by (auto simp: snapshot_def)
  then have "map_get (services ?s) k = Some r"
    using store_after_inv [of options t es] by (simp add: store_inv_def map_of_Some_iff)
  then have "never_stale (new_store options t) r"
    using assms(1,2) unfolding store_after_def
    by (rule_tac never_stale_run [OF new_store_inv]) (simp_all add: new_store_def Let_def)
  with r show ?thesis by (simp add: never_stale_def)
qed

definition short_lived :: store_options where
  "short_lived = sample_options\<lparr>so_timeoutMultiplier := Some 2\<rparr>"

definition sample_silence :: "store_event list" where
  "sample_silence = [Ev_Register (sample_register ''A'') ''a'' 10, Ev_Sweep 2010]"

theorem no_stale_state_below_three_witness:
  "\<exists>n \<in> set (ts_nodes (snapshot (store_after short_lived 0 sample_silence) 2010)).
    sn_serviceId n = ''a'' \<and> sn_state n \<noteq> SERVICE_STATE_STALE"
proof -
  let ?ns = "ts_nodes (snapshot (store_after short_lived 0 sample_silence) 2010)"
  have "map sn_serviceId ?ns = [''a'']" by code_simp
  then obtain n where n: "n \<in> set ?ns" "sn_serviceId n = ''a''" by (auto simp: map_eq_Cons_conv)
  moreover have "sn_state n \<noteq> SERVICE_STATE_STALE"
    by (rule no_stale_state_below_three [OF _ _ n(1)]) (simp_all add: short_lived_def sample_options_def)
  ultimately show ?thesis by blast
qed

text \<open>The records after a sweep, in terms of the clocks.\<close>

definition overdue :: "service_record \<Rightarrow> int \<Rightarrow> bool" where
  "overdue r now \<longleftrightarrow> sr_lastHeartbeatMs r + sr_heartbeatIntervalMs r * sr_timeoutMultiplier r < now"

lemma swept_record:
  "fst (sweep_record idle r now us) =
     (if sr_lastHeartbeatMs r + 2 * sr_heartbeatIntervalMs r < now
      then (if sn_state (sr_node r) = SERVICE_STATE_STALE then r
            else r\<lparr>sr_node := (sr_node r)\<lparr>sn_state := SERVICE_STATE_STALE\<rparr>, sr_lastNodeUpdateMs := now\<rparr>)
      else if sn_state (sr_node r) = SERVICE_STATE_ACTIVE \<and> 0 < sr_lastActivityMs r \<and> sr_lastActivityMs r + idle < now
      then r\<lparr>sr_node := (sr_node r)\<lparr>sn_state := SERVICE_STATE_IDLE\<rparr>, sr_lastNodeUpdateMs := now\<rparr>
      else r)"
  by (auto simp: sweep_record_def queueNodeUpdate_def Let_def)

text \<open>C36.
  A sweep is exact.  A service is removed when its heartbeat is overdue.  Otherwise it becomes stale
  when it has been silent for more than twice its interval and is not stale yet, it becomes idle
  when it is active, is not that silent, and its last activity is longer ago than the idle timeout,
  and nothing else of it changes.  An edge goes with a removed service that it starts at or that has
  its target among its keys, or when it had no activity for longer than the timeout for unknown
  targets and its target is a key of no service of the time when the sweep began; an active edge
  without activity for longer than the idle timeout is set idle; everything else is untouched.\<close>

theorem sweep_is_exact:
  "s = store_after options t es \<Longrightarrow>
   map_get (services (fst (sweep s now))) i =
     (case map_get (services s) i of
        None \<Rightarrow> None
      | Some r \<Rightarrow>
          if overdue r now then None
          else if sr_lastHeartbeatMs r + 2 * sr_heartbeatIntervalMs r < now
          then Some (if sn_state (sr_node r) = SERVICE_STATE_STALE then r
                     else r\<lparr>sr_node := (sr_node r)\<lparr>sn_state := SERVICE_STATE_STALE\<rparr>, sr_lastNodeUpdateMs := now\<rparr>)
          else if sn_state (sr_node r) = SERVICE_STATE_ACTIVE \<and> 0 < sr_lastActivityMs r
                  \<and> sr_lastActivityMs r + idleTimeoutMs s < now
          then Some (r\<lparr>sr_node := (sr_node r)\<lparr>sn_state := SERVICE_STATE_IDLE\<rparr>, sr_lastNodeUpdateMs := now\<rparr>)
          else Some r)
   \<and> map_get (edges (fst (sweep s now))) key =
     (case map_get (edges s) key of
        None \<Rightarrow> None
      | Some er \<Rightarrow>
          if (\<exists>(j, r) \<in> set (services s). overdue r now \<and>
                (se_sourceServiceId (er_edge er) = j \<or> se_targetService (er_edge er) \<in> buildServiceKeys (sr_node r)))
             \<or> (0 < unknownEdgeTimeoutMs s \<and> er_lastActivityMs er + unknownEdgeTimeoutMs s < now
                \<and> \<not> (\<exists>(j, r) \<in> set (services s). se_targetService (er_edge er) \<in> buildServiceKeys (sr_node r)))
          then None
          else if se_state (er_edge er) = CONNECTION_STATE_ACTIVE \<and> er_lastActivityMs er + idleTimeoutMs s < now
          then Some (er\<lparr>er_edge := (er_edge er)\<lparr>se_state := CONNECTION_STATE_IDLE\<rparr>\<rparr>)
          else Some er)"
proof -
  assume s: "s = store_after options t es"
  then have inv: "store_inv s" by (simp add: store_after_inv)
  have o: "heartbeat_expired r now = overdue r now" for r by (auto simp: heartbeat_expired_def overdue_def)
  have k: "b \<in> collectServiceTargets s \<longleftrightarrow> (\<exists>(j, r) \<in> set (services s). b \<in> buildServiceKeys (sr_node r))" for b
    by (auto simp: collectServiceTargets_def)
  have l: "lost_with_service s now er \<longleftrightarrow> (\<exists>(j, r) \<in> set (services s). overdue r now \<and>
      (se_sourceServiceId (er_edge er) = j \<or> se_targetService (er_edge er) \<in> buildServiceKeys (sr_node r)))" for er
    by (auto simp: lost_with_service_def edge_of_service_def o)
  have a: "fst (sweep_act s now (collectServiceTargets s) er) =
      (if 0 < unknownEdgeTimeoutMs s \<and> er_lastActivityMs er + unknownEdgeTimeoutMs s < now
          \<and> \<not> (\<exists>(j, r) \<in> set (services s). se_targetService (er_edge er) \<in> buildServiceKeys (sr_node r)) then None
       else if se_state (er_edge er) = CONNECTION_STATE_ACTIVE \<and> er_lastActivityMs er + idleTimeoutMs s < now
       then Some (er\<lparr>er_edge := (er_edge er)\<lparr>se_state := CONNECTION_STATE_IDLE\<rparr>\<rparr>) else Some er)" for er
    unfolding sweep_act_def k by auto
  show ?thesis
    unfolding sweep_get [OF inv] sweep_edges_get [OF inv] o swept_record a l
    by (simp split: option.split)
qed

theorem sweep_is_exact_witness:
  "map_get (services (fst (sweep (store_after sample_options 0 sample_silence) 2011))) ''a'' =
     map_option (\<lambda>r. r\<lparr>sr_node := (sr_node r)\<lparr>sn_state := SERVICE_STATE_STALE\<rparr>, sr_lastNodeUpdateMs := 2011\<rparr>)
       (map_get (services (store_after sample_options 0 sample_silence)) ''a'')"
proof -
  let ?s = "store_after sample_options 0 sample_silence"
  have "map_option (\<lambda>r. (sr_lastHeartbeatMs r, sr_heartbeatIntervalMs r, sr_timeoutMultiplier r, sn_state (sr_node r)))
      (map_get (services ?s) ''a'') = Some (10, 1000, 3, SERVICE_STATE_REGISTERED)"
    by code_simp
  then obtain r where "map_get (services ?s) ''a'' = Some r" "sr_lastHeartbeatMs r = 10" "sr_heartbeatIntervalMs r = 1000"
    "sr_timeoutMultiplier r = 3" "sn_state (sr_node r) = SERVICE_STATE_REGISTERED" by auto
  with sweep_is_exact [OF refl, of sample_options 0 sample_silence 2011 "''a''", THEN conjunct1] show ?thesis
    by (simp add: overdue_def)
qed

text \<open>
  An unregistered service is forgotten: until its id is registered again, no snapshot shows a
  node with that id or an edge that starts there, whatever heartbeats and activities it still sends.\<close>

theorem unregistered_is_forgotten:
  assumes "\<forall>e \<in> set es. registers e \<noteq> Some i"
  shows "i \<notin> sn_serviceId ` set (ts_nodes (snapshot (fst (run_updates store_step
      (fst (unregisterService (store_after options t before) i)) es)) now))
    \<and> i \<notin> se_sourceServiceId ` set (ts_edges (snapshot (fst (run_updates store_step
      (fst (unregisterService (store_after options t before) i)) es)) now))"
proof -
  let ?u = "fst (unregisterService (store_after options t before) i)"
  let ?s = "fst (run_updates store_step ?u es)"
  have inv0: "store_inv ?u" unfolding unregisterService_def by (rule remove_inv [OF store_after_inv])
  have "map_get (services ?u) i = None"
    by (simp add: unregisterService_def removeService_services delete_conv')
  with inv0 have none: "map_get (services ?s) i = None" using assms by (rule absent_run)
  have inv: "store_inv ?s" using inv0 by (rule topo.run_inv)
  then have "sn_serviceId (sr_node r) = k" if "(k, r) \<in> set (services ?s)" for k r
    using that by (auto simp: store_inv_def service_ok_def)
  moreover have "se_sourceServiceId (er_edge er) \<in> fst ` set (services ?s)" if "(k, er) \<in> set (edges ?s)" for k er
    using inv that by (auto simp: store_inv_def)
  moreover have "i \<notin> fst ` set (services ?s)" using none by (simp add: map_of_None_iff)
  ultimately show ?thesis by (force simp: snapshot_def)
qed

theorem unregistered_is_forgotten_witness:
  "''a'' \<notin> sn_serviceId ` set (ts_nodes (snapshot (fst (run_updates store_step
      (fst (unregisterService (store_after sample_options 0 sample_history) ''a'')) sample_calls)) 3000))"
  by (rule unregistered_is_forgotten [THEN conjunct1]) (simp add: sample_calls_def)

text \<open>C27.
  A copy that started from a snapshot and replayed every update since, whenever each arrived,
  holds exactly the edges of the store after a flush, and exactly its nodes up to the two clocks
  that a throttled node update may leave behind.\<close>

theorem copy_is_exact_after_flush:
  assumes "map fst ms = snd (run_updates store_step (store_after options t before) (es @ [Ev_Flush now]))"
  shows "ts_edges (replay (snapshot (store_after options t before) t0) ms) =
      ts_edges (snapshot (fst (run_updates store_step (store_after options t before) (es @ [Ev_Flush now]))) now)
    \<and> map (\<lambda>n. n\<lparr>sn_lastHeartbeatMs := [], sn_lastActivityMs := []\<rparr>)
        (ts_nodes (replay (snapshot (store_after options t before) t0) ms)) =
      map (\<lambda>n. n\<lparr>sn_lastHeartbeatMs := [], sn_lastActivityMs := []\<rparr>)
        (ts_nodes (snapshot (fst (run_updates store_step (store_after options t before) (es @ [Ev_Flush now]))) now))"
proof -
  let ?s = "store_after options t before"
  let ?s1 = "fst (run_updates store_step ?s es)"
  let ?s2 = "fst (run_updates store_step ?s (es @ [Ev_Flush now]))"
  let ?d = "replay (snapshot ?s t0) ms"
  have up: "caught_up replica apply_message (snapshot ?s t0) ?s []"
    by (simp add: caught_up_def snapshot_replica store_after_inv)
  from topo.run_caught_up [OF store_after_inv up, of "es @ [Ev_Flush now]"] assms
  have rep: "replica ?s2 ?d" by (simp add: caught_up_def replay_def)
  have inv1: "store_inv ?s1" by (rule topo.run_inv [OF store_after_inv])
  have s2: "?s2 = fst (flushActivity ?s1 now)" by (simp add: run_updates_append Let_def case_prod_beta)
  have "er_pendingCount er = 0" if "(k, er) \<in> set (edges ?s2)" for k er
  proof -
    have "map_get (edges ?s2) k = Some er"
      using that flush_inv [OF inv1] by (simp add: s2 store_inv_def map_of_Some_iff)
    then show ?thesis using flushed_edges [OF inv1] by (simp add: s2)
  qed
  then have "ts_edges ?d = map er_edge (map snd (edges ?s2))"
    using rep by (intro follows_exact [of edge_sim]) (auto simp: replica_def edge_sim_def)
  moreover have "map (\<lambda>n. n\<lparr>sn_lastHeartbeatMs := [], sn_lastActivityMs := []\<rparr>) (ts_nodes ?d) =
      map (\<lambda>n. n\<lparr>sn_lastHeartbeatMs := [], sn_lastActivityMs := []\<rparr>) (map sr_node (map snd (services ?s2)))"
    using rep by (intro follows_clockless [of sn_serviceId]) (simp add: replica_def)
  ultimately show ?thesis by (simp add: snapshot_def)
qed

theorem copy_is_exact_after_flush_witness:
  "ts_edges (replay (snapshot (store_after sample_options 0 []) 5)
      (map (\<lambda>u. (u, 7)) (snd (run_updates store_step (store_after sample_options 0 [])
        ((sample_before @ sample_calls) @ [Ev_Flush 2000])))))
    = ts_edges (snapshot (fst (run_updates store_step (store_after sample_options 0 [])
        ((sample_before @ sample_calls) @ [Ev_Flush 2000]))) 2000)"
  by (rule copy_is_exact_after_flush [THEN conjunct1]) (simp add: comp_def)

subsection \<open>The service\<close>

lemma run_service_inv: "service_inv (run_service (initial_service options t) es)"
  unfolding run_service_def by (rule service.inv_run [OF initial_service_inv])

text \<open>C3.
  After any sequence of calls, stream events and timer ticks, with any writes failing except that of
  a stream's own first snapshot, a stream that is still watched has been sent a snapshot, and
  whatever it has been sent makes its reader a replica of the store: the same
  nodes in the same order up to the two clocks, the same edges in the same order up to activity
  that no flush has published yet.\<close>

theorem watched_streams_replicate_the_store:
  assumes "w \<in> set (sv_watchers (run_service (initial_service options t) es))"
    and "\<forall>(throws, e) \<in> set es. \<forall>u. is_snapshot u \<longrightarrow> \<not> throws w u"
    and "map fst ms = sv_sent (run_service (initial_service options t) es) w"
  shows "served (run_service (initial_service options t) es) w
    \<and> replica (sv_store (run_service (initial_service options t) es)) (replay initialSnapshot ms)"
proof -
  let ?st = "run_service (initial_service options t) es"
  have inv: "service_inv ?st" by (rule run_service_inv)
  have "w < sv_nextStream ?st \<longrightarrow> served ?st w"
    by (rule served_run [OF assms(2) initial_service_inv]) (simp add: initial_service_def)
  with inv assms(1) have "served ?st w" by (simp add: service_inv_def)
  with inv assms(1,3) show ?thesis by (simp add: service_inv_def caught_up_def replay_def)
qed

definition all_writes :: throws where
  "all_writes = (\<lambda>w u. False)"

definition sample_service :: "(throws \<times> service_event) list" where
  "sample_service = [(all_writes, Call_Register (sample_register ''A'') ''a'' 10), (all_writes, Call_Watch 20),
     (all_writes, Data_Activity 0 (sample_call ''a'' ''B'' 7 2) 30), (all_writes, Call_Unregister ''a'')]"

theorem watched_streams_replicate_the_store_witness:
  "sv_sent (run_service (initial_service sample_options 0) sample_service) 0 \<noteq> []
   \<and> replica (sv_store (run_service (initial_service sample_options 0) sample_service))
      (replay initialSnapshot (map (\<lambda>u. (u, 99)) (sv_sent (run_service (initial_service sample_options 0) sample_service) 0)))"
proof -
  let ?st = "run_service (initial_service sample_options 0) sample_service"
  have sent: "map tu_type (sv_sent ?st 0) =
      [UPDATE_TYPE_SNAPSHOT, UPDATE_TYPE_NODE_UPDATED, UPDATE_TYPE_EDGE_ADDED,
       UPDATE_TYPE_NODE_REMOVED, UPDATE_TYPE_EDGE_REMOVED]" by code_simp
  have w: "0 \<in> set (sv_watchers ?st)" by code_simp
  have s: "\<forall>(throws, e) \<in> set sample_service. \<forall>u. is_snapshot u \<longrightarrow> \<not> throws 0 u"
    by (simp add: sample_service_def all_writes_def)
  have "replica (sv_store ?st) (replay initialSnapshot (map (\<lambda>u. (u, 99)) (sv_sent ?st 0)))"
    by (rule watched_streams_replicate_the_store [OF w s, THEN conjunct2]) (simp add: comp_def)
  with sent show ?thesis by auto
qed

text \<open>What one activity call reported: the batch sizes of its messages.\<close>

fun reported :: "nat \<Rightarrow> service_event \<Rightarrow> int" where
  "reported call (Data_Activity c event now) = (if c = call then activity_batchSize event else 0)"
| "reported call e = 0"

lemma service_step_accepted:
  "service_inv st \<Longrightarrow> sv_accepted (fst (service_step throws st e)) call = sv_accepted st call + reported call e"
  by (cases e) (auto simp: on_store_parts Let_def case_prod_beta)

lemma run_service_accepted:
  "service_inv st \<Longrightarrow> sv_accepted (run_service st es) call = sv_accepted st call + sum_list (map (reported call \<circ> snd) es)"
proof (induction es arbitrary: st)
  case (Cons p es)
  obtain throws e where p: "p = (throws, e)" by force
  have "run_service st (p # es) = run_service (fst (service_step throws st e)) es"
    by (simp add: run_service_def p)
  with Cons p show ?case by (simp add: service_step_inv service_step_accepted)
qed (simp add: run_service_def)

text \<open>The summary of an activity stream counts every event it carried with its batch size, also those
  of services the store does not know and therefore ignores.\<close>

theorem activity_summary_counts_all:
  "snd (service_step throws (run_service (initial_service options t) es) (End_Activity call)) =
     Activity_Reply True (string_of_int (sum_list (map (reported call \<circ> snd) es)))"
  using run_service_accepted [OF initial_service_inv, of options t es call]
  by (simp add: initial_service_def)

text \<open>A heartbeat of a service that is not registered (any more) is acknowledged like any other, and
  changes nothing.\<close>

theorem unknown_heartbeat_is_acknowledged:
  assumes "hb_serviceId request \<notin> set (map_keys (services (sv_store st)))"
  shows "service_step throws st (Data_Heartbeat request now) =
    (st, Heartbeat_Reply (hb_sequence request) True)"
proof -
  have "map_get (services (sv_store st)) (hb_serviceId request) = None"
    using assms by (simp add: map_of_eq_None_iff)
  then show ?thesis by (simp add: on_store_def recordHeartbeat_def broadcast_def)
qed

theorem unknown_heartbeat_is_acknowledged_witness:
  "service_step all_writes (run_service (initial_service sample_options 0) sample_service)
      (Data_Heartbeat (sample_beat ''a'') 50) =
    (run_service (initial_service sample_options 0) sample_service, Heartbeat_Reply ''1'' True)"
proof -
  have "hb_serviceId (sample_beat ''a'')
      \<notin> set (map_keys (services (sv_store (run_service (initial_service sample_options 0) sample_service))))"
    by code_simp
  from unknown_heartbeat_is_acknowledged [OF this] show ?thesis by (simp add: sample_beat_def)
qed

text \<open>C37.
  Broadcasting reaches every watcher: those whose writes all succeed receive all updates in order
  and stay; one whose write throws keeps what was written before and is dropped, and that is
  never to the detriment of the others.\<close>

theorem broadcast_isolates_failures:
  assumes "w \<in> set (sv_watchers (run_service (initial_service options t) es))"
  shows "(w \<in> set (sv_watchers (broadcast throws us (run_service (initial_service options t) es)))
      \<longleftrightarrow> (\<forall>u \<in> set us. \<not> throws w u))
    \<and> sv_sent (broadcast throws us (run_service (initial_service options t) es)) w =
      sv_sent (run_service (initial_service options t) es) w @ takeWhile (\<lambda>u. \<not> throws w u) us"
proof -
  let ?st = "run_service (initial_service options t) es"
  have "distinct (sv_watchers ?st)" using run_service_inv [of options t es] by (simp add: service_inv_def)
  note b = broadcast_parts [OF this, of throws us]
  have "snd (write_all throws w us) \<longleftrightarrow> (\<forall>u \<in> set us. \<not> throws w u)"
    "fst (write_all throws w us) = takeWhile (\<lambda>u. \<not> throws w u) us"
    by (induction us) (auto split: prod.splits)
  with b assms show ?thesis by simp
qed

theorem broadcast_isolates_failures_witness:
  "0 \<notin> set (sv_watchers (broadcast (\<lambda>w u. w = 0) [snapshot_message initialSnapshot]
      (run_service (initial_service sample_options 0) sample_service)))"
proof -
  have "0 \<in> set (sv_watchers (run_service (initial_service sample_options 0) sample_service))" by code_simp
  from broadcast_isolates_failures [OF this, of "\<lambda>w u. w = 0" "[snapshot_message initialSnapshot]"]
  show ?thesis by simp
qed

end
