(* ===== verification/Topology_Config.thy ===== *)
theory Topology_Config
  imports Js_String Topology_Store
begin

text \<open>
  The command line of the topology stack (\<open>apps/topology/src/config.ts\<close>) and the options it
  gives to the store (\<open>startTopologyService\<close>).  A thrown \<open>Error\<close> is a value of \<open>config_error\<close>.
\<close>

record service_config =
  cf_address :: string
  cf_heartbeatIntervalMs :: int
  cf_timeoutMultiplier :: int
  cf_idleTimeoutMs :: int
  cf_unknownEdgeTimeoutMs :: "int option"
  cf_rpsWindowMs :: "int option"
  cf_activityFlushMs :: int
  cf_nodeUpdateThrottleMs :: int
  cf_sweepIntervalMs :: int

record proxy_config =
  px_grpcAddress :: string
  px_httpPort :: int

record reporter_proxy_config =
  rp_topologyAddress :: string
  rp_httpPort :: int

record stack_config =
  sc_service :: service_config
  sc_topologyProxy :: proxy_config
  sc_reporterProxy :: reporter_proxy_config

datatype config_error =
    Missing_Value string
  | Invalid_Number string string

definition parseNumberArg :: "string \<Rightarrow> string \<Rightarrow> config_error + int" where
  "parseNumberArg value flag =
     (case parseInt value of None \<Rightarrow> Inl (Invalid_Number flag value) | Some parsed \<Rightarrow> Inr parsed)"

text \<open>An absent argument and an empty one are both missing.\<close>

definition requireValue :: "string option \<Rightarrow> string \<Rightarrow> config_error + string" where
  "requireValue value flag =
     (case value of None \<Rightarrow> Inl (Missing_Value flag)
      | Some v \<Rightarrow> if v = [] then Inl (Missing_Value flag) else Inr v)"

definition andThen :: "'e + 'a \<Rightarrow> ('a \<Rightarrow> 'e + 'b) \<Rightarrow> 'e + 'b" where
  "andThen x f = (case x of Inl e \<Rightarrow> Inl e | Inr a \<Rightarrow> f a)"

lemma andThen_simps [simp]: "andThen (Inl e) f = Inl e" "andThen (Inr a) f = f a"
  by (simp_all add: andThen_def)

text \<open>The local variables of \<open>parseTopologyStackArgs\<close>.\<close>

record stack_args =
  sa_service :: service_config
  sa_topologyProxyGrpcAddress :: "string option"
  sa_topologyProxyHttpPort :: int
  sa_reporterProxyTopologyAddress :: "string option"
  sa_reporterProxyHttpPort :: int

definition default_args :: stack_args where
  "default_args =
     \<lparr>sa_service = \<lparr>cf_address = ''127.0.0.1:50053'', cf_heartbeatIntervalMs = 5000,
        cf_timeoutMultiplier = 3, cf_idleTimeoutMs = 30000, cf_unknownEdgeTimeoutMs = None,
        cf_rpsWindowMs = Some 5000, cf_activityFlushMs = 1000, cf_nodeUpdateThrottleMs = 5000,
        cf_sweepIntervalMs = 5000\<rparr>,
      sa_topologyProxyGrpcAddress = None, sa_topologyProxyHttpPort = 50054,
      sa_reporterProxyTopologyAddress = None, sa_reporterProxyHttpPort = 50055\<rparr>"

definition text_arg :: "string option \<Rightarrow> string \<Rightarrow> (string \<Rightarrow> 'a) \<Rightarrow> (config_error + 'a) option" where
  "text_arg value flag put = Some (andThen (requireValue value flag) (\<lambda>v. Inr (put v)))"

definition number_arg :: "string option \<Rightarrow> string \<Rightarrow> (int \<Rightarrow> 'a) \<Rightarrow> (config_error + 'a) option" where
  "number_arg value flag put =
     Some (andThen (requireValue value flag) (\<lambda>v. andThen (parseNumberArg v flag) (\<lambda>n. Inr (put n))))"

text \<open>One turn of the loop: \<open>None\<close> when the word is not a flag of the stack.\<close>

definition apply_flag :: "stack_args \<Rightarrow> string \<Rightarrow> string option \<Rightarrow> (config_error + stack_args) option" where
  "apply_flag a flag value =
     (let service = sa_service a;
          with_service = (\<lambda>s. a\<lparr>sa_service := s\<rparr>) in
      if flag = ''--address'' then
        text_arg value flag (\<lambda>v. with_service (service\<lparr>cf_address := v\<rparr>))
      else if flag = ''--heartbeat-interval-ms'' then
        number_arg value flag (\<lambda>n. with_service (service\<lparr>cf_heartbeatIntervalMs := n\<rparr>))
      else if flag = ''--timeout-multiplier'' then
        number_arg value flag (\<lambda>n. with_service (service\<lparr>cf_timeoutMultiplier := n\<rparr>))
      else if flag = ''--idle-timeout-ms'' then
        number_arg value flag (\<lambda>n. with_service (service\<lparr>cf_idleTimeoutMs := n\<rparr>))
      else if flag = ''--unknown-edge-timeout-ms'' then
        number_arg value flag (\<lambda>n. with_service (service\<lparr>cf_unknownEdgeTimeoutMs := Some n\<rparr>))
      else if flag = ''--rps-window-ms'' then
        number_arg value flag (\<lambda>n. with_service (service\<lparr>cf_rpsWindowMs := Some n\<rparr>))
      else if flag = ''--activity-flush-ms'' then
        number_arg value flag (\<lambda>n. with_service (service\<lparr>cf_activityFlushMs := n\<rparr>))
      else if flag = ''--node-update-throttle-ms'' then
        number_arg value flag (\<lambda>n. with_service (service\<lparr>cf_nodeUpdateThrottleMs := n\<rparr>))
      else if flag = ''--sweep-interval-ms'' then
        number_arg value flag (\<lambda>n. with_service (service\<lparr>cf_sweepIntervalMs := n\<rparr>))
      else if flag = ''--topology-proxy-grpc-address'' then
        text_arg value flag (\<lambda>v. a\<lparr>sa_topologyProxyGrpcAddress := Some v\<rparr>)
      else if flag = ''--topology-proxy-http-port'' then
        number_arg value flag (\<lambda>n. a\<lparr>sa_topologyProxyHttpPort := n\<rparr>)
      else if flag = ''--topology-reporter-topology-address'' then
        text_arg value flag (\<lambda>v. a\<lparr>sa_reporterProxyTopologyAddress := Some v\<rparr>)
      else if flag = ''--topology-reporter-http-port'' then
        number_arg value flag (\<lambda>n. a\<lparr>sa_reporterProxyHttpPort := n\<rparr>)
      else None)"

text \<open>A flag takes the next word as its value, whatever that word is; other words are skipped.\<close>

function parse_args :: "stack_args \<Rightarrow> string list \<Rightarrow> config_error + stack_args" where
  "parse_args a [] = Inr a"
| "parse_args a (flag # rest) =
     (case apply_flag a flag (case rest of [] \<Rightarrow> None | v # _ \<Rightarrow> Some v) of
        None \<Rightarrow> parse_args a rest
      | Some (Inl e) \<Rightarrow> Inl e
      | Some (Inr a') \<Rightarrow> parse_args a' (tl rest))"
  by pat_completeness auto
termination by (relation "measure (\<lambda>(a, xs). length xs)") auto

definition stack_of :: "stack_args \<Rightarrow> stack_config" where
  "stack_of a =
     \<lparr>sc_service = sa_service a,
      sc_topologyProxy =
        \<lparr>px_grpcAddress = nullish (sa_topologyProxyGrpcAddress a) (cf_address (sa_service a)),
         px_httpPort = sa_topologyProxyHttpPort a\<rparr>,
      sc_reporterProxy =
        \<lparr>rp_topologyAddress = nullish (sa_reporterProxyTopologyAddress a) (cf_address (sa_service a)),
         rp_httpPort = sa_reporterProxyHttpPort a\<rparr>\<rparr>"

definition parseTopologyStackArgs :: "string list \<Rightarrow> config_error + stack_config" where
  "parseTopologyStackArgs argv = andThen (parse_args default_args argv) (\<lambda>a. Inr (stack_of a))"

text \<open>The store options \<open>startTopologyService\<close> passes on.\<close>

definition store_options_of :: "service_config \<Rightarrow> store_options" where
  "store_options_of config =
     \<lparr>so_heartbeatIntervalMs = Some (cf_heartbeatIntervalMs config),
      so_timeoutMultiplier = Some (cf_timeoutMultiplier config),
      so_idleTimeoutMs = Some (cf_idleTimeoutMs config),
      so_unknownEdgeTimeoutMs = cf_unknownEdgeTimeoutMs config,
      so_rpsWindowMs = cf_rpsWindowMs config,
      so_activityFlushMs = Some (cf_activityFlushMs config),
      so_nodeUpdateThrottleMs = Some (cf_nodeUpdateThrottleMs config)\<rparr>"

subsection \<open>Parsing known arguments\<close>

lemma requireValue_some [simp]: "v \<noteq> [] \<Longrightarrow> requireValue (Some v) flag = Inr v"
  by (simp add: requireValue_def)

lemma parseNumberArg_int [simp]: "\<bar>n\<bar> \<le> 2 ^ 53 \<Longrightarrow> parseNumberArg (string_of_int n) flag = Inr n"
  using parseInt_string_of_int [of n] by (simp add: parseNumberArg_def)

lemma text_arg_some [simp]: "v \<noteq> [] \<Longrightarrow> text_arg (Some v) flag put = Some (Inr (put v))"
  by (simp add: text_arg_def)

lemma number_arg_int [simp]:
  "\<bar>n\<bar> \<le> 2 ^ 53 \<Longrightarrow> number_arg (Some (string_of_int n)) flag put = Some (Inr (put n))"
  by (simp add: number_arg_def)

text \<open>The arguments that describe a configuration.\<close>

definition config_args :: "stack_config \<Rightarrow> string list" where
  "config_args c =
     (let s = sc_service c in
      [''--address'', cf_address s,
       ''--heartbeat-interval-ms'', string_of_int (cf_heartbeatIntervalMs s),
       ''--timeout-multiplier'', string_of_int (cf_timeoutMultiplier s),
       ''--idle-timeout-ms'', string_of_int (cf_idleTimeoutMs s)]
      @ (case cf_unknownEdgeTimeoutMs s of None \<Rightarrow> []
         | Some n \<Rightarrow> [''--unknown-edge-timeout-ms'', string_of_int n])
      @ [''--rps-window-ms'', string_of_int (nullish (cf_rpsWindowMs s) 5000),
       ''--activity-flush-ms'', string_of_int (cf_activityFlushMs s),
       ''--node-update-throttle-ms'', string_of_int (cf_nodeUpdateThrottleMs s),
       ''--sweep-interval-ms'', string_of_int (cf_sweepIntervalMs s),
       ''--topology-proxy-grpc-address'', px_grpcAddress (sc_topologyProxy c),
       ''--topology-proxy-http-port'', string_of_int (px_httpPort (sc_topologyProxy c)),
       ''--topology-reporter-topology-address'', rp_topologyAddress (sc_reporterProxy c),
       ''--topology-reporter-http-port'', string_of_int (rp_httpPort (sc_reporterProxy c))])"

definition config_ok :: "stack_config \<Rightarrow> bool" where
  "config_ok c \<longleftrightarrow>
     cf_address (sc_service c) \<noteq> [] \<and> px_grpcAddress (sc_topologyProxy c) \<noteq> [] \<and>
     rp_topologyAddress (sc_reporterProxy c) \<noteq> [] \<and> cf_rpsWindowMs (sc_service c) \<noteq> None \<and>
     list_all (\<lambda>n. \<bar>n\<bar> \<le> 2 ^ 53)
       ([cf_heartbeatIntervalMs (sc_service c), cf_timeoutMultiplier (sc_service c),
         cf_idleTimeoutMs (sc_service c), nullish (cf_rpsWindowMs (sc_service c)) 5000,
         cf_activityFlushMs (sc_service c), cf_nodeUpdateThrottleMs (sc_service c),
         cf_sweepIntervalMs (sc_service c), px_httpPort (sc_topologyProxy c),
         rp_httpPort (sc_reporterProxy c), nullish (cf_unknownEdgeTimeoutMs (sc_service c)) 0])"

lemma parse_args_pair:
  "apply_flag a flag (Some v) = Some (Inr a') \<Longrightarrow> parse_args a (flag # v # rest) = parse_args a' rest"
  by simp

lemma parse_config_args:
  assumes "config_ok c"
  shows "parse_args a (config_args c) = Inr
    \<lparr>sa_service = (sc_service c)\<lparr>cf_unknownEdgeTimeoutMs :=
       (case cf_unknownEdgeTimeoutMs (sc_service c) of
          None \<Rightarrow> cf_unknownEdgeTimeoutMs (sa_service a) | Some n \<Rightarrow> Some n)\<rparr>,
     sa_topologyProxyGrpcAddress = Some (px_grpcAddress (sc_topologyProxy c)),
     sa_topologyProxyHttpPort = px_httpPort (sc_topologyProxy c),
     sa_reporterProxyTopologyAddress = Some (rp_topologyAddress (sc_reporterProxy c)),
     sa_reporterProxyHttpPort = rp_httpPort (sc_reporterProxy c)\<rparr>"
  using assms
  by (cases "cf_unknownEdgeTimeoutMs (sc_service c)")
     (auto simp: config_args_def config_ok_def Let_def parse_args_pair apply_flag_def simp del: parse_args.simps(2))

text \<open>C38.
  Every configuration with non-empty addresses and numbers a double holds exactly can be given on
  the command line: parsing the flags that describe it returns it.\<close>

theorem config_roundtrip:
  assumes "config_ok c"
  shows "parseTopologyStackArgs (config_args c) = Inr c"
  using parse_config_args [OF assms, of default_args]
  by (cases "cf_unknownEdgeTimeoutMs (sc_service c)") (auto simp: parseTopologyStackArgs_def stack_of_def default_args_def)

definition sample_config :: stack_config where
  "sample_config =
     \<lparr>sc_service = (sa_service default_args)\<lparr>cf_address := ''h:1'', cf_unknownEdgeTimeoutMs := Some 0,
        cf_idleTimeoutMs := - 7\<rparr>,
      sc_topologyProxy = \<lparr>px_grpcAddress = ''g:2'', px_httpPort = 80\<rparr>,
      sc_reporterProxy = \<lparr>rp_topologyAddress = ''r:3'', rp_httpPort = 81\<rparr>\<rparr>"

theorem config_roundtrip_witness:
  "parseTopologyStackArgs (config_args sample_config) = Inr sample_config"
  by (rule config_roundtrip) (simp add: sample_config_def config_ok_def default_args_def)

subsection \<open>The meaning of a command line\<close>

text \<open>
  Independent of the order in which the loop fills its variables: the flags with the words that
  follow them, the first of them that is faulty, and for each flag its last value.
\<close>

definition text_flags :: "string list" where
  "text_flags = [''--address'', ''--topology-proxy-grpc-address'', ''--topology-reporter-topology-address'']"

definition number_flags :: "string list" where
  "number_flags = [''--heartbeat-interval-ms'', ''--timeout-multiplier'', ''--idle-timeout-ms'',
     ''--unknown-edge-timeout-ms'', ''--rps-window-ms'', ''--activity-flush-ms'',
     ''--node-update-throttle-ms'', ''--sweep-interval-ms'', ''--topology-proxy-http-port'',
     ''--topology-reporter-http-port'']"

function flag_values :: "string list \<Rightarrow> (string \<times> string option) list" where
  "flag_values [] = []"
| "flag_values (w # rest) =
     (if w \<in> set text_flags \<or> w \<in> set number_flags
      then (w, case rest of [] \<Rightarrow> None | v # _ \<Rightarrow> Some v) # flag_values (tl rest)
      else flag_values rest)"
  by pat_completeness auto
termination by (relation "measure length") auto

definition value_fault :: "string \<times> string option \<Rightarrow> config_error option" where
  "value_fault p =
     (if snd p = None \<or> snd p = Some [] then Some (Missing_Value (fst p))
      else if fst p \<in> set number_flags \<and> parseInt (the (snd p)) = None
      then Some (Invalid_Number (fst p) (the (snd p)))
      else None)"

fun first_fault :: "(string \<times> string option) list \<Rightarrow> config_error option" where
  "first_fault [] = None"
| "first_fault (p # ps) = (case value_fault p of Some e \<Rightarrow> Some e | None \<Rightarrow> first_fault ps)"

definition last_text :: "(string \<times> string option) list \<Rightarrow> string \<Rightarrow> string option" where
  "last_text ps flag = Option.bind (map_of (rev ps) flag) (\<lambda>v. v)"

definition last_number :: "(string \<times> string option) list \<Rightarrow> string \<Rightarrow> int option" where
  "last_number ps flag = Option.bind (last_text ps flag) parseInt"

definition later :: "'a option \<Rightarrow> 'a option \<Rightarrow> 'a option" where
  "later x y = (case x of None \<Rightarrow> y | Some v \<Rightarrow> Some v)"

definition filled :: "stack_args \<Rightarrow> (string \<times> string option) list \<Rightarrow> stack_args" where
  "filled a ps =
     (let s = sa_service a; num = (\<lambda>flag d. nullish (last_number ps flag) d);
          opt = (\<lambda>flag d. later (last_number ps flag) d); txt = (\<lambda>flag d. later (last_text ps flag) d) in
      \<lparr>sa_service = \<lparr>cf_address = nullish (last_text ps ''--address'') (cf_address s),
         cf_heartbeatIntervalMs = num ''--heartbeat-interval-ms'' (cf_heartbeatIntervalMs s),
         cf_timeoutMultiplier = num ''--timeout-multiplier'' (cf_timeoutMultiplier s),
         cf_idleTimeoutMs = num ''--idle-timeout-ms'' (cf_idleTimeoutMs s),
         cf_unknownEdgeTimeoutMs = opt ''--unknown-edge-timeout-ms'' (cf_unknownEdgeTimeoutMs s),
         cf_rpsWindowMs = opt ''--rps-window-ms'' (cf_rpsWindowMs s),
         cf_activityFlushMs = num ''--activity-flush-ms'' (cf_activityFlushMs s),
         cf_nodeUpdateThrottleMs = num ''--node-update-throttle-ms'' (cf_nodeUpdateThrottleMs s),
         cf_sweepIntervalMs = num ''--sweep-interval-ms'' (cf_sweepIntervalMs s)\<rparr>,
       sa_topologyProxyGrpcAddress = txt ''--topology-proxy-grpc-address'' (sa_topologyProxyGrpcAddress a),
       sa_topologyProxyHttpPort = num ''--topology-proxy-http-port'' (sa_topologyProxyHttpPort a),
       sa_reporterProxyTopologyAddress =
         txt ''--topology-reporter-topology-address'' (sa_reporterProxyTopologyAddress a),
       sa_reporterProxyHttpPort = num ''--topology-reporter-http-port'' (sa_reporterProxyHttpPort a)\<rparr>)"

lemma apply_flag_unknown:
  "apply_flag a w v = None \<longleftrightarrow> \<not> (w \<in> set text_flags \<or> w \<in> set number_flags)"
  by (simp add: apply_flag_def Let_def text_arg_def number_arg_def text_flags_def number_flags_def)

lemma apply_flag_fault:
  "apply_flag a w v = Some (Inl e) \<Longrightarrow> value_fault (w, v) = Some e"
  by (auto simp: apply_flag_def Let_def text_arg_def number_arg_def value_fault_def number_flags_def
      requireValue_def parseNumberArg_def split: if_splits option.splits)

lemma apply_flag_fine:
  "apply_flag a w v = Some (Inr a') \<Longrightarrow> value_fault (w, v) = None"
  by (auto simp: apply_flag_def Let_def text_arg_def number_arg_def value_fault_def number_flags_def
      requireValue_def parseNumberArg_def split: if_splits option.splits)

lemma last_Cons [simp]:
  "last_text ((w, v) # ps) flag =
     (case last_text ps flag of Some x \<Rightarrow> Some x
      | None \<Rightarrow> if map_of (rev ps) flag = None \<and> w = flag then v else None)"
  by (auto simp: last_text_def map_add_def split: option.splits)

lemma no_fault_value: "first_fault ps = None \<Longrightarrow> map_of (rev ps) flag = Some v \<Longrightarrow>
    v \<noteq> None \<and> (flag \<in> set number_flags \<longrightarrow> parseInt (the v) \<noteq> None)"
  by (induction ps) (auto simp: map_add_def value_fault_def split: option.splits if_splits)

lemma last_text_step:
  "first_fault ps = None \<Longrightarrow>
   last_text ((w, Some v) # ps) flag =
     later (last_text ps flag) (if w = flag then Some v else None)"
  using no_fault_value [of ps flag] by (auto simp: later_def last_text_def map_add_def split: option.splits)

lemma last_number_step:
  "first_fault ps = None \<Longrightarrow> flag \<in> set number_flags \<Longrightarrow>
   last_number ((w, Some v) # ps) flag =
     later (last_number ps flag) (if w = flag then parseInt v else None)"
  using no_fault_value [of ps flag]
  by (auto simp: later_def last_number_def last_text_def map_add_def split: option.splits)

lemma number_flags_known [simp]:
  "''--heartbeat-interval-ms'' \<in> set number_flags" "''--timeout-multiplier'' \<in> set number_flags"
  "''--idle-timeout-ms'' \<in> set number_flags" "''--unknown-edge-timeout-ms'' \<in> set number_flags"
  "''--rps-window-ms'' \<in> set number_flags" "''--activity-flush-ms'' \<in> set number_flags"
  "''--node-update-throttle-ms'' \<in> set number_flags" "''--sweep-interval-ms'' \<in> set number_flags"
  "''--topology-proxy-http-port'' \<in> set number_flags" "''--topology-reporter-http-port'' \<in> set number_flags"
  by (simp_all add: number_flags_def)

lemma text_arg_iff: "text_arg (Some v) flag put = Some (Inr a') \<longleftrightarrow> v \<noteq> [] \<and> a' = put v"
  by (auto simp: text_arg_def requireValue_def)

lemma number_arg_iff:
  "number_arg (Some v) flag put = Some (Inr a') \<longleftrightarrow> (\<exists>n. v \<noteq> [] \<and> parseInt v = Some n \<and> a' = put n)"
  by (auto simp: number_arg_def requireValue_def parseNumberArg_def split: option.splits)

lemma later_value:
  "later x None = x" "nullish (later x (Some n)) d = nullish x n" "later (later x (Some n)) e = later x (Some n)"
  by (cases x; simp add: later_def)+

lemma filled_step:
  assumes "first_fault ps = None" "apply_flag a w (Some v) = Some (Inr a')"
  shows "filled a' ps = filled a ((w, Some v) # ps)"
proof -
  have "w \<in> set (text_flags @ number_flags)" using assms(2) apply_flag_unknown [of a w "Some v"] by auto
  then show ?thesis
    using assms(2) unfolding text_flags_def number_flags_def append.simps set_simps insert_iff empty_iff
    by (elim disjE FalseE; hypsubst; simp add: apply_flag_def Let_def text_arg_iff number_arg_iff; elim exE conjE;
        simp del: last_Cons add: filled_def Let_def last_text_step [OF assms(1)]
          last_number_step [OF assms(1)] later_value)
qed

lemma filled_Nil: "filled a [] = a"
  by (simp add: filled_def last_number_def last_text_def later_def Let_def)

lemma parse_args_meaning:
  "parse_args a argv =
     (case first_fault (flag_values argv) of Some e \<Rightarrow> Inl e | None \<Rightarrow> Inr (filled a (flag_values argv)))"
proof (induction a argv rule: parse_args.induct)
  case (2 a w rest)
  let ?v = "case rest of [] \<Rightarrow> None | v # _ \<Rightarrow> Some v"
  show ?case
  proof (cases "apply_flag a w ?v")
    case None
    then have "\<not> (w \<in> set text_flags \<or> w \<in> set number_flags)" using apply_flag_unknown by blast
    then have "flag_values (w # rest) = flag_values rest" by simp
    with 2(1) None show ?thesis by (simp only: parse_args.simps option.case)
  next
    case (Some res)
    then have known: "w \<in> set text_flags \<or> w \<in> set number_flags"
      using apply_flag_unknown [of a w ?v] by auto
    show ?thesis
    proof (cases res)
      case (Inl e)
      with Some known show ?thesis using apply_flag_fault [of a w ?v e] by auto
    next
      case (Inr a')
      with Some have fine: "value_fault (w, ?v) = None" using apply_flag_fine by blast
      then obtain v where v: "?v = Some v" by (auto simp: value_fault_def split: if_splits)
      have "parse_args a (w # rest) = parse_args a' (tl rest)" using Some Inr by simp
      also have "\<dots> = (case first_fault (flag_values (tl rest)) of Some e \<Rightarrow> Inl e
          | None \<Rightarrow> Inr (filled a' (flag_values (tl rest))))"
        using 2(2) Some Inr by blast
      also have "\<dots> = (case first_fault (flag_values (w # rest)) of Some e \<Rightarrow> Inl e
          | None \<Rightarrow> Inr (filled a (flag_values (w # rest))))"
        using known fine v filled_step [of "flag_values (tl rest)" a w v a'] Some Inr
        by (auto split: option.splits)
      finally show ?thesis .
    qed
  qed
qed (simp add: filled_Nil)

text \<open>
  What a command line means: the flags are read with the words that follow them; the first flag
  whose value is absent, empty or not a number is reported; otherwise each setting is the last
  value given for it or its default, and both proxies default to the service's final address,
  wherever on the line that was given.\<close>

theorem command_line_meaning:
  "parseTopologyStackArgs argv =
     (case first_fault (flag_values argv) of
        Some e \<Rightarrow> Inl e
      | None \<Rightarrow> Inr (stack_of (filled default_args (flag_values argv))))"
  by (simp add: parseTopologyStackArgs_def parse_args_meaning split: option.splits)

text \<open>A number is read up to the first character that is not a digit, so a value with a unit passes
  as the bare number: an idle timeout of ``30s'' is thirty milliseconds.\<close>

theorem number_suffix_is_dropped:
  assumes "int n \<le> 2 ^ 53" "\<not> is_digit c"
  shows "parseTopologyStackArgs [''--idle-timeout-ms'', string_of_nat n @ c # suffix] =
    Inr (stack_of (default_args\<lparr>sa_service := (sa_service default_args)\<lparr>cf_idleTimeoutMs := int n\<rparr>\<rparr>))"
proof -
  have "parseInt (string_of_nat n @ c # suffix) = parseInt (string_of_nat n)"
    using assms(2) by (rule parseInt_append)
  then have "parseInt (string_of_nat n @ c # suffix) = Some (int n)"
    using assms(1) by (simp add: parseInt_string_of_nat)
  then show ?thesis
    by (simp add: parseTopologyStackArgs_def apply_flag_def Let_def number_arg_def requireValue_def
        parseNumberArg_def)
qed

theorem number_suffix_is_dropped_witness:
  "map_sum id (\<lambda>c. cf_idleTimeoutMs (sc_service c)) (parseTopologyStackArgs [''--idle-timeout-ms'', ''30s'']) = Inr 30"
proof -
  have "string_of_nat 30 @ CHR ''s'' # [] = ''30s''" by code_simp
  moreover have "\<not> is_digit (CHR ''s'')" by code_simp
  ultimately show ?thesis
    using number_suffix_is_dropped [of 30 "CHR ''s''" "[]"] by (simp add: stack_of_def)
qed

end
