(* ===== verification/Utf8_Text.thy ===== *)
theory Utf8_Text
  imports Runtime_Prelude
begin

text \<open>
  \<open>Buffer.toString\<close> of Node: the text that a piece of a byte stream decodes to, as the scripts and the
  supervisor apply it to every chunk of a child's output.  A chunk is a list of bytes.  A text is kept
  as its UTF-8 encoding, so decoding changes a chunk only where it is malformed: there every longest
  prefix of a character, and every byte that begins none, becomes U+FFFD, whose encoding is
  \<open>EF BF BD\<close> (the decoder of the Encoding standard).  A character that is cut between two chunks is
  therefore lost in both.
\<close>

subsection \<open>The decoder\<close>

definition replacement :: string where
  "replacement = [CHR 0xEF, CHR 0xBF, CHR 0xBD]"

text \<open>The bytes of the character being read, how many are missing, and the range of the next one.\<close>

type_synonym utf8_state = "string \<times> nat \<times> nat \<times> nat"

abbreviation between_chars :: utf8_state where
  "between_chars \<equiv> ([], 0, 0, 0)"

definition utf8_lead :: "char \<Rightarrow> string \<times> utf8_state" where
  "utf8_lead c =
     (let b = (of_char c :: nat) in
      if b \<le> 0x7F then ([c], between_chars)
      else if 0xC2 \<le> b \<and> b \<le> 0xDF then ([], [c], 1, 0x80, 0xBF)
      else if 0xE0 \<le> b \<and> b \<le> 0xEF then
        ([], [c], 2, if b = 0xE0 then 0xA0 else 0x80, if b = 0xED then 0x9F else 0xBF)
      else if 0xF0 \<le> b \<and> b \<le> 0xF4 then
        ([], [c], 3, if b = 0xF0 then 0x90 else 0x80, if b = 0xF4 then 0x8F else 0xBF)
      else (replacement, between_chars))"

definition utf8_byte :: "utf8_state \<Rightarrow> char \<Rightarrow> string \<times> utf8_state" where
  "utf8_byte st c =
     (case st of (read, missing, lower, upper) \<Rightarrow>
        if missing = 0 then utf8_lead c
        else if lower \<le> (of_char c :: nat) \<and> (of_char c :: nat) \<le> upper then
          (if missing = 1 then (read @ [c], between_chars) else ([], read @ [c], missing - 1, 0x80, 0xBF))
        else (case utf8_lead c of (out, st') \<Rightarrow> (replacement @ out, st')))"

fun utf8_scan :: "utf8_state \<Rightarrow> string \<Rightarrow> string \<times> utf8_state" where
  "utf8_scan st [] = ([], st)"
| "utf8_scan st (c # s) =
     (let (out, st') = utf8_byte st c; (rest, st'') = utf8_scan st' s in (out @ rest, st''))"

text \<open>What the scan leaves unfinished at the end of the chunk.\<close>

definition utf8_text :: "string \<Rightarrow> string" where
  "utf8_text chunk =
     (let (out, read, missing, lower, upper) = utf8_scan between_chars chunk
      in if missing = 0 then out else out @ replacement)"

text \<open>The chunk ends where a character ends.\<close>

definition ends_between :: "string \<Rightarrow> bool" where
  "ends_between chunk \<longleftrightarrow> snd (utf8_scan between_chars chunk) = between_chars"

subsection \<open>Decoding in pieces\<close>

lemma utf8_scan_append:
  "utf8_scan st (a @ b) =
     (fst (utf8_scan st a) @ fst (utf8_scan (snd (utf8_scan st a)) b), snd (utf8_scan (snd (utf8_scan st a)) b))"
  by (induction a arbitrary: st) (simp_all add: case_prod_beta Let_def)

lemma utf8_text_append: "ends_between a \<Longrightarrow> utf8_text (a @ b) = utf8_text a @ utf8_text b"
  by (simp add: utf8_text_def ends_between_def utf8_scan_append case_prod_beta Let_def)

lemma utf8_text_Nil [simp]: "utf8_text [] = []"
  by (simp add: utf8_text_def)

text \<open>Chunks that are cut between characters decode to what the whole text decodes to.\<close>

lemma utf8_text_concat: "list_all ends_between (butlast chunks) \<Longrightarrow> concat (map utf8_text chunks) = utf8_text (concat chunks)"
proof (induction chunks)
  case (Cons c cs)
  then show ?case by (cases cs) (simp_all add: utf8_text_append)
qed simp

lemma ascii_scan: "list_all (\<lambda>c. (of_char c :: nat) \<le> 0x7F) s \<Longrightarrow> utf8_scan between_chars s = (s, between_chars)"
  by (induction s) (simp_all add: utf8_byte_def utf8_lead_def Let_def)

lemma ascii_text: "list_all (\<lambda>c. (of_char c :: nat) \<le> 0x7F) s \<Longrightarrow> utf8_text s = s \<and> ends_between s"
  by (simp add: utf8_text_def ends_between_def ascii_scan)

text \<open>A character in one piece, and cut in two.\<close>

lemma utf8_examples:
  "utf8_text [CHR 0xE2, CHR 0x86, CHR 0x92] = [CHR 0xE2, CHR 0x86, CHR 0x92]"
  "utf8_text [CHR 0xE2, CHR 0x86] = replacement" "utf8_text [CHR 0x92] = replacement"
  "ends_between [CHR 0xE2, CHR 0x86, CHR 0x92]" "\<not> ends_between [CHR 0xE2, CHR 0x86]"
  by code_simp+

end
