(* ===== verification/Supervisor.thy ===== *)
theory Supervisor
  imports Runtime_Prelude Js_String Utf8_Text
begin

text \<open>
  The process supervisor (\<open>apps/supervisor/src/supervisor.tsx\<close>): the service entries, the child
  processes they start, the restart timers, the two bounded logs, the keys and the shutdown.

  A child process is known by a number, its handle; \<open>su_live\<close> holds the processes that were
  started and have not ended, with the index of the service whose listeners they carry.  A restart
  timer is armed as long as it is in \<open>su_timers\<close>.  \<open>now\<close> is the timestamp of the step.
\<close>

datatype service_status = Idle | Starting | Running | WaitingRestart | Restarting | Stopped | Failed

datatype restart_policy = Never | On_Failure | Always

record sup_config =
  co_name :: string
  co_restart :: "restart_policy option"
  co_maxRestarts :: "int option"
  co_restartDelay :: "int option"
  co_restartOnUnexpectedExit :: "bool option"
  co_logColor :: "string option"

record service_entry =
  en_config :: sup_config
  en_process :: "nat option"
  en_restarts :: int
  en_lastExitCode :: "int option"
  en_status :: service_status
  en_statusMessage :: "string option"
  en_shuttingDown :: bool
  en_pendingRestart :: "nat option"

record event_entry =
  ev_timestamp :: string
  ev_message :: string

datatype output_stream = Stdout | Stderr

record output_entry =
  ou_timestamp :: string
  ou_serviceName :: string
  ou_stream :: output_stream
  ou_message :: string
  ou_color :: string

datatype kill_signal = SIGTERM | SIGKILL

datatype view_mode = Snapshot_Mode | Live_Mode

record supervisor =
  su_services :: "service_entry list"
  su_eventLog :: "event_entry list"
  su_outputLog :: "output_entry list"
  su_shuttingDown :: bool
  su_timers :: "(nat \<times> nat) list"
  su_nextTimer :: nat
  su_live :: "(nat \<times> nat) list"
  su_nextProcess :: nat
  su_kills :: "(nat \<times> kill_signal) list"
  su_running :: "nat list"
  su_exitListeners :: "nat list"
  su_remaining :: int
  su_forceTimer :: bool
  su_mode :: view_mode
  su_exit :: "int option"

subsection \<open>Logs\<close>

definition push_bounded :: "nat \<Rightarrow> 'a \<Rightarrow> 'a list \<Rightarrow> 'a list" where
  "push_bounded limit x xs = (let xs = xs @ [x] in if length xs > limit then tl xs else xs)"

definition pushEvent :: "string \<Rightarrow> string \<Rightarrow> supervisor \<Rightarrow> supervisor" where
  "pushEvent now message s =
     s\<lparr>su_eventLog := push_bounded 8 \<lparr>ev_timestamp = now, ev_message = message\<rparr> (su_eventLog s)\<rparr>"

definition output_color :: "sup_config \<Rightarrow> output_stream \<Rightarrow> string" where
  "output_color config stream =
     (let c = nullish (co_logColor config) [] in
      if c \<noteq> [] then c else if stream = Stderr then ''red'' else ''green'')"

definition output_line :: "string \<Rightarrow> sup_config \<Rightarrow> output_stream \<Rightarrow> string \<Rightarrow> output_entry" where
  "output_line now config stream message =
     \<lparr>ou_timestamp = now, ou_serviceName = co_name config, ou_stream = stream, ou_message = message,
      ou_color = output_color config stream\<rparr>"

definition pushOutput :: "string \<Rightarrow> nat \<Rightarrow> output_stream \<Rightarrow> string \<Rightarrow> supervisor \<Rightarrow> supervisor" where
  "pushOutput now i stream message s =
     s\<lparr>su_outputLog := push_bounded 40 (output_line now (en_config (su_services s ! i)) stream message) (su_outputLog s)\<rparr>"

text \<open>\<open>text.split(/\\r?\\n/)\<close>: every line but the last loses one carriage return at its end.\<close>

definition drop_cr :: "string \<Rightarrow> string" where
  "drop_cr l = (if l \<noteq> [] \<and> last l = CHR 0x0D then butlast l else l)"

definition split_lines :: "string \<Rightarrow> string list" where
  "split_lines text = (let ls = split_on (CHR 0x0A) text in map drop_cr (butlast ls) @ [last ls])"

definition logServiceOutput :: "string \<Rightarrow> nat \<Rightarrow> string \<Rightarrow> output_stream \<Rightarrow> supervisor \<Rightarrow> supervisor" where
  "logServiceOutput now i chunk stream s =
     foldl (\<lambda>s rawLine. if rawLine = [] then s else pushOutput now i stream rawLine s) s (split_lines (utf8_text chunk))"

subsection \<open>Starting and restarting\<close>

definition with_service :: "nat \<Rightarrow> (service_entry \<Rightarrow> service_entry) \<Rightarrow> supervisor \<Rightarrow> supervisor" where
  "with_service i f s = s\<lparr>su_services := (su_services s)[i := f (su_services s ! i)]\<rparr>"

definition service_name :: "supervisor \<Rightarrow> nat \<Rightarrow> string" where
  "service_name s i = co_name (en_config (su_services s ! i))"

text \<open>\<open>clearTimeout(service.pendingRestart)\<close> when there is one.\<close>

definition clear_pending :: "nat \<Rightarrow> supervisor \<Rightarrow> supervisor" where
  "clear_pending i s =
     (case en_pendingRestart (su_services s ! i) of
        None \<Rightarrow> s
      | Some t \<Rightarrow> s\<lparr>su_timers := filter (\<lambda>(t', i'). t' \<noteq> t) (su_timers s)\<rparr>)"

definition startService :: "string \<Rightarrow> nat \<Rightarrow> supervisor \<Rightarrow> supervisor" where
  "startService now i s =
     (let s = with_service i (\<lambda>e. e\<lparr>en_pendingRestart := None\<rparr>) (clear_pending i s);
          s = with_service i (\<lambda>e. e\<lparr>en_shuttingDown := False, en_status := Starting,
                                   en_statusMessage := Some ''launching''\<rparr>) s;
          s = pushEvent now (''Starting '' @ service_name s i) s;
          p = su_nextProcess s;
          s = s\<lparr>su_nextProcess := Suc p, su_live := su_live s @ [(p, i)]\<rparr>
      in with_service i (\<lambda>e. e\<lparr>en_process := Some p\<rparr>) s)"

definition scheduleRestart :: "string \<Rightarrow> nat \<Rightarrow> int \<Rightarrow> string \<Rightarrow> supervisor \<Rightarrow> supervisor" where
  "scheduleRestart now i delayMs reason s =
     (let s = clear_pending i s;
          s = with_service i (\<lambda>e. e\<lparr>en_status := WaitingRestart,
                en_statusMessage := Some (''waiting '' @ string_of_int delayMs @ ''ms before restart ('' @ reason @ '')'')\<rparr>) s;
          s = pushEvent now (''Service '' @ service_name s i @ '' will restart in '' @ string_of_int delayMs
                @ ''ms ('' @ reason @ '')'') s;
          t = su_nextTimer s;
          s = s\<lparr>su_nextTimer := Suc t, su_timers := su_timers s @ [(t, i)]\<rparr>
      in with_service i (\<lambda>e. e\<lparr>en_pendingRestart := Some t\<rparr>) s)"

text \<open>The callback of the restart timer of service \<open>i\<close>; the timer itself is spent.\<close>

definition restart_due :: "string \<Rightarrow> nat \<Rightarrow> supervisor \<Rightarrow> supervisor" where
  "restart_due now i s =
     (let s = with_service i (\<lambda>e. e\<lparr>en_pendingRestart := None\<rparr>) s in
      if su_shuttingDown s
      then pushEvent now (''Supervisor is shutting down; skipping restart for '' @ service_name s i) s
      else
        (let s = with_service i (\<lambda>e. e\<lparr>en_status := Restarting, en_statusMessage := Some ''restarting now''\<rparr>) s;
             s = pushEvent now (''Restarting '' @ service_name s i) s
         in startService now i s))"

definition determineRestartDecision :: "service_entry \<Rightarrow> bool \<times> string option" where
  "determineRestartDecision e =
     (let policy = nullish (co_restart (en_config e)) Never;
          maxRestarts = nullish (co_maxRestarts (en_config e)) 5 in
      if en_restarts e \<ge> maxRestarts
      then (False, Some (''max restarts ('' @ string_of_int maxRestarts @ '') reached''))
      else if policy = Always then (True, None)
      else if policy = On_Failure then
        (if nullish (en_lastExitCode e) (- 1) = 0 then (False, Some ''clean exit (exit code 0)'') else (True, None))
      else (False, Some ''restart policy set to never''))"

definition exitDescription :: "int option \<Rightarrow> string option \<Rightarrow> string" where
  "exitDescription code signal =
     (if nullish signal [] \<noteq> [] then ''signal '' @ nullish signal []
      else ''exit code '' @ (case code of None \<Rightarrow> ''unknown'' | Some c \<Rightarrow> string_of_int c))"

definition handleExit :: "string \<Rightarrow> nat \<Rightarrow> int option \<Rightarrow> string option \<Rightarrow> supervisor \<Rightarrow> supervisor" where
  "handleExit now i code signal s =
     (let s = with_service i (\<lambda>e. e\<lparr>en_process := None, en_lastExitCode := code\<rparr>) s;
          what = exitDescription code signal;
          name = service_name s i in
      if en_shuttingDown (su_services s ! i) \<or> su_shuttingDown s then
        pushEvent now (''Service '' @ name @ '' stopped ('' @ what @ '')'')
          (with_service i (\<lambda>e. e\<lparr>en_status := Stopped, en_statusMessage := Some (''stopped ('' @ what @ '')'')\<rparr>) s)
      else
        (let s = with_service i (\<lambda>e. e\<lparr>en_status := Stopped,
                   en_statusMessage := Some (''unexpectedly exited ('' @ what @ '')'')\<rparr>) s;
             s = pushEvent now (''Service '' @ name @ '' exited unexpectedly ('' @ what @ '')'') s;
             e = su_services s ! i in
         if \<not> nullish (co_restartOnUnexpectedExit (en_config e)) True
         then pushEvent now (''Restart disabled for '' @ name @ '' (restartOnUnexpectedExit=false)'') s
         else
           (let (allow, reason) = determineRestartDecision e in
            if \<not> allow
            then pushEvent now (''Restart prevented for '' @ name @ '': '' @ nullish reason ''policy prevented restart'') s
            else scheduleRestart now i (nullish (co_restartDelay (en_config e)) 2000) what
                   (with_service i (\<lambda>e. e\<lparr>en_restarts := en_restarts e + 1\<rparr>) s))))"

definition handleSpawnError :: "string \<Rightarrow> nat \<Rightarrow> string \<Rightarrow> supervisor \<Rightarrow> supervisor" where
  "handleSpawnError now i message s =
     pushEvent now (''Service '' @ service_name s i @ '' failed to start: '' @ message)
       (with_service i (\<lambda>e. e\<lparr>en_status := Failed, en_statusMessage := Some message\<rparr>) s)"

definition process_spawned :: "string \<Rightarrow> nat \<Rightarrow> int option \<Rightarrow> supervisor \<Rightarrow> supervisor" where
  "process_spawned now i pid s =
     (let text = (case pid of None \<Rightarrow> ''-'' | Some n \<Rightarrow> string_of_int n);
          s = with_service i (\<lambda>e. e\<lparr>en_status := Running, en_statusMessage := Some (''running (pid '' @ text @ '')'')\<rparr>) s
      in pushEvent now (''Service '' @ service_name s i @ '' is running (pid '' @ text @ '')'') s)"

definition startAllServices :: "string \<Rightarrow> supervisor \<Rightarrow> supervisor" where
  "startAllServices now s = foldl (\<lambda>s i. startService now i s) s [0..<length (su_services s)]"

subsection \<open>Stopping\<close>

definition kill :: "nat \<Rightarrow> kill_signal \<Rightarrow> supervisor \<Rightarrow> supervisor" where
  "kill p signal s = s\<lparr>su_kills := su_kills s @ [(p, signal)]\<rparr>"

definition stopService :: "string \<Rightarrow> nat \<Rightarrow> supervisor \<Rightarrow> supervisor" where
  "stopService now i s =
     (let s = with_service i (\<lambda>e. e\<lparr>en_pendingRestart := None\<rparr>) (clear_pending i s);
          s = with_service i (\<lambda>e. e\<lparr>en_shuttingDown := True\<rparr>) s
      in case en_process (su_services s ! i) of
           Some p \<Rightarrow> pushEvent now (''Stopped '' @ service_name s i) (kill p SIGTERM s)
         | None \<Rightarrow> pushEvent now (''Service '' @ service_name s i @ '' is not running'') s)"

text \<open>One turn of the loop over the running services: the process gets a second exit listener.\<close>

definition shutdown_one :: "supervisor \<Rightarrow> nat \<Rightarrow> supervisor" where
  "shutdown_one s i =
     (let s = with_service i (\<lambda>e. e\<lparr>en_shuttingDown := True\<rparr>) s;
          s = with_service i (\<lambda>e. e\<lparr>en_pendingRestart := None\<rparr>) (clear_pending i s)
      in case en_process (su_services s ! i) of
           None \<Rightarrow> s
         | Some p \<Rightarrow> kill p SIGTERM (s\<lparr>su_exitListeners := su_exitListeners s @ [p]\<rparr>))"

definition process_exit :: "int \<Rightarrow> supervisor \<Rightarrow> supervisor" where
  "process_exit code s = s\<lparr>su_exit := Some code\<rparr>"

definition running_services :: "supervisor \<Rightarrow> nat list" where
  "running_services s = filter (\<lambda>i. en_process (su_services s ! i) \<noteq> None) [0..<length (su_services s)]"

definition shutdownSupervisor :: "string \<Rightarrow> string \<Rightarrow> supervisor \<Rightarrow> supervisor" where
  "shutdownSupervisor now signal s =
     (if su_shuttingDown s then s
      else
        (let s = pushEvent now (''Supervisor received '' @ signal @ ''; shutting down services'')
                   (s\<lparr>su_shuttingDown := True\<rparr>);
             runningServices = running_services s;
             s = s\<lparr>su_running := runningServices, su_remaining := int (length runningServices)\<rparr>
         in if runningServices = []
            then process_exit 0 (pushEvent now ''No services running, supervisor exiting'' s)
            else (foldl shutdown_one s runningServices)\<lparr>su_forceTimer := True\<rparr>))"

text \<open>The exit listener that \<open>shutdownSupervisor\<close> adds to a process.\<close>

definition shutdown_exit_listener :: "string \<Rightarrow> nat \<Rightarrow> supervisor \<Rightarrow> supervisor" where
  "shutdown_exit_listener now i s =
     (let s = s\<lparr>su_remaining := su_remaining s - 1\<rparr>;
          s = pushEvent now (''Service '' @ service_name s i @ '' stopped'') s
      in if su_remaining s = 0
         then process_exit 0 (pushEvent now ''All services stopped, supervisor exiting'' s) else s)"

definition force_shutdown :: "string \<Rightarrow> supervisor \<Rightarrow> supervisor" where
  "force_shutdown now s =
     (if su_remaining s > 0 then
        process_exit 0
          (foldl (\<lambda>s i. case en_process (su_services s ! i) of None \<Rightarrow> s | Some p \<Rightarrow> kill p SIGKILL s)
             (pushEvent now ''Force killing remaining services'' s) (su_running s))
      else s)"

subsection \<open>Keys and events\<close>

definition restart_all :: "string \<Rightarrow> supervisor \<Rightarrow> supervisor" where
  "restart_all now s =
     foldl (\<lambda>s i. case en_process (su_services s ! i) of None \<Rightarrow> s | Some p \<Rightarrow> kill p SIGTERM s)
       (pushEvent now ''Manual restart of all services triggered'' s) [0..<length (su_services s)]"

definition toggle_service :: "string \<Rightarrow> nat \<Rightarrow> supervisor \<Rightarrow> supervisor" where
  "toggle_service now i s =
     (if i < length (su_services s) then
        (let e = su_services s ! i in
         if en_process e \<noteq> None \<and> \<not> en_shuttingDown e then stopService now i s else startService now i s)
      else s)"

definition handle_key :: "string \<Rightarrow> string \<Rightarrow> bool \<Rightarrow> supervisor \<Rightarrow> supervisor" where
  "handle_key now input escape s =
     (if input = ''q'' \<or> escape then shutdownSupervisor now ''SIGINT'' s
      else if input = ''r'' then restart_all now s
      else if input = ''h'' then
        pushEvent now ''Available commands: q (quit), r (restart all), l (toggle live mode), h (help)'' s
      else if input = ''l'' then
        (let mode = su_mode s;
             s = s\<lparr>su_mode := (if mode = Snapshot_Mode then Live_Mode else Snapshot_Mode)\<rparr>
         in pushEvent now (''Switched to '' @ (if mode = Snapshot_Mode then ''live'' else ''snapshot'') @ '' mode'') s)
      else if length input = 1 \<and> is_digit (hd input) \<and> input \<noteq> ''0'' then
        toggle_service now (digit_value (hd input) - 1) s
      else s)"

datatype sup_event =
    Key string bool
  | Os_Signal string
  | Process_Spawned nat "int option"
  | Process_Exited nat "int option" "string option"
  | Process_Error nat string bool  \<comment> \<open>\<open>True\<close>: the process could not be started\<close>
  | Process_Output nat string output_stream
  | Restart_Timer nat
  | Force_Timer

text \<open>
  One event.  After \<open>process.exit\<close> nothing happens any more; processes that are not live and timers
  that are not armed have no events, but output of a service may still arrive.  A process exits once: the listener of \<open>startService\<close> runs
  before the one of \<open>shutdownSupervisor\<close>.
\<close>

fun sup_step :: "supervisor \<Rightarrow> string \<times> sup_event \<Rightarrow> supervisor" where
  "sup_step s (now, Key input escape) = (if su_exit s \<noteq> None then s else handle_key now input escape s)"
| "sup_step s (now, Os_Signal signal) = (if su_exit s \<noteq> None then s else shutdownSupervisor now signal s)"
| "sup_step s (now, Process_Spawned p pid) =
     (if su_exit s \<noteq> None then s
      else case map_of (su_live s) p of None \<Rightarrow> s | Some i \<Rightarrow> process_spawned now i pid s)"
| "sup_step s (now, Process_Exited p code signal) =
     (if su_exit s \<noteq> None then s
      else case map_of (su_live s) p of
        None \<Rightarrow> s
      | Some i \<Rightarrow>
          (let s = handleExit now i code signal (s\<lparr>su_live := filter (\<lambda>(p', i'). p' \<noteq> p) (su_live s)\<rparr>)
           in if p \<in> set (su_exitListeners s)
              then shutdown_exit_listener now i (s\<lparr>su_exitListeners := removeAll p (su_exitListeners s)\<rparr>)
              else s))"
| "sup_step s (now, Process_Error p message unstarted) =
     (if su_exit s \<noteq> None then s
      else case map_of (su_live s) p of
        None \<Rightarrow> s
      | Some i \<Rightarrow>
          handleSpawnError now i message
            (if unstarted then s\<lparr>su_live := filter (\<lambda>(p', i'). p' \<noteq> p) (su_live s)\<rparr> else s))"
| "sup_step s (now, Process_Output i chunk stream) =
     (if su_exit s \<noteq> None \<or> i \<ge> length (su_services s) then s else logServiceOutput now i chunk stream s)"
| "sup_step s (now, Restart_Timer t) =
     (if su_exit s \<noteq> None then s
      else case map_of (su_timers s) t of
        None \<Rightarrow> s
      | Some i \<Rightarrow> restart_due now i (s\<lparr>su_timers := filter (\<lambda>(t', i'). t' \<noteq> t) (su_timers s)\<rparr>))"
| "sup_step s (now, Force_Timer) =
     (if su_exit s \<noteq> None \<or> \<not> su_forceTimer s then s
      else force_shutdown now (s\<lparr>su_forceTimer := False\<rparr>))"

text \<open>\<open>loadConfig\<close> and \<open>startSupervisor\<close>: no services is an error.\<close>

definition loaded_entry :: "sup_config \<Rightarrow> service_entry" where
  "loaded_entry config =
     \<lparr>en_config = config, en_process = None, en_restarts = 0, en_lastExitCode = None, en_status = Idle,
      en_statusMessage = None, en_shuttingDown = False, en_pendingRestart = None\<rparr>"

definition loadConfig :: "sup_config list \<Rightarrow> supervisor option" where
  "loadConfig configs =
     (if configs = [] then None
      else Some \<lparr>su_services = map loaded_entry configs, su_eventLog = [], su_outputLog = [],
        su_shuttingDown = False, su_timers = [], su_nextTimer = 0, su_live = [], su_nextProcess = 0,
        su_kills = [], su_running = [], su_exitListeners = [], su_remaining = 0, su_forceTimer = False,
        su_mode = Snapshot_Mode, su_exit = None\<rparr>)"

definition startSupervisor :: "string \<Rightarrow> sup_config list \<Rightarrow> bool \<Rightarrow> supervisor option" where
  "startSupervisor now configs manual =
     (case loadConfig configs of
        None \<Rightarrow> None
      | Some s \<Rightarrow>
          (let s = pushEvent now (''Loaded '' @ string_of_nat (length (su_services s)) @ '' services from config'') s
           in Some (if \<not> manual then startAllServices now s
                    else pushEvent now ''Manual start mode: services not started automatically'' s)))"

end
