(* ===== verification/Supervisor_Invariant.thy ===== *)
theory Supervisor_Invariant
  imports Supervisor
begin

text \<open>
  What the supervisor keeps over every sequence of events: its bounded logs, one restart timer per
  service at most, the restart budget, and, as long as nobody starts a service whose process has
  not ended yet, one process per service.
\<close>

subsection \<open>Bounded logs\<close>

locale bounded_log =
  fixes limit :: nat
    and push :: "'a \<Rightarrow> 'a list \<Rightarrow> 'a list"
  assumes push_room: "length xs < limit \<Longrightarrow> push x xs = xs @ [x]"
    and push_full: "length xs = limit \<Longrightarrow> push x xs = tl xs @ [x]"
    and limit_pos: "0 < limit"
begin

lemma push_length: "length xs \<le> limit \<Longrightarrow> length (push x xs) \<le> limit"
  using push_room [of xs x] push_full [of xs x] limit_pos by (cases "length xs = limit") auto

lemma push_tail: "length xs \<le> limit \<Longrightarrow> push x xs = drop (length xs + 1 - limit) (xs @ [x])"
  using push_room [of xs x] push_full [of xs x] limit_pos
  by (cases "length xs = limit") (auto simp: drop_Suc)

lemma pushes: "length xs \<le> limit \<Longrightarrow>
   foldl (\<lambda>l x. push x l) xs ys = drop (length xs + length ys - limit) (xs @ ys)"
proof (induction ys arbitrary: xs)
  case (Cons y ys)
  have l: "length (push y xs) \<le> limit" using Cons.prems by (rule push_length)
  have "foldl (\<lambda>l x. push x l) xs (y # ys) = drop (length (push y xs) + length ys - limit) (push y xs @ ys)"
    using Cons.IH [OF l] by simp
  also have "\<dots> = drop (length xs + length (y # ys) - limit) (xs @ y # ys)"
  proof (cases "length xs = limit")
    case True
    then have "push y xs = tl xs @ [y]" by (rule push_full)
    moreover obtain z zs where "xs = z # zs" using True limit_pos by (cases xs) auto
    ultimately show ?thesis using True by simp
  next
    case False
    then have "push y xs = xs @ [y]" using Cons.prems by (intro push_room) simp
    then show ?thesis by simp
  qed
  finally show ?case .
qed simp

end

interpretation event_log: bounded_log 8 "push_bounded 8"
  by unfold_locales (auto simp: push_bounded_def Let_def tl_append split: list.splits)

interpretation output_log: bounded_log 40 "push_bounded 40"
  by unfold_locales (auto simp: push_bounded_def Let_def tl_append split: list.splits)

subsection \<open>What the operations do to the parts of the state\<close>

lemma with_service_simps [simp]:
  "length (su_services (with_service i f s)) = length (su_services s)"
  "su_eventLog (with_service i f s) = su_eventLog s" "su_outputLog (with_service i f s) = su_outputLog s"
  "su_shuttingDown (with_service i f s) = su_shuttingDown s" "su_timers (with_service i f s) = su_timers s"
  "su_nextTimer (with_service i f s) = su_nextTimer s" "su_live (with_service i f s) = su_live s"
  "su_nextProcess (with_service i f s) = su_nextProcess s" "su_kills (with_service i f s) = su_kills s"
  "su_running (with_service i f s) = su_running s" "su_exitListeners (with_service i f s) = su_exitListeners s"
  "su_remaining (with_service i f s) = su_remaining s" "su_forceTimer (with_service i f s) = su_forceTimer s"
  "su_mode (with_service i f s) = su_mode s" "su_exit (with_service i f s) = su_exit s"
  by (simp_all add: with_service_def)

lemma with_service_nth [simp]:
  "i < length (su_services s) \<Longrightarrow>
   su_services (with_service i f s) ! j = (if j = i then f (su_services s ! i) else su_services s ! j)"
  by (auto simp: with_service_def)

lemma pushEvent_simps [simp]:
  "su_services (pushEvent now m s) = su_services s" "su_outputLog (pushEvent now m s) = su_outputLog s"
  "su_shuttingDown (pushEvent now m s) = su_shuttingDown s" "su_timers (pushEvent now m s) = su_timers s"
  "su_nextTimer (pushEvent now m s) = su_nextTimer s" "su_live (pushEvent now m s) = su_live s"
  "su_nextProcess (pushEvent now m s) = su_nextProcess s" "su_kills (pushEvent now m s) = su_kills s"
  "su_running (pushEvent now m s) = su_running s" "su_exitListeners (pushEvent now m s) = su_exitListeners s"
  "su_remaining (pushEvent now m s) = su_remaining s" "su_forceTimer (pushEvent now m s) = su_forceTimer s"
  "su_mode (pushEvent now m s) = su_mode s" "su_exit (pushEvent now m s) = su_exit s"
  by (simp_all add: pushEvent_def)

lemma pushEvent_log [simp]: "length (su_eventLog s) \<le> 8 \<Longrightarrow> length (su_eventLog (pushEvent now m s)) \<le> 8"
  by (simp add: pushEvent_def event_log.push_length)

lemma kill_simps [simp]:
  "su_services (kill p g s) = su_services s" "su_outputLog (kill p g s) = su_outputLog s"
  "su_eventLog (kill p g s) = su_eventLog s"
  "su_shuttingDown (kill p g s) = su_shuttingDown s" "su_timers (kill p g s) = su_timers s"
  "su_nextTimer (kill p g s) = su_nextTimer s" "su_live (kill p g s) = su_live s"
  "su_nextProcess (kill p g s) = su_nextProcess s" "su_running (kill p g s) = su_running s"
  "su_exitListeners (kill p g s) = su_exitListeners s" "su_remaining (kill p g s) = su_remaining s"
  "su_forceTimer (kill p g s) = su_forceTimer s" "su_mode (kill p g s) = su_mode s" "su_exit (kill p g s) = su_exit s"
  by (simp_all add: kill_def)

lemma clear_pending_simps [simp]:
  "su_services (clear_pending i s) = su_services s" "su_outputLog (clear_pending i s) = su_outputLog s"
  "su_eventLog (clear_pending i s) = su_eventLog s"
  "su_shuttingDown (clear_pending i s) = su_shuttingDown s"
  "su_nextTimer (clear_pending i s) = su_nextTimer s" "su_live (clear_pending i s) = su_live s"
  "su_nextProcess (clear_pending i s) = su_nextProcess s" "su_kills (clear_pending i s) = su_kills s"
  "su_running (clear_pending i s) = su_running s" "su_exitListeners (clear_pending i s) = su_exitListeners s"
  "su_remaining (clear_pending i s) = su_remaining s" "su_forceTimer (clear_pending i s) = su_forceTimer s"
  "su_mode (clear_pending i s) = su_mode s" "su_exit (clear_pending i s) = su_exit s"
  by (simp_all add: clear_pending_def split: option.splits)

subsection \<open>The invariant\<close>

definition timers_ok :: "supervisor \<Rightarrow> bool" where
  "timers_ok s \<longleftrightarrow> distinct (map fst (su_timers s)) \<and> (\<forall>(t, i) \<in> set (su_timers s). t < su_nextTimer s) \<and>
     (\<forall>t i. (t, i) \<in> set (su_timers s) \<longleftrightarrow>
        i < length (su_services s) \<and> en_pendingRestart (su_services s ! i) = Some t)"

definition live_ok :: "supervisor \<Rightarrow> bool" where
  "live_ok s \<longleftrightarrow> distinct (map fst (su_live s)) \<and>
     (\<forall>(p, i) \<in> set (su_live s). p < su_nextProcess s \<and> i < length (su_services s))"

definition restarts_ok :: "service_entry \<Rightarrow> bool" where
  "restarts_ok e \<longleftrightarrow> 0 \<le> en_restarts e \<and> en_restarts e \<le> max 0 (nullish (co_maxRestarts (en_config e)) 5)"

definition sup_inv :: "supervisor \<Rightarrow> bool" where
  "sup_inv s \<longleftrightarrow> timers_ok s \<and> live_ok s \<and> (\<forall>i < length (su_services s). restarts_ok (su_services s ! i)) \<and>
     length (su_eventLog s) \<le> 8 \<and> length (su_outputLog s) \<le> 40"

lemma timers_entry:
  "timers_ok s \<Longrightarrow> (t, i) \<in> set (su_timers s) \<longleftrightarrow>
     i < length (su_services s) \<and> en_pendingRestart (su_services s ! i) = Some t"
  by (simp add: timers_ok_def)

lemma timers_unique: "timers_ok s \<Longrightarrow> (t, i) \<in> set (su_timers s) \<Longrightarrow> (t, j) \<in> set (su_timers s) \<Longrightarrow> i = j"
  unfolding timers_ok_def by (metis eq_key_imp_eq_value)

text \<open>The timers after those of service \<open>i\<close> were cleared.\<close>

lemma timers_without:
  assumes "timers_ok s" "i < length (su_services s)" "en_pendingRestart (su_services s ! i) = Some t"
  shows "(t', j) \<in> set (filter (\<lambda>(t', i'). t' \<noteq> t) (su_timers s)) \<longleftrightarrow>
    j < length (su_services s) \<and> j \<noteq> i \<and> en_pendingRestart (su_services s ! j) = Some t'"
proof -
  have "(t, i) \<in> set (su_timers s)" using assms timers_entry by blast
  then have "t' \<noteq> t \<longleftrightarrow> j \<noteq> i" if "(t', j) \<in> set (su_timers s)"
    using that timers_unique [OF assms(1)] assms(3) timers_entry [OF assms(1), of t' j] by auto
  then show ?thesis using timers_entry [OF assms(1), of t' j] by auto
qed

lemma timers_ok_intro:
  assumes "distinct (map fst (su_timers s))" "\<And>t i. (t, i) \<in> set (su_timers s) \<Longrightarrow> t < su_nextTimer s"
    "\<And>t i. (t, i) \<in> set (su_timers s) \<longleftrightarrow>
        i < length (su_services s) \<and> en_pendingRestart (su_services s ! i) = Some t"
  shows "timers_ok s"
  using assms by (auto simp: timers_ok_def)

lemma timers_clear:
  assumes "timers_ok s" "i < length (su_services s)"
  shows "timers_ok (with_service i (\<lambda>e. e\<lparr>en_pendingRestart := None\<rparr>) (clear_pending i s))"
proof (cases "en_pendingRestart (su_services s ! i)")
  case None
  let ?s = "with_service i (\<lambda>e. e\<lparr>en_pendingRestart := None\<rparr>) (clear_pending i s)"
  have tm: "su_timers ?s = su_timers s" using None by (simp add: clear_pending_def)
  show ?thesis
  proof (rule timers_ok_intro)
    show "distinct (map fst (su_timers ?s))" unfolding tm using assms(1) by (simp add: timers_ok_def)
    show "t < su_nextTimer ?s" if "(t, j) \<in> set (su_timers ?s)" for t j
      using that assms(1) unfolding tm by (auto simp: timers_ok_def)
    show "(t, j) \<in> set (su_timers ?s) \<longleftrightarrow> j < length (su_services ?s)
        \<and> en_pendingRestart (su_services ?s ! j) = Some t" for t j
      unfolding tm timers_entry [OF assms(1)] using assms(2) None by simp
  qed
next
  case (Some t)
  let ?s = "with_service i (\<lambda>e. e\<lparr>en_pendingRestart := None\<rparr>) (clear_pending i s)"
  have tm: "su_timers ?s = filter (\<lambda>(t', i'). t' \<noteq> t) (su_timers s)"
    using Some by (simp add: clear_pending_def)
  show ?thesis
  proof (rule timers_ok_intro)
    show "distinct (map fst (su_timers ?s))"
      unfolding tm using assms(1) by (simp add: timers_ok_def distinct_map_filter)
    show "t' < su_nextTimer ?s" if "(t', j) \<in> set (su_timers ?s)" for t' j
      using that assms(1) unfolding tm by (auto simp: timers_ok_def)
    show "(t', j) \<in> set (su_timers ?s) \<longleftrightarrow> j < length (su_services ?s)
        \<and> en_pendingRestart (su_services ?s ! j) = Some t'" for t' j
      unfolding tm timers_without [OF assms Some] using assms(2) by simp
  qed
qed

text \<open>Changes that leave timers, pending restarts and the number of services alone.\<close>

lemma timers_same:
  assumes "timers_ok s" "su_timers s' = su_timers s" "su_nextTimer s' = su_nextTimer s"
    "length (su_services s') = length (su_services s)"
    "\<And>j. j < length (su_services s) \<Longrightarrow>
       en_pendingRestart (su_services s' ! j) = en_pendingRestart (su_services s ! j)"
  shows "timers_ok s'"
proof (rule timers_ok_intro)
  show "distinct (map fst (su_timers s'))" using assms(1,2) by (simp add: timers_ok_def)
  show "t < su_nextTimer s'" if "(t, j) \<in> set (su_timers s')" for t j
    using that assms(1-3) by (auto simp: timers_ok_def)
  show "(t, j) \<in> set (su_timers s') \<longleftrightarrow> j < length (su_services s')
      \<and> en_pendingRestart (su_services s' ! j) = Some t" for t j
    unfolding assms(2) timers_entry [OF assms(1)] using assms(4,5) by auto
qed

lemma timers_arm:
  assumes "timers_ok s" "i < length (su_services s)" "en_pendingRestart (su_services s ! i) = None"
  shows "timers_ok (with_service i (\<lambda>e. e\<lparr>en_pendingRestart := Some (su_nextTimer s)\<rparr>)
    (s\<lparr>su_nextTimer := Suc (su_nextTimer s), su_timers := su_timers s @ [(su_nextTimer s, i)]\<rparr>))"
    (is "timers_ok ?s")
proof (rule timers_ok_intro)
  have below: "t < su_nextTimer s" if "(t, j) \<in> set (su_timers s)" for t j
    using that assms(1) by (auto simp: timers_ok_def)
  then show "distinct (map fst (su_timers ?s))" using assms(1) by (force simp: timers_ok_def)
  show "t < su_nextTimer ?s" if "(t, j) \<in> set (su_timers ?s)" for t j
    using that below by (auto dest: less_SucI)
  show "(t, j) \<in> set (su_timers ?s) \<longleftrightarrow> j < length (su_services ?s)
      \<and> en_pendingRestart (su_services ?s ! j) = Some t" for t j
    using timers_entry [OF assms(1), of t j] assms(2,3) by auto
qed

text \<open>A restart timer that fires is spent, and its service has no pending restart any more.\<close>

lemma timers_fire:
  assumes "timers_ok s" "map_of (su_timers s) t = Some i"
  shows "timers_ok (with_service i (\<lambda>e. e\<lparr>en_pendingRestart := None\<rparr>)
    (s\<lparr>su_timers := filter (\<lambda>(t', i'). t' \<noteq> t) (su_timers s)\<rparr>))"
proof -
  have "i < length (su_services s)" "en_pendingRestart (su_services s ! i) = Some t"
    using assms timers_entry [OF assms(1), of t i] map_of_SomeD [OF assms(2)] by auto
  moreover from this have "clear_pending i s = s\<lparr>su_timers := filter (\<lambda>(t', i'). t' \<noteq> t) (su_timers s)\<rparr>"
    by (simp add: clear_pending_def)
  ultimately show ?thesis using timers_clear [OF assms(1), of i] by simp
qed

subsection \<open>Operations keep the invariant\<close>

lemma clear_inv:
  "sup_inv s \<Longrightarrow> i < length (su_services s) \<Longrightarrow>
   sup_inv (with_service i (\<lambda>e. e\<lparr>en_pendingRestart := None\<rparr>) (clear_pending i s))"
  by (simp add: sup_inv_def timers_clear live_ok_def restarts_ok_def)

lemma with_service_inv:
  assumes "sup_inv s" "i < length (su_services s)"
    "\<And>e. en_pendingRestart (f e) = en_pendingRestart e"
    "restarts_ok (su_services s ! i) \<Longrightarrow> restarts_ok (f (su_services s ! i))"
  shows "sup_inv (with_service i f s)"
proof -
  have "timers_ok (with_service i f s)"
    by (rule timers_same [of s]) (use assms in \<open>simp_all add: sup_inv_def\<close>)
  with assms show ?thesis by (simp add: sup_inv_def live_ok_def)
qed

lemma pushEvent_inv: "sup_inv s \<Longrightarrow> sup_inv (pushEvent now m s)"
  using timers_same [of s "pushEvent now m s"] by (simp add: sup_inv_def live_ok_def)

lemma kill_inv: "sup_inv s \<Longrightarrow> sup_inv (kill p g s)"
  using timers_same [of s "kill p g s"] by (simp add: sup_inv_def live_ok_def)

lemma bookkeeping_inv [simp]:
  "sup_inv (s\<lparr>su_shuttingDown := b\<rparr>) = sup_inv s" "sup_inv (s\<lparr>su_forceTimer := b\<rparr>) = sup_inv s"
  "sup_inv (s\<lparr>su_exit := x\<rparr>) = sup_inv s" "sup_inv (s\<lparr>su_mode := m\<rparr>) = sup_inv s"
  "sup_inv (s\<lparr>su_exitListeners := ps\<rparr>) = sup_inv s" "sup_inv (s\<lparr>su_remaining := n\<rparr>) = sup_inv s"
  "sup_inv (s\<lparr>su_running := is\<rparr>) = sup_inv s"
  by (simp_all add: sup_inv_def timers_ok_def live_ok_def)

lemma spawn_inv:
  assumes "sup_inv s" "i < length (su_services s)"
  shows "sup_inv (s\<lparr>su_nextProcess := Suc (su_nextProcess s), su_live := su_live s @ [(su_nextProcess s, i)]\<rparr>)"
proof -
  have "distinct (map fst (su_live s @ [(su_nextProcess s, i)]))"
    using assms by (force simp: sup_inv_def live_ok_def)
  with assms show ?thesis by (fastforce simp: sup_inv_def timers_ok_def live_ok_def dest: less_SucI)
qed

lemma end_inv: "sup_inv s \<Longrightarrow> sup_inv (s\<lparr>su_live := filter (\<lambda>(p', i'). p' \<noteq> p) (su_live s)\<rparr>)"
  by (auto simp: sup_inv_def timers_ok_def live_ok_def distinct_map_filter)

lemma start_split:
  "startService now i s =
     (let s0 = with_service i (\<lambda>e. e\<lparr>en_pendingRestart := None\<rparr>) (clear_pending i s);
          s1 = with_service i (\<lambda>e. e\<lparr>en_shuttingDown := False, en_status := Starting,
                                   en_statusMessage := Some ''launching''\<rparr>) s0;
          s2 = pushEvent now (''Starting '' @ service_name s1 i) s1;
          p = su_nextProcess s2
      in with_service i (\<lambda>e. e\<lparr>en_process := Some p\<rparr>)
           (s2\<lparr>su_nextProcess := Suc p, su_live := su_live s2 @ [(p, i)]\<rparr>))"
  by (simp add: startService_def Let_def)

lemma start_inv: "sup_inv s \<Longrightarrow> i < length (su_services s) \<Longrightarrow> sup_inv (startService now i s)"
  unfolding start_split Let_def
  by (intro with_service_inv spawn_inv pushEvent_inv clear_inv) (simp_all add: restarts_ok_def)

lemma start_all_inv:
  "sup_inv s \<Longrightarrow> \<forall>i \<in> set is. i < length (su_services s) \<Longrightarrow> sup_inv (foldl (\<lambda>s i. startService now i s) s is)
     \<and> length (su_services (foldl (\<lambda>s i. startService now i s) s is)) = length (su_services s)"
proof (induction "is" arbitrary: s)
  case (Cons i "is")
  have "length (su_services (startService now i s)) = length (su_services s)"
    by (simp add: startService_def Let_def)
  with Cons start_inv [of s i now] show ?case by simp
qed simp

lemma stop_inv: "sup_inv s \<Longrightarrow> i < length (su_services s) \<Longrightarrow> sup_inv (stopService now i s)"
proof -
  assume a: "sup_inv s" "i < length (su_services s)"
  let ?s = "with_service i (\<lambda>e. e\<lparr>en_shuttingDown := True\<rparr>)
    (with_service i (\<lambda>e. e\<lparr>en_pendingRestart := None\<rparr>) (clear_pending i s))"
  have "sup_inv ?s" using a by (intro with_service_inv clear_inv) (simp_all add: restarts_ok_def)
  then show ?thesis
    unfolding stopService_def Let_def by (auto intro!: pushEvent_inv kill_inv split: option.splits)
qed

lemma shutdown_one_inv:
  assumes "sup_inv s" "i < length (su_services s)"
  shows "sup_inv (shutdown_one s i)"
proof -
  let ?s0 = "with_service i (\<lambda>e. e\<lparr>en_shuttingDown := True\<rparr>) s"
  have "sup_inv ?s0" using assms by (intro with_service_inv) (simp_all add: restarts_ok_def)
  then have "sup_inv (with_service i (\<lambda>e. e\<lparr>en_pendingRestart := None\<rparr>) (clear_pending i ?s0))" (is "sup_inv ?s")
    using assms(2) by (intro clear_inv) simp_all
  then show ?thesis
    unfolding shutdown_one_def Let_def by (auto intro!: kill_inv split: option.splits)
qed

lemma shutdown_one_length [simp]: "length (su_services (shutdown_one s i)) = length (su_services s)"
  by (simp add: shutdown_one_def Let_def split: option.splits)

lemma shutdown_loop_inv:
  "sup_inv s \<Longrightarrow> \<forall>i \<in> set is. i < length (su_services s) \<Longrightarrow> sup_inv (foldl shutdown_one s is)"
  by (induction "is" arbitrary: s) (simp_all add: shutdown_one_inv)

lemma running_below: "i \<in> set (running_services s) \<Longrightarrow> i < length (su_services s)"
  by (simp add: running_services_def)

lemma shutdown_inv: "sup_inv s \<Longrightarrow> sup_inv (shutdownSupervisor now signal s)"
proof -
  assume a: "sup_inv s"
  let ?s = "pushEvent now (''Supervisor received '' @ signal @ ''; shutting down services'') (s\<lparr>su_shuttingDown := True\<rparr>)"
  have s: "sup_inv ?s" using a by (intro pushEvent_inv) simp
  then have "sup_inv (foldl shutdown_one (?s\<lparr>su_running := running_services ?s,
      su_remaining := int (length (running_services ?s))\<rparr>) (running_services ?s))"
    by (intro shutdown_loop_inv) (simp_all add: running_services_def)
  with s a show ?thesis
    by (simp add: shutdownSupervisor_def Let_def process_exit_def pushEvent_inv)
qed

lemma kill_loop_inv:
  "sup_inv s \<Longrightarrow> sup_inv (foldl (\<lambda>s i. case en_process (su_services s ! i) of None \<Rightarrow> s | Some p \<Rightarrow> kill p g s) s is)"
  by (induction "is" arbitrary: s) (auto simp: kill_inv split: option.splits)

lemma key_inv: "sup_inv s \<Longrightarrow> sup_inv (handle_key now input escape s)"
  by (auto simp: handle_key_def Let_def toggle_service_def restart_all_def shutdown_inv pushEvent_inv
      stop_inv start_inv intro!: kill_loop_inv)

lemma schedule_parts:
  assumes "i < length (su_services s)"
  shows "en_pendingRestart (su_services (scheduleRestart now i d reason s) ! j) =
      (if j = i then Some (su_nextTimer s) else en_pendingRestart (su_services s ! j))"
    and "length (su_services (scheduleRestart now i d reason s)) = length (su_services s)"
    and "su_timers (scheduleRestart now i d reason s) = su_timers (clear_pending i s) @ [(su_nextTimer s, i)]"
    and "su_nextTimer (scheduleRestart now i d reason s) = Suc (su_nextTimer s)"
    and "su_live (scheduleRestart now i d reason s) = su_live s"
    and "su_nextProcess (scheduleRestart now i d reason s) = su_nextProcess s"
    and "su_outputLog (scheduleRestart now i d reason s) = su_outputLog s"
    and "su_exitListeners (scheduleRestart now i d reason s) = su_exitListeners s"
    and "su_shuttingDown (scheduleRestart now i d reason s) = su_shuttingDown s"
    and "su_remaining (scheduleRestart now i d reason s) = su_remaining s"
    and "su_exit (scheduleRestart now i d reason s) = su_exit s"
    and "su_forceTimer (scheduleRestart now i d reason s) = su_forceTimer s"
    and "en_process (su_services (scheduleRestart now i d reason s) ! j) = en_process (su_services s ! j)"
    and "en_restarts (su_services (scheduleRestart now i d reason s) ! j) = en_restarts (su_services s ! j)"
    and "en_config (su_services (scheduleRestart now i d reason s) ! j) = en_config (su_services s ! j)"
    and "en_shuttingDown (su_services (scheduleRestart now i d reason s) ! j) = en_shuttingDown (su_services s ! j)"
    and "length (su_eventLog s) \<le> 8 \<Longrightarrow> length (su_eventLog (scheduleRestart now i d reason s)) \<le> 8"
  using assms by (auto simp: scheduleRestart_def Let_def simp del: append.simps intro!: pushEvent_log)

lemma schedule_inv:
  assumes "sup_inv s" "i < length (su_services s)"
  shows "sup_inv (scheduleRestart now i d reason s)"
proof -
  let ?s0 = "with_service i (\<lambda>e. e\<lparr>en_pendingRestart := None\<rparr>) (clear_pending i s)"
  let ?s1 = "with_service i (\<lambda>e. e\<lparr>en_pendingRestart := Some (su_nextTimer ?s0)\<rparr>)
    (?s0\<lparr>su_nextTimer := Suc (su_nextTimer ?s0), su_timers := su_timers ?s0 @ [(su_nextTimer ?s0, i)]\<rparr>)"
  have "timers_ok ?s0" using assms by (intro timers_clear) (simp_all add: sup_inv_def)
  then have "timers_ok ?s1" using assms(2) by (intro timers_arm) simp_all
  then have "timers_ok (scheduleRestart now i d reason s)"
    by (rule timers_same) (use assms(2) in \<open>simp_all add: schedule_parts\<close>)
  with assms show ?thesis by (simp add: sup_inv_def live_ok_def restarts_ok_def schedule_parts)
qed

lemma decision_room:
  "fst (determineRestartDecision e) \<Longrightarrow> restarts_ok e \<Longrightarrow> restarts_ok (e\<lparr>en_restarts := en_restarts e + 1\<rparr>)"
  by (auto simp: determineRestartDecision_def Let_def restarts_ok_def split: if_splits)

lemma exit_inv:
  assumes "sup_inv s" "i < length (su_services s)"
  shows "sup_inv (handleExit now i code signal s)"
proof -
  define s1 where "s1 = with_service i (\<lambda>e. e\<lparr>en_process := None, en_lastExitCode := code\<rparr>) s"
  have inv1: "sup_inv s1" and i: "i < length (su_services s1)"
    using assms unfolding s1_def by (auto intro!: with_service_inv simp: restarts_ok_def)
  define s2 where "s2 = pushEvent now (''Service '' @ service_name s1 i @ '' exited unexpectedly ('' @ exitDescription code signal @ '')'')
      (with_service i (\<lambda>e. e\<lparr>en_status := Stopped,
         en_statusMessage := Some (''unexpectedly exited ('' @ exitDescription code signal @ '')'')\<rparr>) s1)"
  have inv2: "sup_inv s2" and i2: "i < length (su_services s2)"
    using inv1 i unfolding s2_def by (auto intro!: with_service_inv pushEvent_inv simp: restarts_ok_def)
  have "sup_inv (with_service i (\<lambda>e. e\<lparr>en_restarts := en_restarts e + 1\<rparr>) s2)"
    if "fst (determineRestartDecision (su_services s2 ! i))"
    using inv2 i2 decision_room [OF that] by (intro with_service_inv) simp_all
  with inv2 i2 have "sup_inv (let e = su_services s2 ! i in
      if \<not> nullish (co_restartOnUnexpectedExit (en_config e)) True
      then pushEvent now (''Restart disabled for '' @ service_name s1 i @ '' (restartOnUnexpectedExit=false)'') s2
      else let (allow, reason) = determineRestartDecision e in
        if \<not> allow
        then pushEvent now (''Restart prevented for '' @ service_name s1 i @ '': '' @ nullish reason ''policy prevented restart'') s2
        else scheduleRestart now i (nullish (co_restartDelay (en_config e)) 2000) (exitDescription code signal)
               (with_service i (\<lambda>e. e\<lparr>en_restarts := en_restarts e + 1\<rparr>) s2))"
    unfolding Let_def case_prod_beta by (auto intro!: pushEvent_inv schedule_inv)
  moreover have "sup_inv (pushEvent now m (with_service i (\<lambda>e. e\<lparr>en_status := Stopped,
      en_statusMessage := msg\<rparr>) s1))" for m msg
    using inv1 i by (intro pushEvent_inv with_service_inv) (simp_all add: restarts_ok_def)
  ultimately show ?thesis
    unfolding handleExit_def s1_def [symmetric] Let_def s2_def by (simp add: s1_def)
qed

lemma restart_due_inv:
  assumes "sup_inv s" "map_of (su_timers s) t = Some i"
  shows "sup_inv (restart_due now i (s\<lparr>su_timers := filter (\<lambda>(t', i'). t' \<noteq> t) (su_timers s)\<rparr>))"
proof -
  let ?s = "with_service i (\<lambda>e. e\<lparr>en_pendingRestart := None\<rparr>)
    (s\<lparr>su_timers := filter (\<lambda>(t', i'). t' \<noteq> t) (su_timers s)\<rparr>)"
  have i: "i < length (su_services s)"
    using assms timers_entry [of s t i] map_of_SomeD [OF assms(2)] by (simp add: sup_inv_def)
  have "timers_ok ?s" using assms by (intro timers_fire) (simp_all add: sup_inv_def)
  with assms(1) i have inv: "sup_inv ?s" by (simp add: sup_inv_def live_ok_def restarts_ok_def)
  have "sup_inv (if su_shuttingDown s1 then pushEvent now m s1
      else startService now i (pushEvent now m' (with_service i
        (\<lambda>e. e\<lparr>en_status := Restarting, en_statusMessage := Some ''restarting now''\<rparr>) s1)))"
    if "sup_inv s1" "i < length (su_services s1)" for s1 m m'
    using that by (auto intro!: pushEvent_inv start_inv with_service_inv simp: restarts_ok_def)
  from this [OF inv] i show ?thesis
    unfolding restart_due_def Let_def by simp
qed

lemma push_output_inv: "sup_inv s \<Longrightarrow> sup_inv (pushOutput now i stream m s)"
  by (simp add: sup_inv_def timers_ok_def live_ok_def pushOutput_def output_log.push_length)

lemma output_inv: "sup_inv s \<Longrightarrow> sup_inv (logServiceOutput now i chunk stream s)"
proof -
  have "sup_inv s \<Longrightarrow> sup_inv (foldl (\<lambda>s l. if l = [] then s else pushOutput now i stream l s) s ls)" for ls
    by (induction ls arbitrary: s) (simp_all add: push_output_inv)
  then show "sup_inv s \<Longrightarrow> ?thesis" by (simp add: logServiceOutput_def)
qed

lemma live_index: "sup_inv s \<Longrightarrow> map_of (su_live s) p = Some i \<Longrightarrow> i < length (su_services s)"
  by (auto simp: sup_inv_def live_ok_def dest!: map_of_SomeD)

lemma sup_step_inv: "sup_inv s \<Longrightarrow> sup_inv (sup_step s (now, ev))"
proof (cases ev)
  case (Process_Spawned p pid)
  assume "sup_inv s"
  moreover from this have "sup_inv (process_spawned now i pid s)" if "map_of (su_live s) p = Some i" for i
    using live_index [OF _ that] unfolding process_spawned_def Let_def
    by (intro pushEvent_inv with_service_inv) (simp_all add: restarts_ok_def)
  ultimately show ?thesis using Process_Spawned by (simp split: option.splits)
next
  case (Process_Exited p code signal)
  assume inv: "sup_inv s"
  have "sup_inv (let s' = handleExit now i code signal (s\<lparr>su_live := filter (\<lambda>(p', i'). p' \<noteq> p) (su_live s)\<rparr>)
           in if p \<in> set (su_exitListeners s')
              then shutdown_exit_listener now i (s'\<lparr>su_exitListeners := removeAll p (su_exitListeners s')\<rparr>)
              else s')"
    if "map_of (su_live s) p = Some i" for i
  proof -
    have "sup_inv (handleExit now i code signal (s\<lparr>su_live := filter (\<lambda>(p', i'). p' \<noteq> p) (su_live s)\<rparr>))"
      using inv live_index [OF inv that] by (intro exit_inv end_inv) simp_all
    then show ?thesis
      by (auto simp: Let_def shutdown_exit_listener_def process_exit_def intro!: pushEvent_inv)
  qed
  with inv Process_Exited show ?thesis by (auto split: option.splits)
next
  case (Process_Error p message unstarted)
  assume inv: "sup_inv s"
  have "sup_inv (handleSpawnError now i message s')" if "sup_inv s'" "i < length (su_services s')" for s' i
    unfolding handleSpawnError_def using that
    by (intro pushEvent_inv with_service_inv) (simp_all add: restarts_ok_def)
  with inv live_index [OF inv] end_inv [OF inv] Process_Error show ?thesis by (auto split: option.splits)
next
  case (Restart_Timer t)
  assume "sup_inv s"
  with Restart_Timer restart_due_inv show ?thesis by (auto split: option.splits)
next
  case Force_Timer
  assume "sup_inv s"
  with Force_Timer show ?thesis
    by (auto simp: force_shutdown_def process_exit_def intro!: kill_loop_inv pushEvent_inv)
qed (auto simp: key_inv shutdown_inv output_inv)

interpretation supervision: reactive sup_step sup_inv
  by unfold_locales (metis sup_step_inv surj_pair)

lemma load_inv: "loadConfig configs = Some s \<Longrightarrow> sup_inv s"
  by (auto simp: loadConfig_def sup_inv_def timers_ok_def live_ok_def restarts_ok_def loaded_entry_def
      split: if_splits)

lemma started_inv: "startSupervisor now configs manual = Some s \<Longrightarrow> sup_inv s"
proof -
  assume a: "startSupervisor now configs manual = Some s"
  then obtain s0 where s0: "loadConfig configs = Some s0" by (auto simp: startSupervisor_def split: option.splits)
  let ?s = "pushEvent now (''Loaded '' @ string_of_nat (length (su_services s0)) @ '' services from config'') s0"
  have "sup_inv ?s" using load_inv [OF s0] by (rule pushEvent_inv)
  moreover from this have "sup_inv (startAllServices now ?s)"
    unfolding startAllServices_def by (intro start_all_inv [THEN conjunct1]) auto
  ultimately show ?thesis using a s0 by (auto simp: startSupervisor_def Let_def pushEvent_inv split: if_splits)
qed

subsection \<open>One process per service\<close>

definition one_process :: "supervisor \<Rightarrow> bool" where
  "one_process s \<longleftrightarrow>
     (\<forall>(p, i) \<in> set (su_live s). i < length (su_services s) \<and> en_process (su_services s ! i) = Some p) \<and>
     (\<forall>i < length (su_services s). en_pendingRestart (su_services s ! i) \<noteq> None \<longrightarrow>
        en_process (su_services s ! i) = None)"

definition idle_service :: "supervisor \<Rightarrow> nat \<Rightarrow> bool" where
  "idle_service s i \<longleftrightarrow> i \<notin> snd ` set (su_live s)"

lemma idle_without_process:
  "one_process s \<Longrightarrow> en_process (su_services s ! i) = None \<Longrightarrow> idle_service s i"
  by (auto simp: one_process_def idle_service_def)

lemma start_parts:
  assumes "i < length (su_services s)"
  shows "en_process (su_services (startService now i s) ! j) =
      (if j = i then Some (su_nextProcess s) else en_process (su_services s ! j))"
    and "en_pendingRestart (su_services (startService now i s) ! j) =
      (if j = i then None else en_pendingRestart (su_services s ! j))"
    and "length (su_services (startService now i s)) = length (su_services s)"
    and "su_live (startService now i s) = su_live s @ [(su_nextProcess s, i)]"
    and "su_shuttingDown (startService now i s) = su_shuttingDown s"
    and "su_exit (startService now i s) = su_exit s"
    and "su_exitListeners (startService now i s) = su_exitListeners s"
    and "su_remaining (startService now i s) = su_remaining s"
    and "su_nextProcess (startService now i s) = Suc (su_nextProcess s)"
    and "su_forceTimer (startService now i s) = su_forceTimer s"
  using assms by (simp_all add: startService_def Let_def del: append.simps)

lemma start_one:
  "one_process s \<Longrightarrow> i < length (su_services s) \<Longrightarrow> idle_service s i \<Longrightarrow> one_process (startService now i s)"
  by (auto simp: one_process_def start_parts idle_service_def rev_image_eqI)

lemma one_process_same:
  assumes "one_process s" "su_live s' = su_live s" "length (su_services s') = length (su_services s)"
    "\<And>j. j < length (su_services s) \<Longrightarrow> en_process (su_services s' ! j) = en_process (su_services s ! j)"
    "\<And>j. j < length (su_services s) \<Longrightarrow> en_pendingRestart (su_services s ! j) = None \<Longrightarrow>
       en_pendingRestart (su_services s' ! j) = None"
  shows "one_process s'"
  using assms by (fastforce simp: one_process_def)

lemma stop_one: "one_process s \<Longrightarrow> i < length (su_services s) \<Longrightarrow> one_process (stopService now i s)"
  by (rule one_process_same [of s])
     (auto simp: stopService_def Let_def simp del: append.simps split: option.splits)

lemma shutdown_one_one: "one_process s \<Longrightarrow> i < length (su_services s) \<Longrightarrow> one_process (shutdown_one s i)"
  by (rule one_process_same [of s]) (auto simp: shutdown_one_def Let_def split: option.splits)

lemma shutdown_loop_one:
  "one_process s \<Longrightarrow> \<forall>i \<in> set is. i < length (su_services s) \<Longrightarrow> one_process (foldl shutdown_one s is)"
  by (induction "is" arbitrary: s) (simp_all add: shutdown_one_one)

lemma one_process_cong:
  "su_services s' = su_services s \<Longrightarrow> su_live s' = su_live s \<Longrightarrow> one_process s' = one_process s"
  by (simp add: one_process_def)

lemma shutdown_sup_one: "one_process s \<Longrightarrow> one_process (shutdownSupervisor now signal s)"
proof -
  assume one: "one_process s"
  let ?s = "pushEvent now (''Supervisor received '' @ signal @ ''; shutting down services'') (s\<lparr>su_shuttingDown := True\<rparr>)"
  have "one_process (foldl shutdown_one (?s\<lparr>su_running := running_services ?s,
      su_remaining := int (length (running_services ?s))\<rparr>) (running_services ?s))" (is "one_process ?t")
    using one by (intro shutdown_loop_one) (auto simp: running_services_def one_process_def)
  moreover have "one_process (?t\<lparr>su_forceTimer := True\<rparr>) = one_process ?t" by (rule one_process_cong) simp_all
  ultimately show ?thesis
    using one by (simp add: shutdownSupervisor_def Let_def process_exit_def one_process_def del: append.simps)
qed

lemma kill_loop_same:
  "su_services (foldl (\<lambda>s i. case en_process (su_services s ! i) of None \<Rightarrow> s | Some p \<Rightarrow> kill p g s) s is) = su_services s
   \<and> su_live (foldl (\<lambda>s i. case en_process (su_services s ! i) of None \<Rightarrow> s | Some p \<Rightarrow> kill p g s) s is) = su_live s"
  by (induction "is" arbitrary: s) (auto split: option.splits)

lemma exit_parts:
  assumes "i < length (su_services s)"
  shows "en_process (su_services (handleExit now i code signal s) ! j) =
      (if j = i then None else en_process (su_services s ! j))"
    and "j \<noteq> i \<Longrightarrow> en_pendingRestart (su_services (handleExit now i code signal s) ! j) =
      en_pendingRestart (su_services s ! j)"
    and "length (su_services (handleExit now i code signal s)) = length (su_services s)"
    and "su_live (handleExit now i code signal s) = su_live s"
    and "su_exitListeners (handleExit now i code signal s) = su_exitListeners s"
    and "su_remaining (handleExit now i code signal s) = su_remaining s"
    and "su_shuttingDown (handleExit now i code signal s) = su_shuttingDown s"
    and "su_exit (handleExit now i code signal s) = su_exit s"
  using assms
  by (simp_all add: handleExit_def Let_def case_prod_beta schedule_parts del: append.simps)

lemma exit_one:
  assumes "one_process s" "(p, i) \<in> set (su_live s)"
  shows "one_process (handleExit now i code signal (s\<lparr>su_live := filter (\<lambda>(p', i'). p' \<noteq> p) (su_live s)\<rparr>))"
    (is "one_process (handleExit now i code signal ?s)")
proof -
  have i: "i < length (su_services ?s)" and p: "en_process (su_services s ! i) = Some p"
    using assms by (auto simp: one_process_def)
  have "i' \<noteq> i" if "(p', i') \<in> set (su_live ?s)" for p' i'
    using that assms(1) p by (auto simp: one_process_def)
  with assms(1) show ?thesis
    unfolding one_process_def by (auto simp: exit_parts [OF i])
qed

text \<open>
  A key is pressed with patience when it does not name a service that is being stopped while its
  process is still alive.
\<close>

fun patient :: "supervisor \<Rightarrow> string \<times> sup_event \<Rightarrow> bool" where
  "patient s (now, Key input escape) =
     list_all (\<lambda>(p, i). en_shuttingDown (su_services s ! i) \<longrightarrow> input \<noteq> string_of_nat (Suc i)) (su_live s)"
| "patient s _ = True"

fun patient_run :: "supervisor \<Rightarrow> (string \<times> sup_event) list \<Rightarrow> bool" where
  "patient_run s [] = True"
| "patient_run s (e # es) = (patient s e \<and> patient_run (sup_step s e) es)"

lemma digit_key: "length input = 1 \<Longrightarrow> is_digit (hd input) \<Longrightarrow> input \<noteq> ''0'' \<Longrightarrow>
   input = string_of_nat (Suc (digit_value (hd input) - 1))"
proof -
  assume a: "length input = 1" "is_digit (hd input)" "input \<noteq> ''0''"
  then obtain c where c: "input = [c]" by (cases input) auto
  have d: "digit (digit_value c) = c" using a(2) c by (simp add: digit_def digit_value_def is_digit_def)
  have "digit_value c \<noteq> 0"
  proof
    assume "digit_value c = 0"
    with d have "c = digit 0" by simp
    also have "digit 0 = CHR ''0''" by code_simp
    finally show False using a(3) c by simp
  qed
  moreover have "digit_value c < 10" using a(2) c by (simp add: digit_value_def is_digit_def) arith
  ultimately show ?thesis using c d by (simp add: string_of_nat.simps)
qed

lemma toggle_one:
  assumes "one_process s"
    "\<And>p. (p, i) \<in> set (su_live s) \<Longrightarrow> \<not> en_shuttingDown (su_services s ! i)"
  shows "one_process (toggle_service now i s)"
proof (cases "i < length (su_services s) \<and> (en_process (su_services s ! i) = None \<or> en_shuttingDown (su_services s ! i))")
  case True
  then have "idle_service s i"
    using assms by (auto simp: one_process_def idle_service_def)
  with True assms(1) show ?thesis by (auto simp: toggle_service_def Let_def start_one)
next
  case False
  with assms(1) show ?thesis by (auto simp: toggle_service_def Let_def stop_one)
qed

lemma key_one:
  assumes "one_process s" "patient s (now, Key input escape)"
  shows "one_process (handle_key now input escape s)"
proof -
  have "one_process (toggle_service now (digit_value (hd input) - 1) s)"
    if "length input = 1" "is_digit (hd input)" "input \<noteq> ''0''"
    using assms digit_key [OF that] by (intro toggle_one) (auto simp: list_all_iff)
  moreover have "one_process (restart_all now s)"
    using assms(1) kill_loop_same [of "SIGTERM" "pushEvent now ''Manual restart of all services triggered'' s"]
    by (simp add: restart_all_def one_process_def del: append.simps)
  moreover have "one_process (pushEvent now m s)" "one_process (pushEvent now m (s\<lparr>su_mode := v\<rparr>))" for m v
    using assms(1) by (simp_all add: one_process_def)
  ultimately show ?thesis
    using assms(1) shutdown_sup_one [OF assms(1)] by (auto simp: handle_key_def Let_def simp del: append.simps)
qed

lemma restart_due_one:
  assumes "one_process s" "sup_inv s" "map_of (su_timers s) t = Some i"
  shows "one_process (restart_due now i (s\<lparr>su_timers := filter (\<lambda>(t', i'). t' \<noteq> t) (su_timers s)\<rparr>))"
proof -
  have i: "i < length (su_services s)" "en_pendingRestart (su_services s ! i) = Some t"
    using assms timers_entry [of s t i] map_of_SomeD [OF assms(3)] by (simp_all add: sup_inv_def)
  with assms(1) have p: "en_process (su_services s ! i) = None" by (simp add: one_process_def)
  have core: "one_process (if su_shuttingDown s1 then pushEvent now m s1
      else startService now i (pushEvent now m' (with_service i
        (\<lambda>e. e\<lparr>en_status := Restarting, en_statusMessage := Some ''restarting now''\<rparr>) s1)))"
    if "one_process s1" "i < length (su_services s1)" "idle_service s1 i" for s1 m m'
  proof -
    have "one_process (pushEvent now m s1)" "one_process (pushEvent now m' (with_service i
        (\<lambda>e. e\<lparr>en_status := Restarting, en_statusMessage := Some ''restarting now''\<rparr>) s1))"
      using that by (auto simp: one_process_def)
    with that show ?thesis by (simp add: start_one idle_service_def)
  qed
  have one: "one_process (with_service i (\<lambda>e. e\<lparr>en_pendingRestart := None\<rparr>)
      (s\<lparr>su_timers := filter (\<lambda>(t', i'). t' \<noteq> t) (su_timers s)\<rparr>))"
    using assms(1) i by (auto simp: one_process_def)
  have "idle_service s i" using idle_without_process [OF assms(1) p] .
  with i show ?thesis
    unfolding restart_due_def Let_def by (intro core [OF one]) (simp_all add: idle_service_def)
qed

lemma sup_step_one:
  assumes "one_process s" "sup_inv s" "patient s (now, ev)"
  shows "one_process (sup_step s (now, ev))"
proof (cases ev)
  case (Process_Spawned p pid)
  have "one_process (process_spawned now i pid s)" if "map_of (su_live s) p = Some i" for i
    using assms(1) live_index [OF assms(2) that]
    by (auto simp: process_spawned_def Let_def one_process_def simp del: append.simps)
  with assms Process_Spawned show ?thesis by (auto split: option.splits)
next
  case (Process_Exited p code signal)
  have "one_process (let s' = handleExit now i code signal (s\<lparr>su_live := filter (\<lambda>(p', i'). p' \<noteq> p) (su_live s)\<rparr>)
           in if p \<in> set (su_exitListeners s')
              then shutdown_exit_listener now i (s'\<lparr>su_exitListeners := removeAll p (su_exitListeners s')\<rparr>)
              else s')"
    if "map_of (su_live s) p = Some i" for i
    using exit_one [OF assms(1) map_of_SomeD [OF that], of now code signal]
    by (auto simp: Let_def shutdown_exit_listener_def process_exit_def one_process_def simp del: append.simps)
  with assms Process_Exited show ?thesis by (auto split: option.splits)
next
  case (Process_Error p message unstarted)
  have "one_process (handleSpawnError now i message s)"
    "one_process (handleSpawnError now i message (s\<lparr>su_live := filter (\<lambda>(p', i'). p' \<noteq> p) (su_live s)\<rparr>))"
    if "map_of (su_live s) p = Some i" for i
    using assms(1) live_index [OF assms(2) that]
    by (auto simp: handleSpawnError_def one_process_def simp del: append.simps)
  with assms Process_Error show ?thesis by (auto split: option.splits)
next
  case (Process_Output i chunk stream)
  have "su_services (foldl (\<lambda>s l. if l = [] then s else pushOutput now i stream l s) s ls) = su_services s \<and>
      su_live (foldl (\<lambda>s l. if l = [] then s else pushOutput now i stream l s) s ls) = su_live s" for ls
    by (induction ls arbitrary: s) (auto simp: pushOutput_def)
  with assms Process_Output show ?thesis by (simp add: logServiceOutput_def one_process_def)
next
  case (Restart_Timer t)
  with assms restart_due_one show ?thesis by (auto split: option.splits)
next
  case Force_Timer
  have "one_process (force_shutdown now (s\<lparr>su_forceTimer := False\<rparr>))"
    using assms(1) kill_loop_same [of SIGKILL "pushEvent now ''Force killing remaining services'' (s\<lparr>su_forceTimer := False\<rparr>)"]
    by (simp add: force_shutdown_def process_exit_def one_process_def del: append.simps)
  with assms(1) Force_Timer show ?thesis by simp
qed (use assms key_one shutdown_sup_one in auto)

lemma patient_run_one:
  "one_process s \<Longrightarrow> sup_inv s \<Longrightarrow> patient_run s es \<Longrightarrow> one_process (foldl sup_step s es)"
proof (induction es arbitrary: s)
  case (Cons e es)
  obtain now ev where e: "e = (now, ev)" by force
  with Cons show ?case using sup_step_one [of s now ev] sup_step_inv [of s now ev] by simp
qed simp

lemma start_all_one:
  "one_process s \<Longrightarrow> distinct is \<Longrightarrow> \<forall>i \<in> set is. i < length (su_services s) \<and> idle_service s i \<Longrightarrow>
   one_process (foldl (\<lambda>s i. startService now i s) s is)"
proof (induction "is" arbitrary: s)
  case (Cons i "is")
  then have "one_process (startService now i s)" by (intro start_one) simp_all
  moreover have "\<forall>j \<in> set is. j < length (su_services (startService now i s)) \<and> idle_service (startService now i s) j"
    using Cons.prems by (auto simp: start_parts idle_service_def)
  ultimately show ?case using Cons by simp
qed simp

lemma started_one: "startSupervisor now configs manual = Some s \<Longrightarrow> one_process s"
proof -
  assume a: "startSupervisor now configs manual = Some s"
  then obtain s0 where s0: "loadConfig configs = Some s0" by (auto simp: startSupervisor_def split: option.splits)
  then have live: "su_live s0 = []" "\<forall>i < length (su_services s0). en_pendingRestart (su_services s0 ! i) = None"
    by (auto simp: loadConfig_def loaded_entry_def split: if_splits)
  then have one: "one_process (pushEvent now m s0)" "one_process (pushEvent now m' (pushEvent now m s0))" for m m'
    by (auto simp: one_process_def)
  then have "one_process (startAllServices now (pushEvent now m s0))" for m
    unfolding startAllServices_def using live by (intro start_all_one) (auto simp: idle_service_def)
  with one a s0 show ?thesis by (auto simp: startSupervisor_def Let_def simp del: append.simps split: if_splits)
qed

end
