(* ===== verification/Supervisor_Shutdown.thy ===== *)
theory Supervisor_Shutdown
  imports Supervisor_Invariant
begin

text \<open>
  The shutdown of the supervisor: it ends for certain when its timer fires, and before that only
  when every process that was running at its begin has exited.
\<close>

subsection \<open>What changes the parts a shutdown looks at\<close>

definition stop_view :: "supervisor \<Rightarrow> bool \<times> nat list \<times> int \<times> bool \<times> int option" where
  "stop_view s = (su_shuttingDown s, su_exitListeners s, su_remaining s, su_forceTimer s, su_exit s)"

lemma stop_view_eq:
  "stop_view s' = stop_view s \<longleftrightarrow> su_shuttingDown s' = su_shuttingDown s \<and> su_exitListeners s' = su_exitListeners s
     \<and> su_remaining s' = su_remaining s \<and> su_forceTimer s' = su_forceTimer s \<and> su_exit s' = su_exit s"
  by (auto simp: stop_view_def)

lemma stop_view_with_service [simp]: "stop_view (with_service i f s) = stop_view s"
  by (simp add: stop_view_eq)

lemma stop_view_pushEvent [simp]: "stop_view (pushEvent now m s) = stop_view s"
  by (simp add: stop_view_eq)

lemma stop_view_kill [simp]: "stop_view (kill p g s) = stop_view s"
  by (simp add: stop_view_eq)

lemma stop_view_clear [simp]: "stop_view (clear_pending i s) = stop_view s"
  by (simp add: stop_view_eq)

lemma stop_view_fields [simp]:
  "stop_view (s\<lparr>su_timers := ts\<rparr>) = stop_view s" "stop_view (s\<lparr>su_nextTimer := n\<rparr>) = stop_view s"
  "stop_view (s\<lparr>su_live := ls\<rparr>) = stop_view s" "stop_view (s\<lparr>su_nextProcess := n\<rparr>) = stop_view s"
  "stop_view (s\<lparr>su_mode := m\<rparr>) = stop_view s" "stop_view (s\<lparr>su_outputLog := ou\<rparr>) = stop_view s"
  by (simp_all add: stop_view_eq)

lemma stop_view_start [simp]: "stop_view (startService now i s) = stop_view s"
  unfolding startService_def Let_def by simp

lemma stop_view_stop [simp]: "stop_view (stopService now i s) = stop_view s"
  unfolding stopService_def Let_def by (simp split: option.splits)

lemma stop_view_schedule [simp]: "stop_view (scheduleRestart now i d r s) = stop_view s"
  unfolding scheduleRestart_def Let_def by simp

lemma stop_view_due [simp]: "stop_view (restart_due now i s) = stop_view s"
  unfolding restart_due_def Let_def by simp

lemma stop_view_exit [simp]: "stop_view (handleExit now i code signal s) = stop_view s"
  unfolding handleExit_def Let_def by (simp add: case_prod_beta)

lemma stop_view_spawned [simp]: "stop_view (process_spawned now i pid s) = stop_view s"
  unfolding process_spawned_def Let_def by simp

lemma stop_view_error [simp]: "stop_view (handleSpawnError now i m s) = stop_view s"
  unfolding handleSpawnError_def by simp

lemma stop_view_kills [simp]:
  "stop_view (foldl (\<lambda>s i. case en_process (su_services s ! i) of None \<Rightarrow> s | Some p \<Rightarrow> kill p g s) s is) = stop_view s"
  by (induction "is" arbitrary: s) (auto split: option.splits)

lemma stop_view_output [simp]: "stop_view (logServiceOutput now i chunk stream s) = stop_view s"
proof -
  have "stop_view (foldl (\<lambda>s l. if l = [] then s else pushOutput now i stream l s) s ls) = stop_view s" for ls
    by (induction ls arbitrary: s) (auto simp: pushOutput_def)
  then show ?thesis by (simp add: logServiceOutput_def)
qed

lemma stop_view_toggle [simp]: "stop_view (toggle_service now i s) = stop_view s"
  by (simp add: toggle_service_def Let_def)

lemma stop_view_restart_all [simp]: "stop_view (restart_all now s) = stop_view s"
  unfolding restart_all_def by simp

lemmas stop_parts [simp] = stop_view_start [unfolded stop_view_eq] stop_view_due [unfolded stop_view_eq]
  stop_view_exit [unfolded stop_view_eq] stop_view_spawned [unfolded stop_view_eq]
  stop_view_error [unfolded stop_view_eq] stop_view_kills [unfolded stop_view_eq]
  stop_view_output [unfolded stop_view_eq]

lemma shutdown_again: "su_shuttingDown s \<Longrightarrow> shutdownSupervisor now signal s = s"
  by (simp add: shutdownSupervisor_def)

lemma stop_view_key:
  "su_shuttingDown s \<Longrightarrow> stop_view (handle_key now input escape s) = stop_view s"
  unfolding handle_key_def Let_def by (simp add: shutdown_again)

subsection \<open>Before a shutdown\<close>

definition quiet :: "supervisor \<Rightarrow> bool" where
  "quiet s \<longleftrightarrow> (su_shuttingDown s \<or> su_exit s = None \<and> su_exitListeners s = [] \<and> \<not> su_forceTimer s)"

lemma quiet_view: "stop_view s' = stop_view s \<Longrightarrow> quiet s \<Longrightarrow> quiet s'"
  by (simp add: stop_view_eq quiet_def)

lemma shutdown_one_shutting [simp]: "su_shuttingDown (shutdown_one s i) = su_shuttingDown s"
  by (simp add: shutdown_one_def Let_def split: option.splits)

lemma shutdown_loop_shutting [simp]: "su_shuttingDown (foldl shutdown_one s is) = su_shuttingDown s"
  by (induction "is" arbitrary: s) simp_all

lemma shutdown_shutting: "su_shuttingDown (shutdownSupervisor now signal s)"
  by (simp add: shutdownSupervisor_def Let_def process_exit_def)

lemma quiet_shutdown: "quiet (shutdownSupervisor now signal s)"
  by (simp add: quiet_def shutdown_shutting)

lemma quiet_step: "quiet s \<Longrightarrow> quiet (sup_step s (now, ev))"
proof (cases "su_shuttingDown s")
  case True
  assume "quiet s"
  have "su_shuttingDown (shutdown_exit_listener now i s') = su_shuttingDown s'" for i s'
    by (simp add: shutdown_exit_listener_def Let_def process_exit_def)
  moreover have "su_shuttingDown (force_shutdown now s') = su_shuttingDown s'" for s'
    using stop_view_kills [of SIGKILL "pushEvent now ''Force killing remaining services'' s'" "su_running s'",
        unfolded stop_view_eq]
    by (simp add: force_shutdown_def process_exit_def)
  moreover have "su_shuttingDown (handleExit now i code signal s') = su_shuttingDown s'" for i code signal s'
    using stop_view_exit [of now i code signal s'] by (simp only: stop_view_eq)
  moreover have "su_shuttingDown (handle_key now input escape s)" for input escape
    using True stop_view_key [OF True] by (simp add: stop_view_eq)
  ultimately have "su_shuttingDown (sup_step s (now, ev))"
    using True shutdown_again [OF True]
    by (cases ev) (auto simp: Let_def stop_view_eq split: option.splits)
  then show ?thesis by (simp add: quiet_def)
next
  case False
  assume q: "quiet s"
  with False have l: "su_exitListeners s = []" "\<not> su_forceTimer s" by (simp_all add: quiet_def)
  have "quiet (handle_key now input escape s)" for input escape
    using q unfolding handle_key_def Let_def
    by (auto simp: quiet_shutdown intro: quiet_view [OF _ q])
  moreover have "su_exitListeners (handleExit now i code signal (s\<lparr>su_live := ls\<rparr>)) = []" for i code signal ls
    using stop_view_exit [of now i code signal "s\<lparr>su_live := ls\<rparr>"] l by (simp only: stop_view_eq) simp
  ultimately show ?thesis
    using q l by (cases ev) (auto simp: Let_def quiet_shutdown intro: quiet_view [OF _ q] split: option.splits)
qed

interpretation calm: reactive sup_step quiet
  by unfold_locales (metis quiet_step surj_pair)

subsection \<open>During a shutdown\<close>

text \<open>
  Either the supervisor has exited with code 0, or it still waits for \<open>su_remaining\<close> processes,
  one per exit listener, and its timer is armed.
\<close>

definition waiting :: "supervisor \<Rightarrow> bool" where
  "waiting s \<longleftrightarrow> su_shuttingDown s \<and> distinct (su_exitListeners s) \<and>
     (su_exit s = Some 0 \<or>
      su_exit s = None \<and> su_forceTimer s \<and> 0 < su_remaining s \<and>
      su_remaining s = int (length (su_exitListeners s)))"

lemma waiting_view: "stop_view s' = stop_view s \<Longrightarrow> waiting s' = waiting s"
  by (simp add: stop_view_eq waiting_def)

lemma listener_waiting:
  assumes "waiting s" "su_exit s = None" "p \<in> set (su_exitListeners s)"
  shows "waiting (shutdown_exit_listener now i (s\<lparr>su_exitListeners := removeAll p (su_exitListeners s)\<rparr>))"
proof -
  have "int (length (removeAll p (su_exitListeners s))) = su_remaining s - 1"
    using assms by (simp add: waiting_def distinct_remove1_removeAll [symmetric] length_remove1)
  with assms show ?thesis
    by (auto simp: waiting_def shutdown_exit_listener_def Let_def process_exit_def distinct_removeAll)
qed

lemma waitingD:
  "waiting s \<Longrightarrow> su_exit s = None \<Longrightarrow> su_forceTimer s \<and> 0 < su_remaining s \<and>
   su_remaining s = int (length (su_exitListeners s))"
  unfolding waiting_def by (elim conjE disjE) (simp, blast)

lemma waiting_step: "waiting s \<Longrightarrow> waiting (sup_step s (now, ev))"
proof (cases "su_exit s")
  case (Some c)
  assume "waiting s"
  with Some show ?thesis by (cases ev) simp_all
next
  case None
  assume w: "waiting s"
  then have sh: "su_shuttingDown s" by (simp add: waiting_def)
  show ?thesis
  proof (cases ev)
    case (Process_Exited p code signal)
    have "waiting (let s' = handleExit now i code signal (s\<lparr>su_live := ls\<rparr>)
           in if p \<in> set (su_exitListeners s')
              then shutdown_exit_listener now i (s'\<lparr>su_exitListeners := removeAll p (su_exitListeners s')\<rparr>)
              else s')" for i ls
    proof -
      let ?s = "handleExit now i code signal (s\<lparr>su_live := ls\<rparr>)"
      have v: "stop_view ?s = stop_view s" by simp
      then have "waiting ?s" "su_exit ?s = None" using w None waiting_view [OF v] v [unfolded stop_view_eq] by simp_all
      then show ?thesis using listener_waiting [of ?s p now i] by (simp add: Let_def)
    qed
    with Process_Exited None w show ?thesis by (simp split: option.splits)
  next
    case Force_Timer
    have "su_exitListeners (force_shutdown now s') = su_exitListeners s' \<and> su_shuttingDown (force_shutdown now s') = su_shuttingDown s'" for s'
      using stop_view_kills [of SIGKILL "pushEvent now ''Force killing remaining services'' s'" "su_running s'",
          unfolded stop_view_eq]
      by (simp add: force_shutdown_def process_exit_def)
    moreover have "su_exit (force_shutdown now (s\<lparr>su_forceTimer := False\<rparr>)) = Some 0"
    proof -
      have "0 < su_remaining s" using waitingD [OF w None] by blast
      then show ?thesis by (simp add: force_shutdown_def process_exit_def)
    qed
    ultimately show ?thesis using Force_Timer None w unfolding waiting_def by simp
  next
    case (Key input escape)
    with w None waiting_view [OF stop_view_key [OF sh]] show ?thesis by simp
  next
    case (Os_Signal signal)
    with w shutdown_again [OF sh] show ?thesis by simp
  next
    case (Process_Spawned p pid)
    with w waiting_view [OF stop_view_spawned] show ?thesis by (simp split: option.splits)
  next
    case (Process_Error p message unstarted)
    have "waiting (handleSpawnError now i message s)" "waiting (handleSpawnError now i message (s\<lparr>su_live := ls\<rparr>))"
      for i ls
      using w waiting_view [of "handleSpawnError now i message s" s]
        waiting_view [of "handleSpawnError now i message (s\<lparr>su_live := ls\<rparr>)" s] by simp_all
    with w Process_Error show ?thesis by (simp split: option.splits)
  next
    case (Process_Output i chunk stream)
    with w waiting_view [OF stop_view_output] show ?thesis by simp
  next
    case (Restart_Timer t)
    have "waiting (restart_due now i (s\<lparr>su_timers := ts\<rparr>))" for i ts
      using w waiting_view [of "restart_due now i (s\<lparr>su_timers := ts\<rparr>)" s] by simp
    with w Restart_Timer show ?thesis by (simp split: option.splits)
  qed
qed

interpretation stopping: reactive sup_step waiting
  by unfold_locales (metis waiting_step surj_pair)

lemma exited_stays: "su_exit s \<noteq> None \<Longrightarrow> sup_step s e = s"
  by (cases e; cases "snd e") auto

lemma exited_run: "su_exit s \<noteq> None \<Longrightarrow> foldl sup_step s es = s"
  by (induction es) (simp_all add: exited_stays)

lemma force_exits: "waiting s \<Longrightarrow> su_exit (sup_step s (now, Force_Timer)) = Some 0"
  by (auto simp: waiting_def force_shutdown_def process_exit_def)

lemma forced_run:
  "waiting s \<Longrightarrow> (now, Force_Timer) \<in> set es \<Longrightarrow> su_exit (foldl sup_step s es) = Some 0"
proof (induction es arbitrary: s)
  case (Cons e es)
  have w: "waiting (sup_step s e)" using Cons.prems(1) waiting_step by (cases e) simp
  show ?case
  proof (cases "e = (now, Force_Timer)")
    case True
    then have "su_exit (sup_step s e) = Some 0" using Cons.prems(1) force_exits by simp
    then show ?thesis using exited_run [of "sup_step s e" es] by simp
  next
    case False
    with Cons w show ?thesis by simp
  qed
qed simp

subsection \<open>No two services share a process\<close>

definition proc_view :: "supervisor \<Rightarrow> nat option list \<times> nat" where
  "proc_view s = (map en_process (su_services s), su_nextProcess s)"

definition procs_ok :: "supervisor \<Rightarrow> bool" where
  "procs_ok s \<longleftrightarrow>
     (\<forall>i < length (su_services s). \<forall>p. en_process (su_services s ! i) = Some p \<longrightarrow> p < su_nextProcess s \<and>
        (\<forall>j < length (su_services s). en_process (su_services s ! j) = Some p \<longrightarrow> j = i))"

definition distinct_procs :: "nat option list \<times> nat \<Rightarrow> bool" where
  "distinct_procs v \<longleftrightarrow> (\<forall>i < length (fst v). \<forall>p. fst v ! i = Some p \<longrightarrow> p < snd v \<and>
     (\<forall>j < length (fst v). fst v ! j = Some p \<longrightarrow> j = i))"

lemma procs_distinct: "procs_ok s = distinct_procs (proc_view s)"
  by (simp add: distinct_procs_def procs_ok_def proc_view_def)

lemma procs_same: "proc_view s' = proc_view s \<Longrightarrow> procs_ok s' = procs_ok s"
  by (simp add: procs_distinct)

lemma proc_view_with_service [simp]:
  "(\<And>e. en_process (f e) = en_process e) \<Longrightarrow> i < length (su_services s) \<Longrightarrow>
   proc_view (with_service i f s) = proc_view s"
  by (auto simp: proc_view_def list_eq_iff_nth_eq)

lemma proc_view_simps [simp]:
  "proc_view (pushEvent now m s) = proc_view s" "proc_view (kill p g s) = proc_view s"
  "proc_view (clear_pending i s) = proc_view s" "proc_view (s\<lparr>su_timers := ts\<rparr>) = proc_view s"
  "proc_view (s\<lparr>su_nextTimer := n\<rparr>) = proc_view s" "proc_view (s\<lparr>su_live := ls\<rparr>) = proc_view s"
  "proc_view (s\<lparr>su_mode := v\<rparr>) = proc_view s" "proc_view (s\<lparr>su_outputLog := ou\<rparr>) = proc_view s"
  "proc_view (s\<lparr>su_shuttingDown := b\<rparr>) = proc_view s" "proc_view (s\<lparr>su_running := rs\<rparr>) = proc_view s"
  "proc_view (s\<lparr>su_remaining := k\<rparr>) = proc_view s" "proc_view (s\<lparr>su_exitListeners := xs\<rparr>) = proc_view s"
  "proc_view (s\<lparr>su_forceTimer := b\<rparr>) = proc_view s" "proc_view (s\<lparr>su_exit := x\<rparr>) = proc_view s"
  by (simp_all add: proc_view_def)

lemma exit_next: "i < length (su_services s) \<Longrightarrow> su_nextProcess (handleExit now i code signal s) = su_nextProcess s"
  by (simp add: handleExit_def Let_def case_prod_beta schedule_parts del: append.simps)

lemma distinct_procsI:
  "(\<And>k p. k < length ps \<Longrightarrow> ps ! k = Some p \<Longrightarrow> p < n) \<Longrightarrow>
   (\<And>k l p. k < length ps \<Longrightarrow> l < length ps \<Longrightarrow> ps ! k = Some p \<Longrightarrow> ps ! l = Some p \<Longrightarrow> l = k) \<Longrightarrow>
   distinct_procs (ps, n)"
  unfolding distinct_procs_def by simp

lemma distinct_procsD:
  assumes "distinct_procs (ps, n)" "k < length ps" "ps ! k = Some p"
  shows "p < n" and "l < length ps \<Longrightarrow> ps ! l = Some p \<Longrightarrow> l = k"
  using assms unfolding distinct_procs_def fst_conv snd_conv by blast+

lemma distinct_procs_start:
  assumes "distinct_procs (ps, n)" "i < length ps"
  shows "distinct_procs (ps[i := Some n], Suc n)"
proof (rule distinct_procsI)
  note old = distinct_procsD [OF assms(1)]
  show "p < Suc n" if "k < length (ps[i := Some n])" "ps[i := Some n] ! k = Some p" for k p
    using that assms(2) by (auto simp: nth_list_update less_SucI split: if_splits dest: old(1))
  show "l = k" if "k < length (ps[i := Some n])" "l < length (ps[i := Some n])"
    "ps[i := Some n] ! k = Some p" "ps[i := Some n] ! l = Some p" for k l p
    using that assms(2) by (auto simp: nth_list_update split: if_splits dest: old(1) intro: old(2))
qed

lemma distinct_procs_end:
  assumes "distinct_procs (ps, n)" "i < length ps"
  shows "distinct_procs (ps[i := None], n)"
proof (rule distinct_procsI)
  note old = distinct_procsD [OF assms(1)]
  show "p < n" if "k < length (ps[i := None])" "ps[i := None] ! k = Some p" for k p
    using that assms(2) by (auto simp: nth_list_update split: if_splits dest: old(1))
  show "l = k" if "k < length (ps[i := None])" "l < length (ps[i := None])"
    "ps[i := None] ! k = Some p" "ps[i := None] ! l = Some p" for k l p
    using that assms(2) by (auto simp: nth_list_update split: if_splits intro: old(2))
qed

lemma procs_start:
  assumes "procs_ok s" "i < length (su_services s)"
  shows "procs_ok (startService now i s)"
proof -
  have "proc_view (startService now i s) =
      ((fst (proc_view s))[i := Some (snd (proc_view s))], Suc (snd (proc_view s)))"
    using assms(2) by (simp add: proc_view_def start_parts list_eq_iff_nth_eq nth_list_update)
  moreover have "i < length (fst (proc_view s))" using assms(2) by (simp add: proc_view_def)
  ultimately show ?thesis using assms(1) by (simp add: procs_distinct distinct_procs_start)
qed

lemma procs_exit:
  assumes "procs_ok s" "i < length (su_services s)"
  shows "procs_ok (handleExit now i code signal s)"
proof -
  have "proc_view (handleExit now i code signal s) = ((fst (proc_view s))[i := None], snd (proc_view s))"
    using assms(2) by (simp add: proc_view_def exit_parts exit_next list_eq_iff_nth_eq nth_list_update)
  moreover have "i < length (fst (proc_view s))" using assms(2) by (simp add: proc_view_def)
  ultimately show ?thesis using assms(1) by (simp add: procs_distinct distinct_procs_end)
qed

lemma proc_view_stop [simp]: "i < length (su_services s) \<Longrightarrow> proc_view (stopService now i s) = proc_view s"
  unfolding stopService_def Let_def by (simp split: option.splits)

lemma proc_view_shutdown_one [simp]: "i < length (su_services s) \<Longrightarrow> proc_view (shutdown_one s i) = proc_view s"
  unfolding shutdown_one_def Let_def by (simp split: option.splits)

lemma proc_view_shutdown_loop [simp]:
  "\<forall>i \<in> set is. i < length (su_services s) \<Longrightarrow> proc_view (foldl shutdown_one s is) = proc_view s"
  by (induction "is" arbitrary: s) simp_all

lemma proc_view_shutdown [simp]: "proc_view (shutdownSupervisor now signal s) = proc_view s"
  unfolding shutdownSupervisor_def Let_def process_exit_def by (simp add: running_services_def)

lemma proc_view_kills [simp]:
  "proc_view (foldl (\<lambda>s i. case en_process (su_services s ! i) of None \<Rightarrow> s | Some p \<Rightarrow> kill p g s) s is) = proc_view s"
  by (induction "is" arbitrary: s) (auto split: option.splits)

lemma proc_view_output [simp]: "proc_view (logServiceOutput now i chunk stream s) = proc_view s"
proof -
  have "proc_view (foldl (\<lambda>s l. if l = [] then s else pushOutput now i stream l s) s ls) = proc_view s" for ls
    by (induction ls arbitrary: s) (auto simp: pushOutput_def)
  then show ?thesis by (simp add: logServiceOutput_def)
qed

lemma procs_key: "procs_ok s \<Longrightarrow> procs_ok (handle_key now input escape s)"
proof -
  assume p: "procs_ok s"
  then have "procs_ok (toggle_service now i s)" for i
    by (simp add: toggle_service_def Let_def procs_start procs_same [OF proc_view_stop])
  with p show ?thesis
    unfolding handle_key_def restart_all_def Let_def by (simp add: procs_distinct)
qed

lemma procs_step:
  assumes "procs_ok s" "sup_inv s"
  shows "procs_ok (sup_step s (now, ev))"
proof (cases ev)
  case (Process_Spawned p pid)
  have "procs_ok (process_spawned now i pid s)" if "map_of (su_live s) p = Some i" for i
    using assms live_index [OF assms(2) that] unfolding process_spawned_def Let_def by (simp add: procs_distinct)
  with assms Process_Spawned show ?thesis by (simp split: option.splits)
next
  case (Process_Exited p code signal)
  have "procs_ok (handleExit now i code signal (s\<lparr>su_live := ls\<rparr>))" if "map_of (su_live s) p = Some i" for i ls
    using assms(1) live_index [OF assms(2) that]
    by (intro procs_exit) (simp_all add: procs_distinct)
  moreover have "procs_ok (shutdown_exit_listener now i (s'\<lparr>su_exitListeners := xs\<rparr>))" if "procs_ok s'" for i s' xs
    using that by (simp add: shutdown_exit_listener_def Let_def process_exit_def procs_distinct)
  ultimately show ?thesis using assms Process_Exited by (simp add: Let_def split: option.splits)
next
  case (Process_Error p message unstarted)
  have "procs_ok (handleSpawnError now i message s)" "procs_ok (handleSpawnError now i message (s\<lparr>su_live := ls\<rparr>))"
    if "map_of (su_live s) p = Some i" for i ls
    using assms live_index [OF assms(2) that] unfolding handleSpawnError_def by (simp_all add: procs_distinct)
  with assms Process_Error show ?thesis by (simp split: option.splits)
next
  case (Restart_Timer t)
  have "procs_ok (restart_due now i (s\<lparr>su_timers := ts\<rparr>))" if "map_of (su_timers s) t = Some i" for i ts
  proof -
    have i: "i < length (su_services s)"
      using assms(2) timers_entry [of s t i] map_of_SomeD [OF that] by (simp add: sup_inv_def)
    have core: "procs_ok (if su_shuttingDown s1 then pushEvent now m s1
        else startService now i (pushEvent now m' (with_service i
          (\<lambda>e. e\<lparr>en_status := Restarting, en_statusMessage := Some ''restarting now''\<rparr>) s1)))"
      if "procs_ok s1" "i < length (su_services s1)" for s1 m m'
    proof -
      have "procs_ok (pushEvent now m s1)" "procs_ok (pushEvent now m' (with_service i
          (\<lambda>e. e\<lparr>en_status := Restarting, en_statusMessage := Some ''restarting now''\<rparr>) s1))"
        using that by (simp_all add: procs_distinct)
      with that show ?thesis by (simp add: procs_start)
    qed
    show ?thesis
      unfolding restart_due_def Let_def
      by (rule core) (use assms(1) i in \<open>simp_all add: procs_distinct\<close>)
  qed
  with assms Restart_Timer show ?thesis by (simp split: option.splits)
next
  case Force_Timer
  with assms(1) show ?thesis by (simp add: force_shutdown_def process_exit_def procs_distinct)
qed (use assms procs_key in \<open>auto simp: procs_distinct\<close>)

lemma shutdown_loop_listeners:
  "\<forall>i \<in> set is. i < length (su_services s) \<and> en_process (su_services s ! i) \<noteq> None \<Longrightarrow>
   su_exitListeners (foldl shutdown_one s is) =
     su_exitListeners s @ map (\<lambda>i. the (en_process (su_services s ! i))) is \<and>
   su_remaining (foldl shutdown_one s is) = su_remaining s \<and> su_exit (foldl shutdown_one s is) = su_exit s"
proof (induction "is" arbitrary: s)
  case (Cons i "is")
  have p: "en_process (su_services (shutdown_one s i) ! j) = en_process (su_services s ! j)" for j
    using Cons.prems by (auto simp: shutdown_one_def Let_def split: option.splits)
  have "su_exitListeners (shutdown_one s i) = su_exitListeners s @ [the (en_process (su_services s ! i))] \<and>
      su_remaining (shutdown_one s i) = su_remaining s \<and> su_exit (shutdown_one s i) = su_exit s"
    using Cons.prems by (auto simp: shutdown_one_def Let_def)
  with Cons.IH [of "shutdown_one s i"] Cons.prems show ?case by (simp add: p)
qed simp

lemma shutdown_begins:
  assumes "quiet s" "\<not> su_shuttingDown s" "procs_ok s"
  shows "waiting (shutdownSupervisor now signal s)"
proof -
  let ?r = "running_services s"
  let ?s = "pushEvent now (''Supervisor received '' @ signal @ ''; shutting down services'') (s\<lparr>su_shuttingDown := True\<rparr>)"
  let ?s1 = "?s\<lparr>su_running := ?r, su_remaining := int (length ?r)\<rparr>"
  have r: "running_services ?s = ?r" by (simp add: running_services_def)
  have run: "\<forall>i \<in> set ?r. i < length (su_services ?s1) \<and> en_process (su_services ?s1 ! i) \<noteq> None"
    by (auto simp: running_services_def)
  have "inj_on (\<lambda>i. the (en_process (su_services s ! i))) (set ?r)"
  proof (rule inj_onI)
    fix i j
    assume ij: "i \<in> set ?r" "j \<in> set ?r"
      "the (en_process (su_services s ! i)) = the (en_process (su_services s ! j))"
    then obtain p where "i < length (su_services s)" "en_process (su_services s ! i) = Some p"
      "j < length (su_services s)" "en_process (su_services s ! j) = Some p"
      by (auto simp: running_services_def)
    with assms(3) have "j = i" unfolding procs_ok_def by blast
    then show "i = j" by simp
  qed
  then have d: "distinct (map (\<lambda>i. the (en_process (su_services s ! i))) ?r)"
    by (simp add: distinct_map running_services_def)
  have q: "su_exit s = None" "su_exitListeners s = []" using assms by (simp_all add: quiet_def)
  show ?thesis
  proof (cases "?r = []")
    case True
    with assms q show ?thesis
      by (simp add: shutdownSupervisor_def Let_def r process_exit_def waiting_def del: append.simps)
  next
    case False
    then have "shutdownSupervisor now signal s = (foldl shutdown_one ?s1 ?r)\<lparr>su_forceTimer := True\<rparr>"
      using assms(2) by (simp add: shutdownSupervisor_def Let_def r del: append.simps)
    with shutdown_loop_listeners [OF run] q d False show ?thesis
      by (simp add: waiting_def del: append.simps)
  qed
qed

definition fresh_stop :: "bool \<times> nat list \<times> int \<times> bool \<times> int option" where
  "fresh_stop = (False, [], 0, False, None)"

lemma start_all_stop: "stop_view (startAllServices now s) = stop_view s"
proof -
  have "stop_view (foldl (\<lambda>s i. startService now i s) s' is) = stop_view s'" for s' "is"
    by (induction "is" arbitrary: s') simp_all
  then show ?thesis by (simp add: startAllServices_def)
qed

lemma start_all_procs: "procs_ok s \<Longrightarrow> procs_ok (startAllServices now s)"
proof -
  have "procs_ok s' \<Longrightarrow> \<forall>i \<in> set is. i < length (su_services s') \<Longrightarrow>
      procs_ok (foldl (\<lambda>s i. startService now i s) s' is)" for s' "is"
    by (induction "is" arbitrary: s') (simp_all add: procs_start start_parts)
  then show "procs_ok s \<Longrightarrow> ?thesis" by (simp add: startAllServices_def)
qed

lemma load_quiet:
  assumes "loadConfig configs = Some s"
  shows "stop_view s = fresh_stop" and "procs_ok s"
  using assms by (auto simp: loadConfig_def stop_view_def fresh_stop_def procs_ok_def loaded_entry_def split: if_splits)

lemma start_cases:
  assumes "startSupervisor now configs manual = Some s"
  obtains s0 m m' where "loadConfig configs = Some s0"
    "s = (if manual then pushEvent now m' (pushEvent now m s0) else startAllServices now (pushEvent now m s0))"
  using assms by (cases "loadConfig configs") (auto simp: startSupervisor_def Let_def simp del: append.simps split: if_splits)

lemma started_quiet: "startSupervisor now configs manual = Some s \<Longrightarrow> quiet s \<and> \<not> su_shuttingDown s \<and> procs_ok s"
proof -
  assume "startSupervisor now configs manual = Some s"
  then obtain s0 m m' where s0: "loadConfig configs = Some s0"
    "s = (if manual then pushEvent now m' (pushEvent now m s0) else startAllServices now (pushEvent now m s0))"
    by (rule start_cases)
  have "stop_view s = fresh_stop" using load_quiet(1) [OF s0(1)] by (simp add: s0(2) start_all_stop)
  moreover have "procs_ok s"
    using load_quiet(2) [OF s0(1)] by (simp add: s0(2) start_all_procs procs_distinct [of "pushEvent now a b" for a b]
      procs_distinct [of s0])
  ultimately show ?thesis by (simp add: stop_view_def fresh_stop_def quiet_def)
qed

definition reached :: "supervisor \<Rightarrow> bool" where
  "reached s \<longleftrightarrow> sup_inv s \<and> quiet s \<and> procs_ok s"

interpretation reached: reactive sup_step reached
proof
  fix s e
  show "reached s \<Longrightarrow> reached (sup_step s e)"
    by (cases e) (simp add: reached_def sup_step_inv quiet_step procs_step)
qed

lemma started_reached: "startSupervisor now configs manual = Some s \<Longrightarrow> reached s"
  using started_inv started_quiet by (simp add: reached_def)

end
