(* ===== verification/Supervisor_Properties.thy ===== *)
theory Supervisor_Properties
  imports Supervisor_Shutdown
begin

text \<open>The promises of the supervisor, over every sequence of keys, signals, exits and timers.\<close>

definition sample_service :: "string \<Rightarrow> restart_policy \<Rightarrow> sup_config" where
  "sample_service name policy = \<lparr>co_name = name, co_restart = Some policy, co_maxRestarts = Some 1,
     co_restartDelay = Some 100, co_restartOnUnexpectedExit = None, co_logColor = None\<rparr>"

definition sample_started :: supervisor where
  "sample_started = the (startSupervisor ''t'' [sample_service ''a'' Always, sample_service ''b'' Never] False)"

lemma sample_started:
  "startSupervisor ''t'' [sample_service ''a'' Always, sample_service ''b'' Never] False = Some sample_started"
  by (simp add: sample_started_def startSupervisor_def loadConfig_def Let_def)

text \<open>C40.
  Whatever happens, a service is restarted at most as often as its budget allows (5 times by
  default), it has at most one armed restart timer and that is the one its entry names, and the
  two logs keep at most 8 and 40 entries.\<close>

theorem supervisor_stays_within_bounds:
  assumes "startSupervisor now configs manual = Some s"
  shows "sup_inv (foldl sup_step s es)"
  by (rule supervision.inv_run [OF started_inv [OF assms]])

definition sample_crashes :: "(string \<times> sup_event) list" where
  "sample_crashes = [(''t'', Process_Exited 0 (Some 1) None), (''t'', Restart_Timer 0),
     (''t'', Process_Exited 2 (Some 1) None)]"

theorem supervisor_stays_within_bounds_witness:
  "map en_restarts (su_services (foldl sup_step sample_started sample_crashes)) = [1, 0]
   \<and> sup_inv (foldl sup_step sample_started sample_crashes)"
proof
  show "map en_restarts (su_services (foldl sup_step sample_started sample_crashes)) = [1, 0]" by code_simp
  show "sup_inv (foldl sup_step sample_started sample_crashes)"
    by (rule supervisor_stays_within_bounds [OF sample_started])
qed

text \<open>C5.
  As long as nobody presses the digit of a service that is being stopped but whose process has not
  ended, every service has at most one live process, and its entry names it.\<close>

theorem one_process_per_service:
  assumes "startSupervisor now configs manual = Some s" "patient_run s es"
    and "(p, i) \<in> set (su_live (foldl sup_step s es))" "(q, i) \<in> set (su_live (foldl sup_step s es))"
  shows "p = q \<and> en_process (su_services (foldl sup_step s es) ! i) = Some p"
proof -
  have "one_process (foldl sup_step s es)"
    using assms(1,2) by (intro patient_run_one started_one started_inv)
  then have "en_process (su_services (foldl sup_step s es) ! i) = Some p"
    "en_process (su_services (foldl sup_step s es) ! i) = Some q"
    using assms(3,4) unfolding one_process_def by blast+
  then show ?thesis by simp
qed

definition sample_presses :: "(string \<times> sup_event) list" where
  "sample_presses = [(''t'', Key ''1'' False), (''t'', Process_Exited 0 None (Some ''SIGTERM'')), (''t'', Key ''1'' False)]"

theorem one_process_per_service_witness:
  "en_process (su_services (foldl sup_step sample_started sample_presses) ! 0) = Some 2"
proof -
  have "patient_run sample_started sample_presses" by code_simp
  moreover have "(2, 0) \<in> set (su_live (foldl sup_step sample_started sample_presses))" by code_simp
  ultimately show ?thesis using one_process_per_service [OF sample_started] by blast
qed

text \<open>Without that patience it can have two: a first press of its digit stops the service, a second one
  before the process has ended starts another, and the exit of the first then makes the supervisor
  forget the second and schedule a third.\<close>

theorem impatient_key_starts_a_second_process:
  "su_live (foldl sup_step sample_started [(''t'', Key ''1'' False), (''t'', Key ''1'' False)])
      = [(0, 0), (1, 1), (2, 0)]
   \<and> su_live (foldl sup_step sample_started [(''t'', Key ''1'' False), (''t'', Key ''1'' False),
        (''t'', Process_Exited 0 None (Some ''SIGTERM'')), (''t'', Restart_Timer 0)])
      = [(1, 1), (2, 0), (3, 0)]"
proof
  show "su_live (foldl sup_step sample_started [(''t'', Key ''1'' False), (''t'', Key ''1'' False)])
      = [(0, 0), (1, 1), (2, 0)]" by code_simp
  show "su_live (foldl sup_step sample_started [(''t'', Key ''1'' False), (''t'', Key ''1'' False),
        (''t'', Process_Exited 0 None (Some ''SIGTERM'')), (''t'', Restart_Timer 0)])
      = [(1, 1), (2, 0), (3, 0)]" by code_simp
qed

text \<open>C11.
  A shutdown comes to an end: whatever else happens after the signal, and even if no process obeys
  it, the supervisor has exited with code 0 once the shutdown timer has fired.\<close>

theorem shutdown_terminates:
  assumes "startSupervisor now configs manual = Some s"
    and "\<not> su_shuttingDown (foldl sup_step s before)"
    and "(t', Force_Timer) \<in> set es"
  shows "su_exit (foldl sup_step (sup_step (foldl sup_step s before) (t, Os_Signal signal)) es) = Some 0"
proof -
  let ?s = "foldl sup_step s before"
  have r: "reached ?s" using assms(1) by (intro reached.inv_run started_reached)
  then have "su_exit ?s = None" using assms(2) by (simp add: reached_def quiet_def)
  then have "sup_step ?s (t, Os_Signal signal) = shutdownSupervisor t signal ?s" by simp
  moreover have "waiting (shutdownSupervisor t signal ?s)"
    using r assms(2) by (intro shutdown_begins) (simp_all add: reached_def)
  ultimately show ?thesis using assms(3) by (simp add: forced_run)
qed

theorem shutdown_terminates_witness:
  "su_exit (foldl sup_step (sup_step (foldl sup_step sample_started sample_presses) (''t'', Os_Signal ''SIGINT''))
     [(''t'', Key ''h'' False), (''u'', Force_Timer)]) = Some 0"
proof -
  have "\<not> su_shuttingDown (foldl sup_step sample_started sample_presses)" by code_simp
  then show ?thesis by (rule shutdown_terminates [OF sample_started]) simp
qed

text \<open>C32.
  When a process ends while nothing is being stopped, its service is scheduled for a restart
  exactly if restarts on unexpected exit are not disabled, the budget is not used up, and the
  policy is ``always'', or ``on-failure'' with an exit code other than 0 (a signal counts as a
  failure).  Otherwise nothing is scheduled.\<close>

theorem restart_policy_is_followed:
  assumes "i < length (su_services s)" "\<not> en_shuttingDown (su_services s ! i)" "\<not> su_shuttingDown s"
    and "en_pendingRestart (su_services s ! i) = None"
  shows "en_pendingRestart (su_services (handleExit now i code signal s) ! i) \<noteq> None \<longleftrightarrow>
    nullish (co_restartOnUnexpectedExit (en_config (su_services s ! i))) True
    \<and> en_restarts (su_services s ! i) < nullish (co_maxRestarts (en_config (su_services s ! i))) 5
    \<and> (co_restart (en_config (su_services s ! i)) = Some Always
       \<or> co_restart (en_config (su_services s ! i)) = Some On_Failure \<and> code \<noteq> Some 0)"
proof -
  have "nullish code (- 1) = 0 \<longleftrightarrow> code = Some 0" by (cases code) simp_all
  moreover have "nullish p Never = q \<longleftrightarrow> p = Some q" if "q = Always \<or> q = On_Failure" for p q
    using that by (cases p) auto
  ultimately show ?thesis
    using assms
    by (auto simp: handleExit_def Let_def case_prod_beta schedule_parts determineRestartDecision_def
        simp del: append.simps)
qed

theorem restart_policy_is_followed_witness:
  "en_pendingRestart (su_services (handleExit ''t'' 0 (Some 0) None sample_started) ! 0) \<noteq> None
   \<and> en_pendingRestart (su_services (handleExit ''t'' 1 (Some 1) None sample_started) ! 1) = None"
proof -
  have "0 < length (su_services sample_started) \<and> \<not> en_shuttingDown (su_services sample_started ! 0)
      \<and> en_pendingRestart (su_services sample_started ! 0) = None" by code_simp
  moreover have "1 < length (su_services sample_started) \<and> \<not> en_shuttingDown (su_services sample_started ! 1)
      \<and> en_pendingRestart (su_services sample_started ! 1) = None" by code_simp
  moreover have "\<not> su_shuttingDown sample_started" by code_simp
  moreover have "en_config (su_services sample_started ! 0) = sample_service ''a'' Always
      \<and> en_config (su_services sample_started ! 1) = sample_service ''b'' Never
      \<and> en_restarts (su_services sample_started ! 0) = 0" by code_simp
  ultimately show ?thesis
    using restart_policy_is_followed [of 0 sample_started "''t''" "Some 0" None]
      restart_policy_is_followed [of 1 sample_started "''t''" "Some 1" None]
    by (simp add: sample_service_def)
qed

text \<open>The output log shows the last 40 lines: logging a chunk appends the non-empty lines it decodes to, in order
  and labelled with the service and the stream, and drops the oldest entries.\<close>

theorem output_log_is_a_tail:
  assumes "length (su_outputLog s) \<le> 40"
  shows "su_outputLog (logServiceOutput now i chunk stream s) =
    (let ls = su_outputLog s @ map (output_line now (en_config (su_services s ! i)) stream)
                (filter (\<lambda>l. l \<noteq> []) (split_lines (utf8_text chunk)))
     in drop (length ls - 40) ls)"
proof -
  let ?line = "output_line now (en_config (su_services s ! i)) stream"
  have "su_outputLog (foldl (\<lambda>s l. if l = [] then s else pushOutput now i stream l s) s' ls) =
      foldl (\<lambda>l x. push_bounded 40 x l) (su_outputLog s') (map ?line (filter (\<lambda>l. l \<noteq> []) ls))"
    if "su_services s' = su_services s" for s' ls
    using that by (induction ls arbitrary: s') (simp_all add: pushOutput_def)
  then show ?thesis
    using output_log.pushes [OF assms, of "map ?line (filter (\<lambda>l. l \<noteq> []) (split_lines (utf8_text chunk)))"]
    by (simp add: logServiceOutput_def Let_def)
qed

theorem output_log_is_a_tail_witness:
  "map ou_message (su_outputLog (logServiceOutput ''t'' 0 [CHR ''x'', CHR 0x0D, CHR 0x0A, CHR 0x0A, CHR ''y''] Stderr
     sample_started)) = [''x'', ''y'']"
proof -
  have log: "su_outputLog sample_started = []" by code_simp
  have "split_lines (utf8_text [CHR ''x'', CHR 0x0D, CHR 0x0A, CHR 0x0A, CHR ''y'']) = [''x'', [], ''y'']" by code_simp
  with log show ?thesis
    by (subst output_log_is_a_tail) (simp_all add: output_line_def)
qed

end
