(* ===== verification/Broker.thy ===== *)
theory Broker
  imports Runtime_Prelude Replication "HOL-Library.Multiset"
begin

text \<open>
  The service registry (\<open>packages/broker/src/broker.ts\<close>) and the part of its client that talks to
  it (\<open>BrokerClientManager.ts\<close>).  A call of the server is answered by invoking its callback; a
  handler that never does so leaves the caller waiting, which is \<open>No_Answer\<close>.
\<close>

record service_info =
  bs_name :: string
  bs_role :: string
  bs_url :: string
  bs_port :: int

record change_notification =
  nt_interfaceName :: string
  nt_role :: string
  nt_url :: string
  nt_port :: int
  nt_changeType :: string

record broker =
  bk_services :: "service_info list"
  bk_listeners :: "nat list"

datatype broker_answer =
    No_Answer
  | Invalid_Request
  | Done
  | Lookup_Answer string int string
  | Services_Answer "service_info list"
  | Streaming

datatype broker_call =
    Register_Service "(string \<times> string) option" string int
  | Lookup_Service string string
  | Get_Available_Services
  | Unregister_Service string string
  | Notify_Service_Changes nat
  | Listener_Cancelled nat

definition serviceChange :: "service_info \<Rightarrow> string \<Rightarrow> change_notification" where
  "serviceChange s change =
     \<lparr>nt_interfaceName = bs_name s, nt_role = bs_role s, nt_url = bs_url s, nt_port = bs_port s,
      nt_changeType = change\<rparr>"

text \<open>What \<open>notifyAllListeners\<close> writes, and to whom.\<close>

definition notifyAllListeners :: "broker \<Rightarrow> change_notification \<Rightarrow> (nat \<times> change_notification) list" where
  "notifyAllListeners b notification = map (\<lambda>l. (l, notification)) (bk_listeners b)"

text \<open>\<open>findIndex\<close> and \<open>splice\<close>: the first item that satisfies \<open>P\<close>, and the list without it.\<close>

fun splice_first :: "('a \<Rightarrow> bool) \<Rightarrow> 'a list \<Rightarrow> 'a option \<times> 'a list" where
  "splice_first P [] = (None, [])"
| "splice_first P (x # xs) =
     (if P x then (Some x, xs) else (let (y, ys) = splice_first P xs in (y, x # ys)))"

fun broker_step :: "broker \<Rightarrow> broker_call \<Rightarrow> broker \<times> broker_answer \<times> change_notification list" where
  "broker_step b (Register_Service info url port) =
     (case info of
        None \<Rightarrow> (b, Invalid_Request, [])
      | Some (interfaceName, role) \<Rightarrow>
          (let sv = \<lparr>bs_name = interfaceName, bs_role = role, bs_url = url, bs_port = port\<rparr>
           in (b\<lparr>bk_services := bk_services b @ [sv]\<rparr>, Done, [serviceChange sv ''added''])))"
| "broker_step b (Lookup_Service interfaceName role) =
     (case List.find (\<lambda>s. bs_name s = interfaceName) (bk_services b) of
        None \<Rightarrow> (b, Lookup_Answer [] 0 ''Service not found'', [])
      | Some s \<Rightarrow> (b, Lookup_Answer (bs_url s) (bs_port s) [], []))"
| "broker_step b Get_Available_Services = (b, Services_Answer (bk_services b), [])"
| "broker_step b (Unregister_Service interfaceName role) =
     (case splice_first (\<lambda>s. bs_name s = interfaceName) (bk_services b) of
        (None, _) \<Rightarrow> (b, No_Answer, [])
      | (Some s, rest) \<Rightarrow> (b\<lparr>bk_services := rest\<rparr>, Done, [serviceChange s ''removed'']))"
| "broker_step b (Notify_Service_Changes l) = (b\<lparr>bk_listeners := bk_listeners b @ [l]\<rparr>, Streaming, [])"
| "broker_step b (Listener_Cancelled l) = (b\<lparr>bk_listeners := remove1 l (bk_listeners b)\<rparr>, No_Answer, [])"

text \<open>A run, with everything that was written to the listeners.\<close>

definition broker_writes :: "broker \<Rightarrow> broker_call \<Rightarrow> (nat \<times> change_notification) list" where
  "broker_writes b c =
     (case broker_step b c of (b', _, ns) \<Rightarrow> concat (map (notifyAllListeners b') ns))"

fun run_broker :: "broker \<Rightarrow> broker_call list \<Rightarrow> broker \<times> (nat \<times> change_notification) list" where
  "run_broker b [] = (b, [])"
| "run_broker b (c # cs) =
     (let (b', ws) = run_broker (fst (broker_step b c)) cs in (b', broker_writes b c @ ws))"

definition initial_broker :: broker where
  "initial_broker = \<lparr>bk_services = [], bk_listeners = []\<rparr>"

subsection \<open>Lemmas on the registry list\<close>

lemma splice_first_None: "fst (splice_first P xs) = None \<longleftrightarrow> (\<forall>x \<in> set xs. \<not> P x)"
  by (induction xs) (auto simp: case_prod_beta Let_def)

lemma splice_first_find: "fst (splice_first P xs) = List.find P xs"
  by (induction xs) (auto simp: case_prod_beta Let_def)

lemma splice_first_same: "filter P (snd (splice_first P xs)) = tl (filter P xs)"
  by (induction xs) (auto simp: case_prod_beta Let_def)

lemma splice_first_other: "(\<And>x. P x \<Longrightarrow> \<not> Q x) \<Longrightarrow> filter Q (snd (splice_first P xs)) = filter Q xs"
  by (induction xs) (auto simp: case_prod_beta Let_def)

lemma find_filter: "List.find P xs = (case filter P xs of [] \<Rightarrow> None | x # _ \<Rightarrow> Some x)"
  by (induction xs) auto

lemma splice_first_mset: "fst (splice_first P xs) = Some x \<Longrightarrow> mset (snd (splice_first P xs)) = mset xs - {#x#}"
proof (induction xs)
  case (Cons y ys)
  show ?case
  proof (cases "P y")
    case True
    with Cons.prems show ?thesis by simp
  next
    case False
    with Cons.prems have f: "fst (splice_first P ys) = Some x" by (simp add: case_prod_beta Let_def)
    then have "x \<in> set ys" by (metis splice_first_find find_Some_iff nth_mem)
    with False Cons.IH [OF f] show ?thesis by (simp add: case_prod_beta Let_def)
  qed
qed simp

subsection \<open>A mirror of the registry\<close>

text \<open>A listener that keeps the multiset of services by the notifications it gets.\<close>

definition service_of :: "change_notification \<Rightarrow> service_info" where
  "service_of n = \<lparr>bs_name = nt_interfaceName n, bs_role = nt_role n, bs_url = nt_url n, bs_port = nt_port n\<rparr>"

definition mirror_change :: "service_info multiset \<Rightarrow> change_notification \<times> unit \<Rightarrow> service_info multiset" where
  "mirror_change m c =
     (if nt_changeType (fst c) = ''added'' then add_mset (service_of (fst c)) m
      else if nt_changeType (fst c) = ''removed'' then m - {#service_of (fst c)#} else m)"

definition broker_changes :: "broker \<Rightarrow> broker_call \<Rightarrow> broker \<times> change_notification list" where
  "broker_changes b c = (case broker_step b c of (b', _, ns) \<Rightarrow> (b', ns))"

lemma service_of_change [simp]:
  "service_of (serviceChange s ch) = s" "nt_changeType (serviceChange s ch) = ch"
  by (simp_all add: service_of_def serviceChange_def)

interpretation mirror: replicated_store broker_changes "\<lambda>b. True" mirror_change "\<lambda>b m. m = mset (bk_services b)" "\<lambda>n. False"
proof unfold_locales
  fix b m c and ms :: "(change_notification \<times> unit) list"
  assume m: "m = mset (bk_services b)" and ms: "map fst ms = snd (broker_changes b c)"
  show "foldl mirror_change m ms = mset (bk_services (fst (broker_changes b c)))"
  proof (cases c)
    case (Unregister_Service interfaceName role)
    obtain s rest where sp: "splice_first (\<lambda>s. bs_name s = interfaceName) (bk_services b) = (s, rest)" by force
    with Unregister_Service m ms splice_first_mset [of "\<lambda>s. bs_name s = interfaceName" "bk_services b"] show ?thesis
      by (cases s) (auto simp: broker_changes_def map_eq_Cons_conv mirror_change_def)
  qed (use m ms in \<open>auto simp: broker_changes_def map_eq_Cons_conv mirror_change_def Let_def
      split: option.splits\<close>)
qed simp_all

lemma run_broker_changes: "fst (run_broker b cs) = fst (run_updates broker_changes b cs)"
  by (induction cs arbitrary: b) (simp_all add: broker_changes_def case_prod_beta Let_def)

fun keeps_listener :: "nat \<Rightarrow> broker_call \<Rightarrow> bool" where
  "keeps_listener l (Notify_Service_Changes k) = (k \<noteq> l)"
| "keeps_listener l (Listener_Cancelled k) = (k \<noteq> l)"
| "keeps_listener l c = True"

definition written_to :: "nat \<Rightarrow> (nat \<times> change_notification) list \<Rightarrow> change_notification list" where
  "written_to l ws = map snd (filter (\<lambda>(k, n). k = l) ws)"

lemma written_to_append [simp]: "written_to l (ws @ vs) = written_to l ws @ written_to l vs"
  by (simp add: written_to_def)

lemma written_notify: "count_list (bk_listeners b) l = 1 \<Longrightarrow> written_to l (notifyAllListeners b n) = [n]"
proof -
  have "written_to l (map (\<lambda>k. (k, n)) ls) = replicate (count_list ls l) n" for ls
    by (induction ls) (auto simp: written_to_def)
  then show "count_list (bk_listeners b) l = 1 \<Longrightarrow> ?thesis" by (simp add: notifyAllListeners_def)
qed

lemma written_step:
  assumes "count_list (bk_listeners b) l = 1" "keeps_listener l c"
  shows "written_to l (broker_writes b c) = snd (broker_changes b c)
    \<and> count_list (bk_listeners (fst (broker_step b c))) l = 1"
proof -
  have r: "count_list (remove1 k ls) l = count_list ls l" if "k \<noteq> l" for k and ls :: "nat list"
    using that by (induction ls) auto
  have n: "written_to l (notifyAllListeners (b\<lparr>bk_services := ss\<rparr>) x) = [x]" for ss x
    using assms(1) by (intro written_notify) simp
  show ?thesis
    using assms n by (cases c) (auto simp: broker_writes_def broker_changes_def written_to_def r Let_def
        split: option.splits prod.splits)
qed

lemma written_run:
  "count_list (bk_listeners b) l = 1 \<Longrightarrow> \<forall>c \<in> set cs. keeps_listener l c \<Longrightarrow>
   written_to l (snd (run_broker b cs)) = snd (run_updates broker_changes b cs)"
proof (induction cs arbitrary: b)
  case (Cons c cs)
  then show ?case
    using written_step [of b l c] by (simp add: case_prod_beta Let_def broker_changes_def)
qed (simp add: written_to_def)

subsection \<open>The client of the broker\<close>

text \<open>
  \<open>BrokerClientManager\<close>: what it registered, and whether its gRPC client is present.  A promise that
  is never settled is \<open>Pending\<close>.
\<close>

datatype 'a promise = Pending | Resolved 'a | Rejected string

record broker_client =
  bc_connected :: bool
  bc_registered :: "service_info list"

definition available_services :: "broker_client \<Rightarrow> broker \<Rightarrow> service_info list promise" where
  "available_services c b =
     (if bc_connected c
      then (case broker_step b Get_Available_Services of
              (_, Services_Answer ss, _) \<Rightarrow> Resolved ss
            | _ \<Rightarrow> Rejected ''Failed to get available services'')
      else Pending)"

definition getService :: "broker_client \<Rightarrow> broker \<Rightarrow> string \<Rightarrow> string \<Rightarrow> (string \<times> int) option promise" where
  "getService c b serviceName role =
     (case available_services c b of
        Pending \<Rightarrow> Pending
      | Rejected e \<Rightarrow> Rejected e
      | Resolved clients \<Rightarrow>
          Resolved (map_option (\<lambda>s. (bs_url s, bs_port s))
            (List.find (\<lambda>s. bs_name s = serviceName \<and> bs_role s = role) clients)))"

definition client_register :: "broker_client \<Rightarrow> broker \<Rightarrow> string \<Rightarrow> string \<Rightarrow> int \<Rightarrow> broker_client \<times> broker" where
  "client_register c b serviceName url port =
     (let info = \<lparr>bs_name = serviceName, bs_role = ''default'', bs_url = url, bs_port = port\<rparr> in
      if bc_connected c
      then (case broker_step b (Register_Service (Some (bs_name info, bs_role info)) (bs_url info) (bs_port info)) of
              (b', Done, _) \<Rightarrow> (c\<lparr>bc_registered := bc_registered c @ [info]\<rparr>, b')
            | (b', _, _) \<Rightarrow> (c, b'))
      else (c, b))"

text \<open>
  The promise of \<open>unregisterService\<close>.  Without a client there is no call and nothing settles it.  A call
  that the broker answers settles it.  A call that the broker does not answer stays open: gRPC fails it,
  and so rejects the promise, when the connection is lost.
\<close>

datatype unregistering = Not_Sent | Unanswered | Answered | Refused

definition client_unregister :: "broker_client \<Rightarrow> broker \<Rightarrow> service_info \<Rightarrow> unregistering \<times> broker" where
  "client_unregister c b info =
     (if bc_connected c
      then (case broker_step b (Unregister_Service (bs_name info) (bs_role info)) of
              (b', Done, _) \<Rightarrow> (Answered, b')
            | (b', No_Answer, _) \<Rightarrow> (Unanswered, b')
            | (b', _, _) \<Rightarrow> (Refused, b'))
      else (Not_Sent, b))"

text \<open>The error of an open call when the connection is lost: the promise is rejected.\<close>

definition unregister_lost :: "unregistering \<Rightarrow> unregistering" where
  "unregister_lost p = (if p = Unanswered then Refused else p)"

text \<open>
  \<open>shutdown\<close> issues all calls, in order, and waits for every promise; a rejected one is caught
  and logged, the others are waited for.
\<close>

fun unregister_all :: "broker_client \<Rightarrow> broker \<Rightarrow> service_info list \<Rightarrow> unregistering list \<times> broker" where
  "unregister_all c b [] = ([], b)"
| "unregister_all c b (s # ss) =
     (let (p, b) = client_unregister c b s; (ps, b) = unregister_all c b ss in (p # ps, b))"

definition client_shutdown :: "broker_client \<Rightarrow> broker \<Rightarrow> unregistering list \<times> broker_client \<times> broker" where
  "client_shutdown c b =
     (let (promises, b) = unregister_all c b (bc_registered c)
      in (promises, c\<lparr>bc_registered := []\<rparr>, b))"

text \<open>Whether \<open>await Promise.all\<close> is over.\<close>

definition all_settled :: "unregistering list \<Rightarrow> bool" where
  "all_settled promises \<longleftrightarrow> list_all (\<lambda>p. p = Answered \<or> p = Refused) promises"

definition names :: "service_info list \<Rightarrow> string multiset" where
  "names ss = mset (map bs_name ss)"

lemma client_unregister_names:
  assumes "bc_connected c"
  shows "client_unregister c b s =
    (if bs_name s \<in># names (bk_services b)
     then (Answered, b\<lparr>bk_services := snd (splice_first (\<lambda>x. bs_name x = bs_name s) (bk_services b))\<rparr>)
     else (Unanswered, b))"
proof -
  let ?P = "\<lambda>x. bs_name x = bs_name s"
  have "fst (splice_first ?P (bk_services b)) = None \<longleftrightarrow> \<not> bs_name s \<in># names (bk_services b)"
    unfolding splice_first_None names_def by (simp add: image_iff) metis
  then show ?thesis
    using assms by (cases "splice_first ?P (bk_services b)"; cases "fst (splice_first ?P (bk_services b))")
      (auto simp: client_unregister_def)
qed

lemma splice_names:
  assumes "n \<in># names ss"
  shows "names (snd (splice_first (\<lambda>x. bs_name x = n) ss)) = names ss - {#n#}"
proof -
  let ?P = "\<lambda>x. bs_name x = n"
  obtain x where x: "fst (splice_first ?P ss) = Some x"
    using assms splice_first_None [of ?P ss] by (cases "fst (splice_first ?P ss)") (auto simp: names_def)
  then have "bs_name x = n" "x \<in> set ss"
    by (metis (mono_tags, lifting) splice_first_find find_Some_iff nth_mem)+
  moreover from this have "image_mset bs_name (mset ss - {#x#}) = image_mset bs_name (mset ss) - {#bs_name x#}"
    by (simp add: image_mset_Diff)
  ultimately show ?thesis using splice_first_mset [OF x] by (simp add: names_def)
qed

lemma unregister_all_settled:
  "bc_connected c \<Longrightarrow>
   all_settled (fst (unregister_all c b ss)) \<longleftrightarrow> names ss \<subseteq># names (bk_services b)"
proof (induction ss arbitrary: b)
  case (Cons s ss)
  show ?case
  proof (cases "bs_name s \<in># names (bk_services b)")
    case True
    let ?b = "b\<lparr>bk_services := snd (splice_first (\<lambda>x. bs_name x = bs_name s) (bk_services b))\<rparr>"
    have "names (s # ss) \<subseteq># names (bk_services b) \<longleftrightarrow> names ss \<subseteq># names (bk_services ?b)"
      using True splice_names [OF True] by (simp add: names_def insert_subset_eq_iff)
    with Cons True show ?thesis by (simp add: client_unregister_names all_settled_def case_prod_beta Let_def)
  next
    case False
    then have "\<not> names (s # ss) \<subseteq># names (bk_services b)"
      by (auto simp: names_def insert_subset_eq_iff)
    with Cons.prems False show ?thesis by (simp add: client_unregister_names all_settled_def case_prod_beta Let_def)
  qed
qed (simp add: names_def all_settled_def)

lemma unregister_all_lost:
  "bc_connected c \<Longrightarrow> all_settled (map unregister_lost (fst (unregister_all c b ss)))"
  by (induction ss arbitrary: b)
    (simp_all add: all_settled_def client_unregister_names unregister_lost_def case_prod_beta Let_def)

lemma unregister_all_unsent:
  "\<not> bc_connected c \<Longrightarrow> unregister_all c b ss = (map (\<lambda>s. Not_Sent) ss, b)"
  by (induction ss) (simp_all add: client_unregister_def)

lemma unregister_all_names:
  "bc_connected c \<Longrightarrow> names (bk_services (snd (unregister_all c b ss))) = names (bk_services b) - names ss"
proof (induction ss arbitrary: b)
  case (Cons s ss)
  then show ?case
    by (cases "bs_name s \<in># names (bk_services b)")
       (simp_all add: client_unregister_names splice_names case_prod_beta Let_def, simp_all add: names_def diff_diff_add)
qed (simp add: names_def)

subsection \<open>The promises of the registry\<close>

definition queue_of :: "broker \<Rightarrow> string \<Rightarrow> service_info list" where
  "queue_of b interfaceName = filter (\<lambda>s. bs_name s = interfaceName) (bk_services b)"

text \<open>
  The registry implements one queue of services per interface name, whatever their roles:
  registering appends to the queue of its name, looking up gives the head, unregistering answers
  only when the queue is not empty and then removes its head; no other queue changes.\<close>

theorem broker_keeps_a_queue_per_name:
  "queue_of (fst (broker_step b (Register_Service (Some (name, role)) url port))) n =
     queue_of b n @ (if n = name then [\<lparr>bs_name = name, bs_role = role, bs_url = url, bs_port = port\<rparr>] else [])
   \<and> fst (snd (broker_step b (Lookup_Service name role))) =
     (case queue_of b name of [] \<Rightarrow> Lookup_Answer [] 0 ''Service not found''
      | s # _ \<Rightarrow> Lookup_Answer (bs_url s) (bs_port s) [])
   \<and> fst (snd (broker_step b (Unregister_Service name role))) = (if queue_of b name = [] then No_Answer else Done)
   \<and> queue_of (fst (broker_step b (Unregister_Service name role))) n =
     (if n = name then tl (queue_of b n) else queue_of b n)"
proof -
  let ?P = "\<lambda>s. bs_name s = name"
  obtain x rest where sp: "splice_first ?P (bk_services b) = (x, rest)" by force
  have x: "x = (case queue_of b name of [] \<Rightarrow> None | s # _ \<Rightarrow> Some s)"
    using splice_first_find [of ?P "bk_services b"] sp by (simp add: find_filter queue_of_def)
  have "queue_of b name = [] \<longleftrightarrow> x = None" unfolding x by (cases "queue_of b name") auto
  moreover have "filter (\<lambda>s. bs_name s = n) rest = (if n = name then tl (queue_of b n) else queue_of b n)"
    using splice_first_same [of ?P "bk_services b"] splice_first_other [of ?P "\<lambda>s. bs_name s = n" "bk_services b"] sp
    by (auto simp: queue_of_def)
  moreover have "x = None \<Longrightarrow> tl (queue_of b name) = queue_of b name" unfolding x by (cases "queue_of b name") auto
  ultimately show ?thesis
    using sp by (cases x) (auto simp: Let_def queue_of_def find_filter split: list.splits)
qed

text \<open>C8.
  A listener that knows the services at the moment it attached and applies the notifications
  written to it knows, as long as it is not cancelled, exactly the services of the registry, with
  their multiplicities.\<close>

theorem listener_mirrors_the_registry:
  assumes "count_list (bk_listeners b) l = 1" "\<forall>c \<in> set cs. keeps_listener l c"
  shows "foldl mirror_change (mset (bk_services b)) (map (\<lambda>n. (n, ())) (written_to l (snd (run_broker b cs)))) =
    mset (bk_services (fst (run_broker b cs)))"
proof -
  have up: "caught_up (\<lambda>b m. m = mset (bk_services b)) mirror_change (mset (bk_services b)) b []"
    by (simp add: caught_up_def)
  from mirror.run_caught_up [OF _ up, of cs]
  have "caught_up (\<lambda>b m. m = mset (bk_services b)) mirror_change (mset (bk_services b))
      (fst (run_updates broker_changes b cs)) (snd (run_updates broker_changes b cs))" by simp
  then show ?thesis
    using written_run [OF assms] by (simp add: caught_up_def run_broker_changes comp_def)
qed

definition sample_broker :: broker where
  "sample_broker = fst (run_broker initial_broker
     [Register_Service (Some (''calc'', ''default'')) ''h'' 1, Notify_Service_Changes 7,
      Register_Service (Some (''calc'', ''other'')) ''h'' 2])"

lemma sample_broker:
  "sample_broker = \<lparr>bk_services = [\<lparr>bs_name = ''calc'', bs_role = ''default'', bs_url = ''h'', bs_port = 1\<rparr>,
     \<lparr>bs_name = ''calc'', bs_role = ''other'', bs_url = ''h'', bs_port = 2\<rparr>], bk_listeners = [7]\<rparr>"
  by (simp add: sample_broker_def initial_broker_def Let_def)

theorem listener_mirrors_the_registry_witness:
  "foldl mirror_change (mset (bk_services sample_broker)) (map (\<lambda>n. (n, ()))
     (written_to 7 (snd (run_broker sample_broker [Unregister_Service ''calc'' ''other'',
        Register_Service (Some (''b'', ''default'')) ''h'' 3]))))
   = mset (bk_services (fst (run_broker sample_broker [Unregister_Service ''calc'' ''other'',
        Register_Service (Some (''b'', ''default'')) ''h'' 3])))"
  by (rule listener_mirrors_the_registry) (simp_all add: sample_broker)

text \<open>Unregistering ignores the role: asked to unregister the service with role ``other'', the broker
  removes the one with role ``default'' that was registered first, and a client that looks for the
  default role is told there is none.\<close>

theorem unregister_ignores_the_role:
  "bk_services (fst (broker_step sample_broker (Unregister_Service ''calc'' ''other''))) =
     [\<lparr>bs_name = ''calc'', bs_role = ''other'', bs_url = ''h'', bs_port = 2\<rparr>]
   \<and> getService \<lparr>bc_connected = True, bc_registered = []\<rparr>
       (fst (broker_step sample_broker (Unregister_Service ''calc'' ''other''))) ''calc'' ''default'' = Resolved None"
  by (simp add: sample_broker getService_def available_services_def)

text \<open>Shutting a connected client down comes to an end exactly when the broker still knows, for every
  interface name, at least as many services as the client has registered under it; otherwise a
  call is never answered, and the client waits until its connection is lost.\<close>

theorem client_shutdown_ends_iff_known:
  assumes "bc_connected c"
  shows "(all_settled (fst (client_shutdown c b)) \<longleftrightarrow> names (bc_registered c) \<subseteq># names (bk_services b))
    \<and> all_settled (map unregister_lost (fst (client_shutdown c b)))"
  using unregister_all_settled [OF assms, of b "bc_registered c"] unregister_all_lost [OF assms, of b "bc_registered c"]
  by (simp add: client_shutdown_def case_prod_beta Let_def)

definition sample_client :: broker_client where
  "sample_client = \<lparr>bc_connected = True,
     bc_registered = [\<lparr>bs_name = ''calc'', bs_role = ''default'', bs_url = ''h'', bs_port = 1\<rparr>]\<rparr>"

theorem client_shutdown_ends_iff_known_witness:
  "all_settled (fst (client_shutdown sample_client sample_broker))
   \<and> \<not> all_settled (fst (client_shutdown sample_client initial_broker))"
  using client_shutdown_ends_iff_known [of sample_client sample_broker]
    client_shutdown_ends_iff_known [of sample_client initial_broker]
  by (simp add: sample_client_def sample_broker initial_broker_def names_def)

end
