(* ===== verification/Client_Manager.thy ===== *)
theory Client_Manager
  imports Runtime_Prelude
begin

text \<open>
  The connection of a gRPC client (\<open>packages/common/src/index.ts\<close>) and the change stream its subclass
  \<open>BrokerClientManager\<close> adds.  Every client object has a number; the callbacks that gRPC still
  owes are part of the state, and each event is one such callback (or the reconnect timer).
  An exception thrown in a callback is caught by nobody, so it ends the process.
\<close>

datatype manager_kind = Plain_Manager | Broker_Manager

record client_manager =
  cm_kind :: manager_kind
  cm_client :: "nat option"
  cm_timer :: bool
  cm_fresh :: nat
  cm_waiting :: "nat list"
  cm_watches :: "(nat \<times> int) list"
  cm_streams :: "nat list"
  cm_notified :: nat
  cm_thrown :: bool

datatype cm_event =
    Wait_Done nat "string option" "int option"
  | Watch_Done nat "int option" "string option"
  | Reconnect_Due bool
  | Stream_Failed nat
  | Stream_Ended nat

definition READY :: int where
  "READY = 2"

definition scheduleReconnect :: "client_manager \<Rightarrow> client_manager" where
  "scheduleReconnect m =
     (if cm_client m \<noteq> None then m else if cm_timer m then m else m\<lparr>cm_timer := True\<rparr>)"

definition clearReconnectTimer :: "client_manager \<Rightarrow> client_manager" where
  "clearReconnectTimer m = (if \<not> cm_timer m then m else m\<lparr>cm_timer := False\<rparr>)"

text \<open>The argument of \<open>connect\<close> says whether the constructor of the client succeeds.\<close>

definition connect :: "bool \<Rightarrow> client_manager \<Rightarrow> client_manager" where
  "connect constructed m =
     (if cm_client m \<noteq> None then m
      else if constructed
      then m\<lparr>cm_client := Some (cm_fresh m), cm_fresh := cm_fresh m + 1,
             cm_waiting := cm_waiting m @ [cm_fresh m]\<rparr>
      else scheduleReconnect (m\<lparr>cm_client := None\<rparr>))"

definition connected :: "client_manager \<Rightarrow> client_manager" where
  "connected m =
     (case cm_kind m of
        Plain_Manager \<Rightarrow> m
      | Broker_Manager \<Rightarrow>
          (case cm_client m of
             None \<Rightarrow> m\<lparr>cm_thrown := True\<rparr>
           | Some n \<Rightarrow> m\<lparr>cm_streams := cm_streams m @ [n]\<rparr>))"

text \<open>
  The callback of \<open>waitForReady\<close>: its error, and what \<open>getConnectivityState\<close> gives if it is asked.
\<close>

definition wait_done :: "string option \<Rightarrow> int option \<Rightarrow> client_manager \<Rightarrow> client_manager" where
  "wait_done error state m =
     (case error of
        Some _ \<Rightarrow> scheduleReconnect (m\<lparr>cm_client := None\<rparr>)
      | None \<Rightarrow>
          (let m = clearReconnectTimer m in
           case cm_client m of
             None \<Rightarrow> m\<lparr>cm_thrown := True\<rparr>
           | Some n \<Rightarrow>
               (let m = connected m; m = m\<lparr>cm_notified := cm_notified m + 1\<rparr> in
                case state of
                  None \<Rightarrow> scheduleReconnect (m\<lparr>cm_client := None\<rparr>)
                | Some s \<Rightarrow> m\<lparr>cm_watches := cm_watches m @ [(n, s)]\<rparr>)))"

text \<open>
  The callback of \<open>watchConnectivityState\<close>: the state it was asked to watch, the state the client has
  now, if there is one, and the error.
\<close>

definition watch_done :: "int \<Rightarrow> int option \<Rightarrow> string option \<Rightarrow> client_manager \<Rightarrow> client_manager" where
  "watch_done s current error m =
     (let s2 = (if cm_client m = None then None else current) in
      if (s = READY \<and> s2 \<noteq> Some READY) \<or> error \<noteq> None
      then scheduleReconnect (m\<lparr>cm_client := None\<rparr>)
      else m)"

definition reconnect_due :: "bool \<Rightarrow> client_manager \<Rightarrow> client_manager" where
  "reconnect_due constructed m =
     (let m = m\<lparr>cm_timer := False\<rparr> in
      if cm_client m \<noteq> None then m else connect constructed m)"

definition stream_closed :: "client_manager \<Rightarrow> client_manager" where
  "stream_closed m = m\<lparr>cm_client := None\<rparr>"

text \<open>An event nobody waits for does not happen, and nothing happens after an uncaught exception.\<close>

fun cm_event_step :: "client_manager \<Rightarrow> cm_event \<Rightarrow> client_manager" where
  "cm_event_step m (Wait_Done n error state) =
     (if n \<in> set (cm_waiting m) then wait_done error state (m\<lparr>cm_waiting := remove1 n (cm_waiting m)\<rparr>) else m)"
| "cm_event_step m (Watch_Done n current error) =
     (case map_of (cm_watches m) n of
        None \<Rightarrow> m
      | Some s \<Rightarrow> watch_done s current error (m\<lparr>cm_watches := remove1 (n, s) (cm_watches m)\<rparr>))"
| "cm_event_step m (Reconnect_Due constructed) = (if cm_timer m then reconnect_due constructed m else m)"
| "cm_event_step m (Stream_Failed n) = (if n \<in> set (cm_streams m) then stream_closed m else m)"
| "cm_event_step m (Stream_Ended n) = (if n \<in> set (cm_streams m) then stream_closed m else m)"

definition cm_step :: "client_manager \<Rightarrow> cm_event \<Rightarrow> client_manager" where
  "cm_step m e = (if cm_thrown m then m else cm_event_step m e)"

definition new_manager :: "manager_kind \<Rightarrow> client_manager" where
  "new_manager k = \<lparr>cm_kind = k, cm_client = None, cm_timer = False, cm_fresh = 0, cm_waiting = [],
     cm_watches = [], cm_streams = [], cm_notified = 0, cm_thrown = False\<rparr>"

text \<open>\<open>cli.ts\<close> of the broker: the address to listen on.\<close>

fun address_arg :: "string list \<Rightarrow> string \<Rightarrow> string" where
  "address_arg [] address = address"
| "address_arg [a] address = address"
| "address_arg (a # b # args) address =
     (if a = ''--address'' then address_arg args b else address_arg (b # args) address)"

definition broker_address :: "string option \<Rightarrow> string list \<Rightarrow> string" where
  "broker_address env args = address_arg args (nullish env ''127.0.0.1:50051'')"

subsection \<open>The base class by itself is never idle\<close>

text \<open>
  A manager without a change stream.  Whatever the network does: there is a client or the timer is armed, at most one callback is owed,
  it is owed to the present client, and no exception was thrown.
\<close>

definition never_idle :: "client_manager \<Rightarrow> bool" where
  "never_idle m \<longleftrightarrow> cm_kind m = Plain_Manager \<and> \<not> cm_thrown m \<and> cm_streams m = [] \<and>
     (case cm_client m of
        None \<Rightarrow> cm_timer m \<and> cm_waiting m = [] \<and> cm_watches m = []
      | Some n \<Rightarrow> (cm_waiting m = [n] \<and> cm_watches m = []) \<or>
                  (cm_waiting m = [] \<and> (cm_watches m = [] \<or> (\<exists>s. cm_watches m = [(n, s)]))))"

lemmas cm_defs = scheduleReconnect_def clearReconnectTimer_def connect_def connected_def wait_done_def
  watch_done_def reconnect_due_def stream_closed_def cm_step_def Let_def

lemma never_idle_step: "never_idle m \<Longrightarrow> never_idle (cm_step m e)"
  by (cases e; cases "cm_client m") (auto simp: never_idle_def cm_defs split: option.splits if_splits)

interpretation plain: reactive cm_step never_idle
  by unfold_locales (rule never_idle_step)

lemma never_idle_start: "never_idle (connect ok (new_manager Plain_Manager))"
  by (simp add: never_idle_def new_manager_def cm_defs)

text \<open>No callback is owed and no timer runs.\<close>

definition deaf :: "client_manager \<Rightarrow> bool" where
  "deaf m \<longleftrightarrow> cm_waiting m = [] \<and> cm_watches m = [] \<and> \<not> cm_timer m"

lemma deaf_plain_step:
  "cm_kind m = Plain_Manager \<Longrightarrow> cm_streams m = [] \<Longrightarrow> deaf m \<Longrightarrow> cm_step m e = m"
  by (cases e) (simp_all add: deaf_def cm_step_def)

definition gone :: "client_manager \<Rightarrow> bool" where
  "gone m \<longleftrightarrow> deaf m \<and> cm_client m = None"

lemma gone_step: "gone m \<Longrightarrow> gone (cm_step m e)"
  by (cases e) (simp_all add: gone_def deaf_def cm_step_def stream_closed_def)

interpretation gone: reactive cm_step gone
  by unfold_locales (rule gone_step)

subsection \<open>The manager of the broker's client\<close>

text \<open>
  \<open>ClientManager\<close> is abstract; the manager a program has is a \<open>BrokerClientManager\<close>, whose change stream
  takes the client away when it breaks.  A break is timely if it comes while the connection, which was
  READY, is still watched, or while there is no client: so when a lost connection breaks the stream
  and ends the watch, in either order, before the timer has made the next client.
\<close>

fun timely :: "client_manager \<Rightarrow> cm_event \<Rightarrow> bool" where
  "timely m (Stream_Failed n) = (cm_client m = None \<or> (n, READY) \<in> set (cm_watches m))"
| "timely m (Stream_Ended n) = (cm_client m = None \<or> (n, READY) \<in> set (cm_watches m))"
| "timely m e = True"

fun orderly :: "client_manager \<Rightarrow> cm_event list \<Rightarrow> bool" where
  "orderly m [] = True"
| "orderly m (e # es) = (timely m e \<and> orderly (cm_step m e) es)"

definition never_lost :: "client_manager \<Rightarrow> bool" where
  "never_lost m \<longleftrightarrow> cm_kind m = Broker_Manager \<and> \<not> cm_thrown m \<and>
     (case cm_client m of
        None \<Rightarrow> cm_waiting m = [] \<and>
          (if cm_timer m then cm_watches m = [] else (\<exists>n. cm_watches m = [(n, READY)]))
      | Some n \<Rightarrow> \<not> cm_timer m \<and>
          ((cm_waiting m = [n] \<and> cm_watches m = []) \<or>
           (cm_waiting m = [] \<and> (cm_watches m = [] \<or> (\<exists>s. cm_watches m = [(n, s)])))))"

lemma never_lost_step: "never_lost m \<Longrightarrow> timely m e \<Longrightarrow> never_lost (cm_step m e)"
  by (cases e; cases "cm_client m") (auto simp: never_lost_def cm_defs split: option.splits if_splits)

interpretation broker: reactive "\<lambda>m e. if timely m e then cm_step m e else m" never_lost
  by unfold_locales (simp add: never_lost_step)

lemma orderly_run: "orderly m es \<Longrightarrow> foldl (\<lambda>m e. if timely m e then cm_step m e else m) m es = foldl cm_step m es"
  by (induction es arbitrary: m) simp_all

lemma never_lost_run: "never_lost m \<Longrightarrow> orderly m es \<Longrightarrow> never_lost (foldl cm_step m es)"
  using broker.inv_run [of m es] orderly_run [of m es] by simp

lemma never_lost_start: "never_lost (connect ok (new_manager Broker_Manager))"
  by (simp add: never_lost_def new_manager_def cm_defs)

subsection \<open>The promises of the connection\<close>

text \<open>C12.
  The manager of the broker's client, once its constructor has started to connect, is after any sequence
  of callbacks holding a client, or about to try again, or about to be told that its READY connection has
  changed, as long as its change stream breaks only while that connection is watched or while there is
  no client (\<open>timely\<close>).  It throws no exception and owes at most one callback; and when it has no
  client, then the report about the connection (if the timer is not armed yet), the timer, a successful
  construction and a successful wait give it one, open its change stream, tell the application and
  watch the connection.  The condition is needed: a stream that breaks after the watch has fired leaves
  the manager without a client for ever (\<open>broker_stream_failure\<close>), and a stream of an old client that
  breaks after the next was made ends in an exception (\<open>late_stream_end_throws\<close>).\<close>

theorem manager_reconnects:
  assumes "m = foldl cm_step (connect ok (new_manager Broker_Manager)) es"
    and "orderly (connect ok (new_manager Broker_Manager)) es"
  shows "\<not> cm_thrown m
    \<and> (cm_client m \<noteq> None \<or> cm_timer m \<or> (\<exists>n. cm_watches m = [(n, READY)]))
    \<and> length (cm_waiting m) + length (cm_watches m) \<le> 1
    \<and> (cm_client m = None \<longrightarrow>
        (let told = (if cm_timer m then [] else [Watch_Done (fst (hd (cm_watches m))) current error]);
             m' = foldl cm_step m (told @ [Reconnect_Due True, Wait_Done (cm_fresh m) None (Some READY)])
         in cm_client m' = Some (cm_fresh m) \<and> cm_watches m' = [(cm_fresh m, READY)]
           \<and> cm_streams m' = cm_streams m @ [cm_fresh m] \<and> \<not> cm_timer m' \<and> cm_notified m' = cm_notified m + 1))"
proof -
  have i: "never_lost m" unfolding assms(1) by (rule never_lost_run [OF never_lost_start assms(2)])
  show ?thesis
  proof (cases "cm_client m")
    case None
    then show ?thesis using i by (cases "cm_timer m") (auto simp: never_lost_def cm_defs)
  next
    case (Some n)
    with i show ?thesis by (auto simp: never_lost_def)
  qed
qed

text \<open>A connection is lost: its stream breaks, twice, then the watch tells, and the timer makes a new client.\<close>

definition lost_connection :: "cm_event list" where
  "lost_connection = [Wait_Done 0 None (Some READY), Stream_Failed 0, Stream_Ended 0]"

theorem manager_reconnects_witness:
  "cm_client (foldl cm_step (connect True (new_manager Broker_Manager))
     (lost_connection @ [Watch_Done 0 None None, Reconnect_Due True, Wait_Done 1 None (Some READY)])) = Some 1"
proof -
  let ?m = "foldl cm_step (connect True (new_manager Broker_Manager)) lost_connection"
  have o: "orderly (connect True (new_manager Broker_Manager)) lost_connection"
    by (simp add: lost_connection_def new_manager_def cm_defs)
  have "cm_client ?m = None" "cm_fresh ?m = 1" "\<not> cm_timer ?m" "cm_watches ?m = [(0, READY)]"
    by (simp_all add: lost_connection_def new_manager_def cm_defs)
  with manager_reconnects [OF refl o, of None None] show ?thesis by (simp add: Let_def)
qed

text \<open>The connection is watched for one change only.  If the watched state was not READY, or the
  client is READY again when the callback asks, nothing is watched any more: whatever happens
  afterwards, the manager keeps that client and never reconnects.\<close>

theorem manager_watches_once:
  assumes "never_idle m" "cm_client m = Some n" "cm_watches m = [(n, s)]" "\<not> cm_timer m"
    "s \<noteq> READY \<or> current = Some READY"
  shows "foldl cm_step m (Watch_Done n current None # es) = m\<lparr>cm_watches := []\<rparr>"
proof -
  have 1: "cm_step m (Watch_Done n current None) = m\<lparr>cm_watches := []\<rparr>"
    using assms by (auto simp: never_idle_def cm_defs)
  have d: "cm_step (m\<lparr>cm_watches := []\<rparr>) e = m\<lparr>cm_watches := []\<rparr>" for e
    using assms by (intro deaf_plain_step) (auto simp: never_idle_def deaf_def)
  have "foldl cm_step (m\<lparr>cm_watches := []\<rparr>) es = m\<lparr>cm_watches := []\<rparr>"
    by (induction es) (simp_all add: d)
  with 1 show ?thesis by simp
qed

definition watched_manager :: client_manager where
  "watched_manager = foldl cm_step (connect True (new_manager Plain_Manager)) [Wait_Done 0 None (Some READY)]"

lemma watched_manager:
  "never_idle watched_manager" "cm_client watched_manager = Some 0" "cm_watches watched_manager = [(0, READY)]"
  "\<not> cm_timer watched_manager"
  unfolding watched_manager_def
  using plain.inv_run [OF never_idle_start, of True "[Wait_Done 0 None (Some READY)]"]
  by (simp_all add: new_manager_def cm_defs)

theorem manager_watches_once_witness:
  "foldl cm_step watched_manager [Watch_Done 0 (Some READY) None, Reconnect_Due True, Watch_Done 0 None None]
   = watched_manager\<lparr>cm_watches := []\<rparr>"
  by (rule manager_watches_once [OF watched_manager]) simp

text \<open>When the change stream of a broker manager fails, the client is dropped and no reconnect is
  scheduled: only the watch of the connection can do that.  If the watch has already fired, the
  manager stays without a client for ever; if it was watching READY, its callback schedules a
  reconnect, which gives a new client.\<close>

theorem broker_stream_failure:
  assumes "cm_kind m = Broker_Manager" "\<not> cm_thrown m" "cm_client m = Some n" "n \<in> set (cm_streams m)"
    "cm_waiting m = []" "\<not> cm_timer m"
  shows "(cm_watches m = [] \<longrightarrow> cm_client (foldl cm_step m (Stream_Failed n # es)) = None)
    \<and> (cm_watches m = [(n, READY)] \<longrightarrow>
      cm_client (foldl cm_step m [Stream_Failed n, Watch_Done n current error, Reconnect_Due True]) = Some (cm_fresh m))"
proof (intro conjI impI)
  assume "cm_watches m = []"
  with assms have "gone (cm_step m (Stream_Failed n))" by (simp add: gone_def deaf_def cm_defs)
  from gone.inv_run [OF this] show "cm_client (foldl cm_step m (Stream_Failed n # es)) = None"
    by (simp add: gone_def)
next
  assume "cm_watches m = [(n, READY)]"
  with assms show "cm_client (foldl cm_step m [Stream_Failed n, Watch_Done n current error, Reconnect_Due True]) =
      Some (cm_fresh m)"
    by (simp add: cm_defs)
qed

definition broker_manager :: "cm_event list \<Rightarrow> client_manager" where
  "broker_manager es = foldl cm_step (connect True (new_manager Broker_Manager)) (Wait_Done 0 None (Some READY) # es)"

theorem broker_stream_failure_witness:
  "cm_client (foldl cm_step (broker_manager [Watch_Done 0 (Some READY) None]) [Stream_Failed 0, Reconnect_Due True]) = None
   \<and> cm_client (foldl cm_step (broker_manager []) [Stream_Failed 0, Watch_Done 0 None None, Reconnect_Due True]) = Some 1"
  using broker_stream_failure [of "broker_manager [Watch_Done 0 (Some READY) None]" 0 "[Reconnect_Due True]" None None]
    broker_stream_failure [of "broker_manager []" 0 "[]" None None]
  by (simp add: broker_manager_def new_manager_def cm_defs)

text \<open>The handlers of a stream drop whatever client is present: when the stream of the old client
  ends after the new one was made, the new one is dropped while it is being waited for, and its
  success throws ``Client not connected''.\<close>

theorem late_stream_end_throws:
  "cm_thrown (broker_manager [Stream_Failed 0, Watch_Done 0 None None, Reconnect_Due True, Stream_Ended 0,
     Wait_Done 1 None (Some READY)])"
  by (simp add: broker_manager_def new_manager_def cm_defs)

subsection \<open>The one broker manager of a process\<close>

text \<open>
  \<open>create\<close> keeps the first manager it makes in a static field; its constructor connects at once.  The
  stream that \<open>getClientStream\<close> opens is the caller's, without the handlers of \<open>connected\<close>.
\<close>

record broker_instance =
  bi_url :: string
  bi_port :: int
  bi_manager :: client_manager

definition create :: "string \<Rightarrow> int \<Rightarrow> bool \<Rightarrow> broker_instance option \<Rightarrow> broker_instance" where
  "create url port constructed present =
     (case present of
        Some b \<Rightarrow> b
      | None \<Rightarrow> \<lparr>bi_url = url, bi_port = port, bi_manager = connect constructed (new_manager Broker_Manager)\<rparr>)"

definition getClientStream :: "client_manager \<Rightarrow> string + nat" where
  "getClientStream m = (case cm_client m of None \<Rightarrow> Inl ''Client not connected'' | Some n \<Rightarrow> Inr n)"

lemma create_twice: "create url' port' c' (Some (create url port c present)) = create url port c present"
  by (simp add: create_def)

lemma created_manager_is_busy:
  "cm_client (bi_manager (create url port c None)) \<noteq> None \<or> cm_timer (bi_manager (create url port c None))"
  by (simp add: create_def connect_def scheduleReconnect_def new_manager_def)

lemma stream_needs_client: "(\<exists>n. getClientStream m = Inr n) \<longleftrightarrow> cm_client m \<noteq> None"
  by (simp add: getClientStream_def split: option.split)

end
