(* ===== verification/Reporter.thy ===== *)
theory Reporter
  imports Topology_Types
begin

text \<open>
  The topology reporter (\<open>packages/topology-reporter/src/topology-reporter.ts\<close>): a service registers,
  sends heartbeats and activity, and registers again when a stream breaks.

  JavaScript runs one event at a time up to its last microtask, so the state changes at the points
  where the code awaits something from outside: the reply of a call, the end of a delay, a tick of
  the heartbeat interval, a stream event, or a call of the application.  Calls, streams and
  intervals are numbered by \<open>rp_next\<close>.  What is written to the network is kept in \<open>rp_log\<close>,
  newest first.
\<close>

record reporter_options =
  ro_serviceName :: string
  ro_serviceType :: service_type
  ro_language :: service_language
  ro_version :: "string option"
  ro_address :: "string option"
  ro_host :: "string option"
  ro_metadata :: "service_metadata option"
  ro_enableActivity :: "bool option"

record activity_report =
  rt_targetService :: string
  rt_type :: activity_type
  rt_timestampMs :: "int option"
  rt_latencyMs :: "int option"
  rt_method :: "string option"
  rt_success :: "bool option"
  rt_batchSize :: "int option"
  rt_errorMessage :: "string option"

record reporter_status =
  rs_serviceId :: "string option"
  rs_heartbeatIntervalMs :: "int option"
  rs_activityEnabled :: bool

datatype network_action =
    Sent_Register register_request
  | Sent_Unregister string
  | Opened_Heartbeat nat
  | Sent_Heartbeat nat heartbeat_request
  | Ended_Heartbeat nat
  | Opened_Activity nat
  | Sent_Activity nat activity_request
  | Ended_Activity nat
  | Closed_Client

text \<open>Where \<open>connectWithRetry\<close> is suspended.\<close>

datatype retry_loop = Loop_Idle | Loop_Registering nat | Loop_Delaying nat

record reporter =
  rp_options :: reporter_options
  rp_serviceId :: "string option"
  rp_intervalMs :: "int option"
  rp_multiplier :: "int option"
  rp_seq :: nat
  rp_heartbeatStream :: "nat option"
  rp_heartbeatTimer :: "nat option"
  rp_activityStream :: "nat option"
  rp_health :: "application_health option"
  rp_metrics :: "service_metrics option"
  rp_registerInFlight :: "nat option"
  rp_reconnectPromise :: bool
  rp_retryAttempt :: nat
  rp_autoReconnect :: bool
  rp_isShuttingDown :: bool
  rp_calls :: "nat list"
  rp_intervals :: "nat list"
  rp_loop :: retry_loop
  rp_unregistering :: bool
  rp_next :: nat
  rp_log :: "network_action list"

datatype register_result = Registered_Already service_handle | Registering nat

text \<open>The reply of \<open>registerService\<close>: an error, or a response that may lack its handle.\<close>

datatype register_reply = Call_Failed string | Response "service_handle option"

definition new_reporter :: "reporter_options \<Rightarrow> reporter" where
  "new_reporter options = \<lparr>rp_options = options, rp_serviceId = None, rp_intervalMs = None, rp_multiplier = None,
     rp_seq = 0, rp_heartbeatStream = None, rp_heartbeatTimer = None, rp_activityStream = None,
     rp_health = None, rp_metrics = None, rp_registerInFlight = None, rp_reconnectPromise = False,
     rp_retryAttempt = 0, rp_autoReconnect = False, rp_isShuttingDown = False, rp_calls = [],
     rp_intervals = [], rp_loop = Loop_Idle, rp_unregistering = False, rp_next = 0, rp_log = []\<rparr>"

definition emit :: "network_action \<Rightarrow> reporter \<Rightarrow> reporter" where
  "emit a r = r\<lparr>rp_log := a # rp_log r\<rparr>"

text \<open>\<open>if (this.serviceId)\<close>: neither null nor the empty string.\<close>

definition truthy :: "string option \<Rightarrow> bool" where
  "truthy x = (case x of None \<Rightarrow> False | Some s \<Rightarrow> s \<noteq> [])"

subsection \<open>Registration\<close>

definition register_request_of :: "reporter_options \<Rightarrow> register_request" where
  "register_request_of o1 =
     \<lparr>rq_serviceName = ro_serviceName o1, rq_serviceType = ro_serviceType o1, rq_language = ro_language o1,
      rq_version = ro_version o1, rq_address = ro_address o1, rq_host = ro_host o1, rq_metadata = ro_metadata o1\<rparr>"

definition register :: "reporter \<Rightarrow> reporter \<times> register_result" where
  "register r =
     (if truthy (rp_serviceId r)
      then (r, Registered_Already \<lparr>sh_serviceId = nullish (rp_serviceId r) [],
             sh_heartbeatIntervalMs = nullish (rp_intervalMs r) 0, sh_timeoutMultiplier = nullish (rp_multiplier r) 0\<rparr>)
      else (case rp_registerInFlight r of
              Some p \<Rightarrow> (r, Registering p)
            | None \<Rightarrow>
                (emit (Sent_Register (register_request_of (rp_options r)))
                   (r\<lparr>rp_next := rp_next r + 1, rp_calls := rp_calls r @ [rp_next r],
                      rp_registerInFlight := Some (rp_next r)\<rparr>), Registering (rp_next r))))"

subsection \<open>Streams and the heartbeat\<close>

definition stopHeartbeat :: "reporter \<Rightarrow> reporter" where
  "stopHeartbeat r =
     (let r = (case rp_heartbeatTimer r of
                 None \<Rightarrow> r
               | Some t \<Rightarrow> r\<lparr>rp_intervals := remove1 t (rp_intervals r), rp_heartbeatTimer := None\<rparr>)
      in case rp_heartbeatStream r of
           None \<Rightarrow> r
         | Some h \<Rightarrow> (emit (Ended_Heartbeat h) r)\<lparr>rp_heartbeatStream := None\<rparr>)"

definition endActivityStream :: "reporter \<Rightarrow> reporter" where
  "endActivityStream r =
     (case rp_activityStream r of
        None \<Rightarrow> r
      | Some a \<Rightarrow> (emit (Ended_Activity a) r)\<lparr>rp_activityStream := None\<rparr>)"

definition resetConnectionState :: "reporter \<Rightarrow> reporter" where
  "resetConnectionState r =
     (endActivityStream (stopHeartbeat r))
       \<lparr>rp_serviceId := None, rp_intervalMs := None, rp_multiplier := None, rp_seq := 0\<rparr>"

text \<open>
  \<open>connectWithRetry\<close> up to its first \<open>await\<close>; when the loop returns, \<open>finally\<close> clears
  \<open>reconnectPromise\<close>.
\<close>

definition loop_returns :: "reporter \<Rightarrow> reporter" where
  "loop_returns r = r\<lparr>rp_loop := Loop_Idle, rp_reconnectPromise := False\<rparr>"

definition connectWithRetry :: "reporter \<Rightarrow> reporter" where
  "connectWithRetry r =
     (if \<not> rp_isShuttingDown r \<and> rp_autoReconnect r
      then (case register r of
              (r, Registered_Already _) \<Rightarrow> loop_returns (r\<lparr>rp_retryAttempt := 0\<rparr>)
            | (r, Registering p) \<Rightarrow> r\<lparr>rp_loop := Loop_Registering p\<rparr>)
      else loop_returns r)"

definition triggerReconnect :: "reporter \<Rightarrow> reporter" where
  "triggerReconnect r =
     (if rp_reconnectPromise r \<or> rp_isShuttingDown r \<or> \<not> rp_autoReconnect r then r
      else connectWithRetry (r\<lparr>rp_reconnectPromise := True\<rparr>))"

text \<open>\<open>handleStreamError\<close> and \<open>handleStreamEnd\<close> differ in what they log.\<close>

definition handleStreamError :: "reporter \<Rightarrow> reporter" where
  "handleStreamError r =
     (if rp_isShuttingDown r then r
      else if \<not> rp_autoReconnect r then r
      else triggerReconnect (resetConnectionState r))"

definition handleStreamEnd :: "reporter \<Rightarrow> reporter" where
  "handleStreamEnd r =
     (if rp_isShuttingDown r then r
      else if \<not> rp_autoReconnect r then r
      else triggerReconnect (resetConnectionState r))"

text \<open>The argument says whether \<open>write\<close> throws.\<close>

definition sendHeartbeat :: "bool \<Rightarrow> reporter \<Rightarrow> reporter" where
  "sendHeartbeat throws r =
     (case (rp_serviceId r, rp_heartbeatStream r) of
        (Some serviceId, Some h) \<Rightarrow>
          if truthy (rp_serviceId r)
          then (let r = r\<lparr>rp_seq := rp_seq r + 1\<rparr> in
                if throws then handleStreamError r
                else emit (Sent_Heartbeat h \<lparr>hb_serviceId = serviceId, hb_sequence = string_of_int (int (rp_seq r)),
                       hb_metrics = rp_metrics r, hb_health = rp_health r\<rparr>) r)
          else r
      | _ \<Rightarrow> r)"

definition startHeartbeat :: "bool \<Rightarrow> reporter \<Rightarrow> reporter" where
  "startHeartbeat throws r =
     (if \<not> truthy (rp_serviceId r) \<or> rp_intervalMs r = None \<or> rp_heartbeatStream r \<noteq> None then r
      else (let h = rp_next r;
                r = emit (Opened_Heartbeat h) (r\<lparr>rp_next := h + 1, rp_heartbeatStream := Some h\<rparr>);
                r = sendHeartbeat throws r;
                t = rp_next r
            in r\<lparr>rp_next := t + 1, rp_intervals := rp_intervals r @ [t], rp_heartbeatTimer := Some t\<rparr>))"

definition startActivityStream :: "reporter \<Rightarrow> reporter" where
  "startActivityStream r =
     (if rp_activityStream r \<noteq> None then r
      else emit (Opened_Activity (rp_next r))
             (r\<lparr>rp_next := rp_next r + 1, rp_activityStream := Some (rp_next r)\<rparr>))"

definition reportActivity :: "activity_report \<Rightarrow> int \<Rightarrow> bool \<Rightarrow> reporter \<Rightarrow> reporter" where
  "reportActivity report now throws r =
     (case (rp_activityStream r, rp_serviceId r) of
        (Some a, Some serviceId) \<Rightarrow>
          if truthy (rp_serviceId r)
          then (if throws then handleStreamError r
                else emit (Sent_Activity a
                  \<lparr>ra_serviceId = serviceId, ra_targetService = rt_targetService report, ra_type = rt_type report,
                   ra_timestampMs = Some (string_of_int (nullish (rt_timestampMs report) now)),
                   ra_latencyMs = rt_latencyMs report, ra_method = rt_method report, ra_success = rt_success report,
                   ra_batchSize = rt_batchSize report, ra_errorMessage = rt_errorMessage report\<rparr>) r)
          else r
      | _ \<Rightarrow> r)"

definition setHealth :: "application_health option \<Rightarrow> reporter \<Rightarrow> reporter" where
  "setHealth health r = r\<lparr>rp_health := health\<rparr>"

definition setMetrics :: "service_metrics option \<Rightarrow> reporter \<Rightarrow> reporter" where
  "setMetrics metrics r = r\<lparr>rp_metrics := metrics\<rparr>"

definition status :: "reporter \<Rightarrow> reporter_status" where
  "status r = \<lparr>rs_serviceId = rp_serviceId r, rs_heartbeatIntervalMs = rp_intervalMs r,
     rs_activityEnabled = (rp_activityStream r \<noteq> None)\<rparr>"

subsection \<open>The reply to a registration, and the retry loop\<close>

text \<open>\<open>performRegister\<close> after its \<open>await\<close>, and whether it returns or throws.\<close>

definition performRegister :: "register_reply \<Rightarrow> bool \<Rightarrow> reporter \<Rightarrow> reporter \<times> bool" where
  "performRegister reply throws r =
     (case reply of
        Call_Failed _ \<Rightarrow> (r, False)
      | Response handle \<Rightarrow>
          if rp_isShuttingDown r then (r, False)
          else (case handle of
                  None \<Rightarrow> (r, False)
                | Some handle \<Rightarrow>
                    (let r = r\<lparr>rp_serviceId := Some (sh_serviceId handle),
                               rp_intervalMs := Some (sh_heartbeatIntervalMs handle),
                               rp_multiplier := Some (sh_timeoutMultiplier handle), rp_seq := 0\<rparr>;
                         r = startHeartbeat throws r;
                         r = (if nullish (ro_enableActivity (rp_options r)) True then startActivityStream r else r)
                     in (r, True))))"

definition nextRetryDelayMs :: "reporter \<Rightarrow> nat \<times> reporter" where
  "nextRetryDelayMs r =
     (let attemptDelay = 1000 * 2 ^ rp_retryAttempt r
      in (min 15000 attemptDelay, r\<lparr>rp_retryAttempt := min (rp_retryAttempt r + 1) 10\<rparr>))"

definition register_settles :: "nat \<Rightarrow> reporter \<Rightarrow> reporter" where
  "register_settles p r = (if rp_registerInFlight r = Some p then r\<lparr>rp_registerInFlight := None\<rparr> else r)"

definition loop_resumes :: "nat \<Rightarrow> bool \<Rightarrow> reporter \<Rightarrow> reporter" where
  "loop_resumes p ok r =
     (if rp_loop r \<noteq> Loop_Registering p then r
      else if ok then loop_returns (r\<lparr>rp_retryAttempt := 0\<rparr>)
      else if rp_isShuttingDown r \<or> \<not> rp_autoReconnect r then loop_returns r
      else (let (delayMs, r) = nextRetryDelayMs r in r\<lparr>rp_loop := Loop_Delaying delayMs\<rparr>))"

definition register_replied :: "nat \<Rightarrow> register_reply \<Rightarrow> bool \<Rightarrow> reporter \<Rightarrow> reporter" where
  "register_replied p reply throws r =
     (let (r, ok) = performRegister reply throws (r\<lparr>rp_calls := remove1 p (rp_calls r)\<rparr>)
      in loop_resumes p ok (register_settles p r))"

definition start :: "reporter \<Rightarrow> reporter" where
  "start r =
     (if rp_autoReconnect r \<or> rp_isShuttingDown r then r
      else triggerReconnect (r\<lparr>rp_autoReconnect := True\<rparr>))"

definition shutdown :: "reporter \<Rightarrow> reporter" where
  "shutdown r =
     (if rp_isShuttingDown r then r
      else (let r = r\<lparr>rp_isShuttingDown := True, rp_autoReconnect := False, rp_registerInFlight := None,
                      rp_reconnectPromise := False\<rparr>;
                r = endActivityStream (stopHeartbeat r);
                serviceId = rp_serviceId r;
                r = r\<lparr>rp_serviceId := None, rp_intervalMs := None, rp_multiplier := None, rp_seq := 0\<rparr>
            in case serviceId of
                 Some i \<Rightarrow> if truthy serviceId then (emit (Sent_Unregister i) r)\<lparr>rp_unregistering := True\<rparr>
                           else emit Closed_Client r
               | None \<Rightarrow> emit Closed_Client r))"

text \<open>The reply to \<open>unregisterService\<close>, or its failure, which is logged: the client is closed.\<close>

definition unregister_replied :: "reporter \<Rightarrow> reporter" where
  "unregister_replied r =
     (if rp_unregistering r then emit Closed_Client (r\<lparr>rp_unregistering := False\<rparr>) else r)"

datatype reporter_event =
    Do_Start
  | Do_Register
  | Register_Reply nat register_reply bool
  | Delay_Over
  | Interval_Tick nat bool
  | Stream_Error
  | Stream_End
  | Do_Report activity_report int bool
  | Do_Set_Health "application_health option"
  | Do_Set_Metrics "service_metrics option"
  | Do_Shutdown
  | Unregister_Reply

fun reporter_step :: "reporter \<Rightarrow> reporter_event \<Rightarrow> reporter" where
  "reporter_step r Do_Start = start r"
| "reporter_step r Do_Register = fst (register r)"
| "reporter_step r (Register_Reply p reply throws) =
     (if p \<in> set (rp_calls r) then register_replied p reply throws r else r)"
| "reporter_step r Delay_Over = (case rp_loop r of Loop_Delaying _ \<Rightarrow> connectWithRetry r | _ \<Rightarrow> r)"
| "reporter_step r (Interval_Tick t throws) = (if t \<in> set (rp_intervals r) then sendHeartbeat throws r else r)"
| "reporter_step r Stream_Error = handleStreamError r"
| "reporter_step r Stream_End = handleStreamEnd r"
| "reporter_step r (Do_Report report now throws) = reportActivity report now throws r"
| "reporter_step r (Do_Set_Health health) = setHealth health r"
| "reporter_step r (Do_Set_Metrics metrics) = setMetrics metrics r"
| "reporter_step r Do_Shutdown = shutdown r"
| "reporter_step r Unregister_Reply = unregister_replied r"

end
