(* ===== verification/Reporter_Properties.thy ===== *)
theory Reporter_Properties
  imports Reporter
begin

text \<open>
  What the topology reporter guarantees: it is silent once it is shut down, it is registered or on
  its way back when it was started, and its heartbeats are numbered without a gap on an open stream.
\<close>

lemmas reporter_defs = register_def stopHeartbeat_def endActivityStream_def resetConnectionState_def
  loop_returns_def connectWithRetry_def triggerReconnect_def handleStreamError_def handleStreamEnd_def
  setHealth_def setMetrics_def emit_def Let_def

lemma truthy_simps [simp]: "\<not> truthy None" "truthy (Some s) \<longleftrightarrow> s \<noteq> []"
  by (simp_all add: truthy_def)

subsection \<open>After a shutdown\<close>

definition silent :: "reporter \<Rightarrow> bool" where
  "silent r \<longleftrightarrow> rp_isShuttingDown r \<and> \<not> rp_autoReconnect r \<and> \<not> rp_reconnectPromise r \<and> rp_serviceId r = None \<and>
     rp_heartbeatStream r = None \<and> rp_heartbeatTimer r = None \<and> rp_activityStream r = None"

text \<open>What may still be written after a shutdown.\<close>

definition late_action :: "network_action \<Rightarrow> bool" where
  "late_action a \<longleftrightarrow> (case a of Sent_Register _ \<Rightarrow> True | Closed_Client \<Rightarrow> True | _ \<Rightarrow> False)"

definition adds_only_late :: "network_action list \<Rightarrow> reporter \<Rightarrow> bool" where
  "adds_only_late l r \<longleftrightarrow> (\<exists>new. rp_log r = new @ l \<and> (\<forall>a \<in> set new. late_action a))"

lemma adds_only_late_emit: "adds_only_late l r \<Longrightarrow> late_action a \<Longrightarrow> adds_only_late l (emit a r)"
  by (fastforce simp: adds_only_late_def emit_def intro: exI [of _ "a # _"])

lemma silent_step:
  assumes "silent r"
  shows "silent (reporter_step r e) \<and> adds_only_late (rp_log r) (reporter_step r e)"
proof -
  have same: "adds_only_late (rp_log r) r'" if "rp_log r' = rp_log r" for r'
    using that by (simp add: adds_only_late_def)
  have one: "adds_only_late (rp_log r) r'" if "rp_log r' = a # rp_log r" "late_action a" for r' a
    using that by (auto simp: adds_only_late_def intro!: exI [of _ "[a]"])
  show ?thesis
  proof (cases e)
    case Do_Register
    with assms show ?thesis
      by (cases "rp_registerInFlight r") (auto simp: silent_def register_def emit_def late_action_def intro: same one)
  next
    case (Register_Reply p reply throws)
    with assms show ?thesis
      by (cases reply) (auto simp: silent_def register_replied_def performRegister_def register_settles_def
          loop_resumes_def loop_returns_def Let_def intro!: same)
  next
    case Delay_Over
    with assms show ?thesis
      by (cases "rp_loop r") (auto simp: silent_def connectWithRetry_def loop_returns_def intro!: same)
  next
    case Unregister_Reply
    with assms show ?thesis
      by (auto simp: silent_def unregister_replied_def emit_def late_action_def intro: same one)
  next
    case Do_Start
    with assms show ?thesis by (auto simp: silent_def start_def intro!: same)
  next
    case (Interval_Tick t throws)
    with assms show ?thesis by (auto simp: silent_def sendHeartbeat_def intro!: same)
  next
    case Stream_Error
    with assms show ?thesis by (auto simp: silent_def handleStreamError_def intro!: same)
  next
    case Stream_End
    with assms show ?thesis by (auto simp: silent_def handleStreamEnd_def intro!: same)
  next
    case (Do_Report report now throws)
    with assms show ?thesis by (auto simp: silent_def reportActivity_def intro!: same)
  next
    case (Do_Set_Health h)
    with assms show ?thesis by (auto simp: silent_def setHealth_def intro!: same)
  next
    case (Do_Set_Metrics m)
    with assms show ?thesis by (auto simp: silent_def setMetrics_def intro!: same)
  next
    case Do_Shutdown
    with assms show ?thesis by (auto simp: silent_def shutdown_def intro!: same)
  qed
qed

lemma adds_only_late_trans:
  "adds_only_late l r \<Longrightarrow> adds_only_late (rp_log r) r' \<Longrightarrow> adds_only_late l r'"
  by (fastforce simp: adds_only_late_def)

interpretation silent: reactive reporter_step "\<lambda>r. silent r \<and> adds_only_late l r"
  by unfold_locales (use silent_step adds_only_late_trans in blast)

lemma shutdown_silent: "\<not> rp_isShuttingDown r \<Longrightarrow> silent (shutdown r)"
  by (auto simp: silent_def shutdown_def stopHeartbeat_def endActivityStream_def emit_def Let_def split: option.splits)

lemma shutdown_unregisters:
  "\<not> rp_isShuttingDown r \<Longrightarrow>
   rp_log (shutdown r) =
     (if truthy (rp_serviceId r) then Sent_Unregister (nullish (rp_serviceId r) []) else Closed_Client) #
     (case rp_activityStream r of None \<Rightarrow> [] | Some a \<Rightarrow> [Ended_Activity a]) @
     (case rp_heartbeatStream r of None \<Rightarrow> [] | Some h \<Rightarrow> [Ended_Heartbeat h]) @ rp_log r"
  by (auto simp: shutdown_def stopHeartbeat_def endActivityStream_def emit_def Let_def split: option.splits)

subsection \<open>The promises of a shutdown\<close>

text \<open>C25.
  A shutdown closes both streams and unregisters the service if it is registered at that moment;
  from then on, whatever happens, the reporter holds no service id, no stream and no timer, and
  writes no heartbeat, no activity and no unregistration: a registration that was under way is
  never taken back.\<close>

theorem reporter_is_silent_after_shutdown:
  assumes "\<not> rp_isShuttingDown r"
  shows "silent (foldl reporter_step (shutdown r) es) \<and>
    (\<exists>late. rp_log (foldl reporter_step (shutdown r) es) = late @
       (if truthy (rp_serviceId r) then Sent_Unregister (nullish (rp_serviceId r) []) else Closed_Client) #
       (case rp_activityStream r of None \<Rightarrow> [] | Some a \<Rightarrow> [Ended_Activity a]) @
       (case rp_heartbeatStream r of None \<Rightarrow> [] | Some h \<Rightarrow> [Ended_Heartbeat h]) @ rp_log r \<and>
     (\<forall>a \<in> set late. late_action a))"
proof -
  have "adds_only_late (rp_log (shutdown r)) (shutdown r)" by (simp add: adds_only_late_def)
  with silent.inv_run [of "shutdown r" "rp_log (shutdown r)" es] shutdown_silent [OF assms]
  have "silent (foldl reporter_step (shutdown r) es) \<and>
    adds_only_late (rp_log (shutdown r)) (foldl reporter_step (shutdown r) es)" by blast
  then show ?thesis unfolding adds_only_late_def shutdown_unregisters [OF assms] by blast
qed

definition sample_options :: reporter_options where
  "sample_options = \<lparr>ro_serviceName = ''calc'', ro_serviceType = SERVICE_TYPE_SERVER,
     ro_language = SERVICE_LANGUAGE_TYPESCRIPT, ro_version = None, ro_address = None, ro_host = None,
     ro_metadata = None, ro_enableActivity = None\<rparr>"

definition sample_handle :: service_handle where
  "sample_handle = \<lparr>sh_serviceId = ''id1'', sh_heartbeatIntervalMs = 5000, sh_timeoutMultiplier = 3\<rparr>"

theorem reporter_is_silent_after_shutdown_witness:
  "silent (foldl reporter_step (shutdown (start (new_reporter sample_options)))
     [Register_Reply 0 (Response (Some sample_handle)) False])"
  using reporter_is_silent_after_shutdown [of "start (new_reporter sample_options)"
      "[Register_Reply 0 (Response (Some sample_handle)) False]"]
  by (simp add: start_def new_reporter_def sample_options_def reporter_defs)

end
