(* ===== verification/Reporter_Online.thy ===== *)
theory Reporter_Online
  imports Reporter_Properties
begin

text \<open>
  The reporter while its writes succeed and the handles it gets name a service: one heartbeat
  stream with one timer, at most one registration under way, and a retry loop that never stops
  before the service is registered.
\<close>

fun benign :: "reporter_event \<Rightarrow> bool" where
  "benign (Register_Reply p (Response (Some handle)) throws) = (sh_serviceId handle \<noteq> [] \<and> \<not> throws)"
| "benign (Interval_Tick t throws) = (\<not> throws)"
| "benign (Do_Report report now throws) = (\<not> throws)"
| "benign e = True"

text \<open>
  The heartbeat stream as the log tells it: the open stream, with the number of heartbeats sent on
  it; and whether every heartbeat of the log was sent on the stream open at its time, with the
  next sequence number.
\<close>

fun beats :: "network_action list \<Rightarrow> (nat \<times> nat) option" where
  "beats [] = None"
| "beats (Opened_Heartbeat h # l) = Some (h, 0)"
| "beats (Ended_Heartbeat h # l) = None"
| "beats (Sent_Heartbeat h q # l) = map_option (\<lambda>(h, n). (h, Suc n)) (beats l)"
| "beats (a # l) = beats l"

fun proper :: "network_action list \<Rightarrow> bool" where
  "proper [] = True"
| "proper (Sent_Heartbeat h q # l) =
     (proper l \<and> (\<exists>n. beats l = Some (h, n) \<and> hb_sequence q = string_of_int (int (Suc n))))"
| "proper (a # l) = proper l"

text \<open>The parts of the invariant: the heartbeat, and the registration.\<close>

definition beating :: "reporter \<Rightarrow> bool" where
  "beating r \<longleftrightarrow> proper (rp_log r) \<and> beats (rp_log r) = map_option (\<lambda>h. (h, rp_seq r)) (rp_heartbeatStream r) \<and>
     (rp_heartbeatTimer r = None \<longleftrightarrow> rp_heartbeatStream r = None) \<and>
     rp_intervals r = (case rp_heartbeatTimer r of None \<Rightarrow> [] | Some t \<Rightarrow> [t]) \<and>
     (rp_heartbeatStream r = None \<longleftrightarrow> rp_serviceId r = None) \<and> rp_serviceId r \<noteq> Some [] \<and>
     (rp_serviceId r \<noteq> None \<longrightarrow> rp_intervalMs r \<noteq> None)"

definition retrying :: "reporter \<Rightarrow> bool" where
  "retrying r \<longleftrightarrow>
     rp_calls r = (case rp_registerInFlight r of None \<Rightarrow> [] | Some p \<Rightarrow> [p]) \<and>
     (rp_serviceId r \<noteq> None \<longrightarrow> rp_registerInFlight r = None) \<and>
     rp_reconnectPromise r = (rp_loop r \<noteq> Loop_Idle) \<and> (\<not> rp_autoReconnect r \<longrightarrow> rp_loop r = Loop_Idle) \<and>
     (\<forall>p. rp_loop r = Loop_Registering p \<longrightarrow> rp_registerInFlight r = Some p) \<and>
     (\<forall>d. rp_loop r = Loop_Delaying d \<longrightarrow> 1000 \<le> d \<and> d \<le> 15000) \<and>
     (rp_autoReconnect r \<longrightarrow> rp_serviceId r \<noteq> None \<or> rp_loop r \<noteq> Loop_Idle)"

definition sound :: "reporter \<Rightarrow> bool" where
  "sound r \<longleftrightarrow> beating r \<and> (rp_isShuttingDown r \<longrightarrow> silent r) \<and> (\<not> rp_isShuttingDown r \<longrightarrow> retrying r)"

subsection \<open>The invariant holds\<close>

lemma truthy_sound: "beating r \<Longrightarrow> truthy (rp_serviceId r) \<longleftrightarrow> rp_serviceId r \<noteq> None"
  by (auto simp: beating_def)

text \<open>The heartbeat part looks at a few fields only.\<close>

lemma beating_cong:
  "beating r \<Longrightarrow> rp_log r' = rp_log r \<Longrightarrow> rp_seq r' = rp_seq r \<Longrightarrow> rp_heartbeatStream r' = rp_heartbeatStream r \<Longrightarrow>
   rp_heartbeatTimer r' = rp_heartbeatTimer r \<Longrightarrow> rp_intervals r' = rp_intervals r \<Longrightarrow>
   rp_serviceId r' = rp_serviceId r \<Longrightarrow> rp_intervalMs r' = rp_intervalMs r \<Longrightarrow> beating r'"
  by (simp add: beating_def)

lemma beating_register: "beating r \<Longrightarrow> beating (fst (register r))"
  by (auto simp: beating_def register_def emit_def split: option.splits)

lemma beating_connect: "beating r \<Longrightarrow> beating (connectWithRetry r)"
proof -
  assume b: "beating r"
  have "beating (r1\<lparr>rp_loop := l\<rparr>)" "beating (loop_returns (r1\<lparr>rp_retryAttempt := 0\<rparr>))" "beating (loop_returns r1)"
    if "beating r1" for r1 l
    by (rule beating_cong [OF that]; simp add: loop_returns_def)+
  with b beating_register [OF b] show ?thesis
    by (auto simp: connectWithRetry_def split: prod.splits register_result.splits)
qed

lemma beating_trigger: "beating r \<Longrightarrow> beating (triggerReconnect r)"
  using beating_connect [of "r\<lparr>rp_reconnectPromise := True\<rparr>"] beating_cong [of r "r\<lparr>rp_reconnectPromise := True\<rparr>"]
  by (simp add: triggerReconnect_def)

lemma beating_reset: "beating r \<Longrightarrow> beating (resetConnectionState r)"
  by (cases "rp_heartbeatStream r"; cases "rp_activityStream r"; cases "rp_heartbeatTimer r")
     (auto simp: beating_def resetConnectionState_def stopHeartbeat_def endActivityStream_def emit_def)

lemma beating_stream_error: "beating r \<Longrightarrow> beating (handleStreamError r)"
  by (simp add: handleStreamError_def beating_trigger beating_reset)

lemma beating_shutdown: "beating r \<Longrightarrow> beating (shutdown r)"
  by (cases "rp_heartbeatStream r"; cases "rp_activityStream r"; cases "rp_heartbeatTimer r"; cases "rp_serviceId r")
     (auto simp: beating_def shutdown_def stopHeartbeat_def endActivityStream_def emit_def Let_def)

lemma beating_send: "beating r \<Longrightarrow> beating (sendHeartbeat False r)"
  by (cases "rp_heartbeatStream r"; cases "rp_serviceId r") (auto simp: beating_def sendHeartbeat_def emit_def Let_def)

text \<open>A handle for a reporter that is not registered.\<close>

lemma beating_registered:
  assumes "beating r" "rp_serviceId r = None" "sh_serviceId handle \<noteq> []" "\<not> rp_isShuttingDown r"
  shows "beating (fst (performRegister (Response (Some handle)) False r))"
    and "\<exists>i. rp_serviceId (fst (performRegister (Response (Some handle)) False r)) = Some i"
  using assms
  by (auto simp: performRegister_def beating_def startHeartbeat_def sendHeartbeat_def startActivityStream_def
      emit_def Let_def)

text \<open>What the retry loop looks at.\<close>

definition retry_view :: "reporter \<Rightarrow> nat list \<times> nat option \<times> bool \<times> bool \<times> retry_loop \<times> bool" where
  "retry_view r = (rp_calls r, rp_registerInFlight r, rp_reconnectPromise r, rp_autoReconnect r, rp_loop r,
     rp_isShuttingDown r)"

lemma retrying_cong: "retrying r \<Longrightarrow> retry_view r' = retry_view r \<Longrightarrow> rp_serviceId r' = rp_serviceId r \<Longrightarrow> retrying r'"
  by (simp add: retrying_def retry_view_def)

lemma reset_view [simp]: "retry_view (resetConnectionState r) = retry_view r" "rp_serviceId (resetConnectionState r) = None"
  by (simp_all add: retry_view_def resetConnectionState_def stopHeartbeat_def endActivityStream_def emit_def Let_def
      split: option.splits)

lemma send_view [simp]: "retry_view (sendHeartbeat False r) = retry_view r"
  "rp_serviceId (sendHeartbeat False r) = rp_serviceId r"
  by (simp_all add: retry_view_def sendHeartbeat_def emit_def Let_def split: option.splits)

lemma perform_view: "retry_view (fst (performRegister reply False r)) = retry_view r"
  by (auto simp: performRegister_def startHeartbeat_def sendHeartbeat_def startActivityStream_def retry_view_def
      emit_def Let_def split: register_reply.splits option.splits)

text \<open>\<open>connectWithRetry\<close> of a started reporter that is not registered always leaves a call under way.\<close>

lemma retrying_connect:
  assumes "beating r" "\<not> rp_isShuttingDown r" "rp_autoReconnect r" "rp_reconnectPromise r"
    "rp_calls r = (case rp_registerInFlight r of None \<Rightarrow> [] | Some p \<Rightarrow> [p])"
    "rp_serviceId r \<noteq> None \<longrightarrow> rp_registerInFlight r = None"
  shows "retrying (connectWithRetry r)"
  using assms truthy_sound [OF assms(1)]
  by (auto simp: connectWithRetry_def register_def loop_returns_def retrying_def emit_def split: option.splits)

lemma retrying_trigger:
  assumes "beating r" "\<not> rp_isShuttingDown r" "rp_autoReconnect r"
    "rp_calls r = (case rp_registerInFlight r of None \<Rightarrow> [] | Some p \<Rightarrow> [p])"
    "rp_serviceId r \<noteq> None \<longrightarrow> rp_registerInFlight r = None"
    "rp_reconnectPromise r \<longrightarrow> retrying r"
  shows "retrying (triggerReconnect r)"
proof (cases "rp_reconnectPromise r")
  case True
  with assms show ?thesis by (simp add: triggerReconnect_def)
next
  case False
  have "beating (r\<lparr>rp_reconnectPromise := True\<rparr>)" by (rule beating_cong [OF assms(1)]) simp_all
  with False assms show ?thesis by (simp add: triggerReconnect_def retrying_connect)
qed

lemma shutting_views [simp]:
  "rp_isShuttingDown (triggerReconnect r) = rp_isShuttingDown r"
  "rp_isShuttingDown (connectWithRetry r) = rp_isShuttingDown r"
  "rp_isShuttingDown (fst (register r)) = rp_isShuttingDown r"
  "rp_isShuttingDown (resetConnectionState r) = rp_isShuttingDown r"
  by (simp_all add: triggerReconnect_def connectWithRetry_def register_def loop_returns_def emit_def
      resetConnectionState_def stopHeartbeat_def endActivityStream_def Let_def split: option.splits)

lemma sound_stream_error:
  assumes "sound r"
  shows "sound (handleStreamError r)"
proof (cases "rp_isShuttingDown r \<or> \<not> rp_autoReconnect r")
  case True
  with assms show ?thesis by (auto simp: handleStreamError_def)
next
  case False
  let ?r = "resetConnectionState r"
  have v: "retry_view ?r = retry_view r" by simp
  have "retrying (triggerReconnect ?r)"
  proof (rule retrying_trigger)
    show "beating ?r" using assms by (simp add: sound_def beating_reset)
    show "rp_reconnectPromise ?r \<longrightarrow> retrying ?r"
      using assms False v by (auto simp: sound_def retrying_def retry_view_def)
  qed (use assms False v in \<open>auto simp: sound_def retrying_def retry_view_def\<close>)
  with assms False show ?thesis by (simp add: sound_def handleStreamError_def beating_trigger beating_reset)
qed

lemma sound_start: "sound r \<Longrightarrow> sound (start r)"
proof -
  assume s: "sound r"
  have "retrying (triggerReconnect (r\<lparr>rp_autoReconnect := True\<rparr>))" "beating (triggerReconnect (r\<lparr>rp_autoReconnect := True\<rparr>))"
    if "\<not> rp_autoReconnect r" "\<not> rp_isShuttingDown r"
  proof -
    have b: "beating (r\<lparr>rp_autoReconnect := True\<rparr>)" using s by (auto simp: sound_def intro: beating_cong)
    with s that show "retrying (triggerReconnect (r\<lparr>rp_autoReconnect := True\<rparr>))"
      by (intro retrying_trigger) (auto simp: sound_def retrying_def)
    show "beating (triggerReconnect (r\<lparr>rp_autoReconnect := True\<rparr>))" using b by (rule beating_trigger)
  qed
  with s show ?thesis by (auto simp: start_def sound_def)
qed

lemma sound_register: "sound r \<Longrightarrow> \<not> rp_isShuttingDown r \<Longrightarrow> sound (fst (register r))"
  using truthy_sound [of r]
  by (auto simp: sound_def beating_register) (auto simp: register_def retrying_def emit_def split: option.splits)

lemma sound_delay: "sound r \<Longrightarrow> \<not> rp_isShuttingDown r \<Longrightarrow> rp_loop r = Loop_Delaying d \<Longrightarrow> sound (connectWithRetry r)"
proof -
  assume a: "sound r" "\<not> rp_isShuttingDown r" "rp_loop r = Loop_Delaying d"
  then have "retrying (connectWithRetry r)"
    by (intro retrying_connect) (auto simp: sound_def retrying_def)
  with a show ?thesis by (simp add: sound_def beating_connect)
qed

lemma loop_view:
  "beating (loop_resumes p ok (register_settles p r)) = beating r"
  by (auto simp: beating_def loop_resumes_def register_settles_def loop_returns_def nextRetryDelayMs_def Let_def)

lemma sound_reply:
  assumes "sound r" "\<not> rp_isShuttingDown r" "p \<in> set (rp_calls r)" "benign (Register_Reply p reply False)"
  shows "sound (register_replied p reply False r)"
proof -
  let ?r = "r\<lparr>rp_calls := remove1 p (rp_calls r)\<rparr>"
  obtain r1 ok where r1: "performRegister reply False ?r = (r1, ok)" by force
  have infl: "rp_registerInFlight r = Some p" "rp_calls r = [p]" "rp_serviceId r = None"
    using assms by (auto simp: sound_def retrying_def split: option.splits)
  have b0: "beating ?r" using assms by (auto simp: sound_def intro: beating_cong)
  have v: "retry_view r1 = retry_view ?r" using perform_view [of reply ?r] r1 by simp
  have "beating r1 \<and> (ok \<longleftrightarrow> rp_serviceId r1 \<noteq> None)"
  proof (cases "\<exists>handle. reply = Response (Some handle)")
    case True
    then obtain handle where h: "reply = Response (Some handle)" by blast
    with assms r1 infl beating_registered [OF b0, of handle]
    show ?thesis by (auto simp: performRegister_def Let_def)
  next
    case False
    with r1 b0 infl assms show ?thesis by (cases reply) (auto simp: performRegister_def split: option.splits)
  qed
  moreover have "retrying (loop_resumes p ok (register_settles p r1))" if "ok \<longleftrightarrow> rp_serviceId r1 \<noteq> None"
    using that v infl assms by (cases "rp_loop r")
      (auto simp: retry_view_def sound_def retrying_def loop_resumes_def register_settles_def loop_returns_def
        nextRetryDelayMs_def Let_def)
  moreover have "rp_isShuttingDown (loop_resumes p ok (register_settles p r1)) = rp_isShuttingDown r1"
    by (simp add: loop_resumes_def register_settles_def loop_returns_def nextRetryDelayMs_def Let_def)
  ultimately show ?thesis
    using r1 v assms(2) by (simp add: register_replied_def sound_def loop_view retry_view_def)
qed

lemma sound_quiet_step: "rp_isShuttingDown r \<Longrightarrow> silent r \<Longrightarrow> beating r \<Longrightarrow> benign e \<Longrightarrow> sound (reporter_step r e)"
proof -
  assume a: "rp_isShuttingDown r" "silent r" "beating r" "benign e"
  have s: "silent (reporter_step r e)" using silent_step [OF a(2)] by simp
  have t: "rp_heartbeatTimer r = None" "rp_heartbeatStream r = None" "rp_intervals r = []" "rp_serviceId r = None"
    using a by (auto simp: silent_def beating_def)
  from s have t': "rp_heartbeatTimer (reporter_step r e) = None" "rp_heartbeatStream (reporter_step r e) = None"
    "rp_serviceId (reporter_step r e) = None" by (auto simp: silent_def)
  obtain new where new: "rp_log (reporter_step r e) = new @ rp_log r" "\<forall>a \<in> set new. late_action a"
    using silent_step [OF a(2)] unfolding adds_only_late_def by blast
  have "beats (new @ rp_log r) = beats (rp_log r) \<and> proper (new @ rp_log r) = proper (rp_log r)"
    using new(2) by (induction new) (auto simp: late_action_def split: network_action.splits)
  moreover have "rp_intervals (reporter_step r e) = []"
    using a(1) t by (cases e) (auto simp: start_def register_def register_replied_def performRegister_def
        register_settles_def loop_resumes_def connectWithRetry_def loop_returns_def sendHeartbeat_def handleStreamError_def
        handleStreamEnd_def reportActivity_def setHealth_def setMetrics_def shutdown_def unregister_replied_def emit_def nextRetryDelayMs_def Let_def
        split: option.splits register_reply.splits retry_loop.splits)
  ultimately have "beating (reporter_step r e)"
    using a(3) t t' new(1) by (simp add: beating_def)
  with s show ?thesis by (simp add: sound_def silent_def)
qed

lemma sound_step:
  assumes "sound r" "benign e"
  shows "sound (reporter_step r e)"
proof (cases "rp_isShuttingDown r")
  case True
  with assms sound_quiet_step show ?thesis by (simp add: sound_def)
next
  case False
  have b: "beating r" and y: "retrying r" using assms False by (auto simp: sound_def)
  have keep: "sound r'" if "retry_view r' = retry_view r" "rp_serviceId r' = rp_serviceId r" "beating r'" for r'
    using that False retrying_cong [OF y] by (simp add: sound_def retry_view_def)
  show ?thesis
  proof (cases e)
    case (Register_Reply p reply throws)
    show ?thesis
    proof (cases "p \<in> set (rp_calls r)")
      case True
      have "register_replied p reply throws r = register_replied p reply False r"
        using assms Register_Reply by (auto simp: register_replied_def performRegister_def split: register_reply.splits option.splits)
      with True sound_reply [OF assms(1) False True, of reply] assms Register_Reply show ?thesis
        by (cases reply; cases "\<exists>h. reply = Response (Some h)") auto
    qed (use assms Register_Reply in simp)
  next
    case Delay_Over
    with assms False sound_delay show ?thesis by (cases "rp_loop r") auto
  next
    case (Interval_Tick t throws)
    with assms b show ?thesis by (auto intro!: keep beating_send)
  next
    case Stream_End
    moreover have "handleStreamEnd r = handleStreamError r" by (simp add: handleStreamEnd_def handleStreamError_def)
    ultimately show ?thesis using assms sound_stream_error by simp
  next
    case (Do_Report report now throws)
    with assms b show ?thesis
      by (auto simp: reportActivity_def retry_view_def emit_def beating_def split: option.splits intro!: keep)
  next
    case Do_Shutdown
    with b False shutdown_silent beating_shutdown show ?thesis by (auto simp: sound_def silent_def)
  next
    case Unregister_Reply
    with b show ?thesis by (auto simp: unregister_replied_def retry_view_def emit_def beating_def intro!: keep)
  qed (use assms False b in \<open>auto simp: sound_start sound_register sound_stream_error setHealth_def setMetrics_def
    retry_view_def intro!: keep intro: beating_cong\<close>)
qed

interpretation reporting: reactive "\<lambda>r e. if benign e then reporter_step r e else r" sound
  by unfold_locales (simp add: sound_step)

lemma sound_new: "sound (new_reporter options)"
  by (simp add: sound_def beating_def retrying_def new_reporter_def)

lemma benign_run:
  "\<forall>e \<in> set es. benign e \<Longrightarrow> foldl (\<lambda>r e. if benign e then reporter_step r e else r) r es = foldl reporter_step r es"
  by (induction es arbitrary: r) auto

lemma sound_run: "sound r \<Longrightarrow> \<forall>e \<in> set es. benign e \<Longrightarrow> sound (foldl reporter_step r es)"
  by (drule reporting.inv_run [of _ es]) (simp only: benign_run)

subsection \<open>The promises of the reporter\<close>

lemma reply_registers:
  assumes "sh_serviceId handle \<noteq> []" "\<not> rp_isShuttingDown r"
  shows "rp_serviceId (register_replied p (Response (Some handle)) False r) = Some (sh_serviceId handle)"
  using assms by (simp add: register_replied_def performRegister_def startHeartbeat_def sendHeartbeat_def
      startActivityStream_def loop_resumes_def register_settles_def loop_returns_def nextRetryDelayMs_def emit_def Let_def)

text \<open>C6.
  As long as no write on a stream throws and the topology gives out no empty id (\<open>benign\<close>), a reporter
  that was started and not shut down is registered, with one heartbeat stream and one timer that serves
  it, or a registration is under way, or it will try again in one to fifteen seconds; and a reply with a
  handle makes it registered under the handle's id.  Calls may fail, replies may lack their handle and
  streams may break or end at any time.  A stream of Node does not throw on a write, it reports its
  errors by an event; the code nevertheless catches what a write throws, and there the promise does not
  hold: see \<open>throwing_heartbeat_strands_the_reporter\<close>.\<close>

theorem reporter_comes_back:
  assumes "\<forall>e \<in> set es. benign e" "r = foldl reporter_step (new_reporter options) es"
    "rp_autoReconnect r" "\<not> rp_isShuttingDown r"
  shows "((\<exists>i h t. rp_serviceId r = Some i \<and> i \<noteq> [] \<and> rp_heartbeatStream r = Some h \<and> rp_intervals r = [t])
      \<or> (\<exists>p. rp_loop r = Loop_Registering p \<and> rp_calls r = [p])
      \<or> (\<exists>d. rp_loop r = Loop_Delaying d \<and> 1000 \<le> d \<and> d \<le> 15000))
    \<and> (\<forall>p \<in> set (rp_calls r). \<forall>handle. sh_serviceId handle \<noteq> [] \<longrightarrow>
        rp_serviceId (reporter_step r (Register_Reply p (Response (Some handle)) False)) = Some (sh_serviceId handle))"
proof -
  have "sound r" unfolding assms(2) by (rule sound_run [OF sound_new assms(1)])
  with assms have "beating r" "retrying r" by (auto simp: sound_def)
  then have "rp_serviceId r \<noteq> None \<Longrightarrow> \<exists>i h t. rp_serviceId r = Some i \<and> i \<noteq> [] \<and> rp_heartbeatStream r = Some h \<and> rp_intervals r = [t]"
    by (cases "rp_heartbeatTimer r") (auto simp: beating_def)
  moreover have "rp_serviceId r = None \<Longrightarrow> (\<exists>p. rp_loop r = Loop_Registering p \<and> rp_calls r = [p])
      \<or> (\<exists>d. rp_loop r = Loop_Delaying d \<and> 1000 \<le> d \<and> d \<le> 15000)"
    using \<open>retrying r\<close> assms(3) by (cases "rp_loop r") (auto simp: retrying_def)
  ultimately show ?thesis using reply_registers assms(4) by auto
qed

theorem reporter_comes_back_witness:
  "rp_serviceId (reporter_step (start (new_reporter sample_options))
     (Register_Reply 0 (Response (Some sample_handle)) False)) = Some ''id1''"
  using reporter_comes_back [of "[Do_Start]", OF _ refl, of sample_options]
  by (auto simp: start_def new_reporter_def sample_options_def sample_handle_def reporter_defs)

text \<open>
  What happens to a started reporter when the very first heartbeat after a registration throws: the error
  handler resets the connection and leaves the reconnecting to the retry loop, which is the one that is
  registering and which stops because the registration succeeded.  The reporter then is not registered,
  has no call under way and will not try again by itself.\<close>

lemma throwing_heartbeat_strands_the_reporter:
  assumes "r = foldl reporter_step (new_reporter options) [Do_Start, Register_Reply 0 (Response (Some handle)) True]"
    and "sh_serviceId handle \<noteq> []"
  shows "rp_serviceId r = None" "rp_calls r = []" "rp_loop r = Loop_Idle" "\<not> rp_reconnectPromise r"
    "rp_autoReconnect r" "\<not> rp_isShuttingDown r" "rp_heartbeatStream r = None"
  using assms(2) unfolding assms(1)
  by (simp_all add: start_def new_reporter_def reporter_defs register_replied_def performRegister_def register_settles_def
      loop_resumes_def nextRetryDelayMs_def startHeartbeat_def sendHeartbeat_def handleStreamError_def truthy_def Let_def
      triggerReconnect_def startActivityStream_def loop_returns_def)

text \<open>C33.
  As long as no write throws and the topology gives out no empty id (\<open>benign\<close>), every heartbeat is sent
  on the stream that is open at its time, and on each stream the heartbeats are numbered 1, 2, 3,
  \<open>\<dots>\<close> without a gap; the reporter's counter is the number of heartbeats sent on the present stream.
  The number is taken before the write: for a reporter that does not reconnect, a write that throws uses
  up a number without sending it (\<open>throwing_heartbeat_leaves_a_gap\<close>).\<close>

theorem heartbeats_are_numbered:
  assumes "\<forall>e \<in> set es. benign e" "r = foldl reporter_step (new_reporter options) es"
  shows "proper (rp_log r) \<and> beats (rp_log r) = map_option (\<lambda>h. (h, rp_seq r)) (rp_heartbeatStream r)"
proof -
  have "sound r" unfolding assms(2) by (rule sound_run [OF sound_new assms(1)])
  then show ?thesis by (simp add: sound_def beating_def)
qed

theorem heartbeats_are_numbered_witness:
  "proper (rp_log (foldl reporter_step (new_reporter sample_options)
     [Do_Start, Register_Reply 0 (Response (Some sample_handle)) False, Stream_Error, Stream_End, Do_Shutdown]))"
  using heartbeats_are_numbered [OF _ refl, of "[Do_Start, Register_Reply 0 (Response (Some sample_handle)) False,
      Stream_Error, Stream_End, Do_Shutdown]" sample_options]
  by (simp add: sample_handle_def)

text \<open>A reporter that has registered by \<open>register\<close> alone, as the proxy's do, and whose second heartbeat throws.\<close>

lemma throwing_heartbeat_leaves_a_gap:
  "map (\<lambda>a. case a of Sent_Heartbeat h q \<Rightarrow> hb_sequence q | _ \<Rightarrow> []) (filter (\<lambda>a. case a of Sent_Heartbeat h q \<Rightarrow> True | _ \<Rightarrow> False)
     (rev (rp_log (foldl reporter_step (new_reporter sample_options)
        [Do_Register, Register_Reply 0 (Response (Some sample_handle)) False, Interval_Tick 2 True, Interval_Tick 2 False]))))
   = [''1'', ''3'']"
  by code_simp

text \<open>A registration that fails, and the end of the delay after it.\<close>

definition failed_rounds :: "nat \<Rightarrow> reporter_event list" where
  "failed_rounds k = concat (map (\<lambda>i. [Register_Reply i (Call_Failed ''unavailable'') False, Delay_Over]) [0..<k])"

definition on_attempt :: "nat \<Rightarrow> reporter \<Rightarrow> bool" where
  "on_attempt k r \<longleftrightarrow> rp_loop r = Loop_Registering k \<and> rp_registerInFlight r = Some k \<and> rp_calls r = [k] \<and>
     rp_retryAttempt r = min k 10 \<and> rp_next r = Suc k \<and> rp_serviceId r = None \<and> rp_autoReconnect r \<and>
     \<not> rp_isShuttingDown r"

lemma retry_delay: "min 15000 (1000 * 2 ^ min k 10) = (min 15000 (1000 * 2 ^ k) :: nat)"
proof (cases "k \<le> 10")
  case False
  then have "(2::nat) ^ 10 \<le> 2 ^ k" by (intro power_increasing) simp_all
  with False show ?thesis by (simp add: min_def)
qed (simp add: min_def)

lemma failed_attempt:
  assumes "on_attempt k r"
  shows "rp_loop (reporter_step r (Register_Reply k (Call_Failed e) throws)) = Loop_Delaying (min 15000 (1000 * 2 ^ k))"
    and "on_attempt (Suc k) (reporter_step (reporter_step r (Register_Reply k (Call_Failed e) throws)) Delay_Over)"
  using assms retry_delay [of k]
  by (simp_all add: on_attempt_def register_replied_def performRegister_def register_settles_def loop_resumes_def
      nextRetryDelayMs_def reporter_defs)

lemma on_attempt_rounds: "on_attempt k (foldl reporter_step (start (new_reporter options)) (failed_rounds k))"
proof (induction k)
  case 0
  show ?case by (simp add: failed_rounds_def on_attempt_def start_def new_reporter_def reporter_defs)
next
  case (Suc k)
  from failed_attempt(2) [OF this] show ?case by (simp add: failed_rounds_def)
qed

text \<open>
  The delay before the next registration doubles with every failure, from one second up to
  fifteen: after \<open>k\<close> failed rounds and one more failure it is \<open>min 15000 (1000 * 2 ^ k)\<close>
  milliseconds.\<close>

theorem retry_delay_doubles:
  "rp_loop (foldl reporter_step (start (new_reporter options))
     (failed_rounds k @ [Register_Reply k (Call_Failed reason) throws])) = Loop_Delaying (min 15000 (1000 * 2 ^ k))"
  using failed_attempt(1) [OF on_attempt_rounds] by simp

end
