(* ===== verification/Js_Json.thy ===== *)
theory Js_Json
  imports Js_String
begin

text \<open>
  Values that \<open>JSON.parse\<close> returns, and what JavaScript does with a value of unknown type: property
  access, truthiness, \<open>??\<close> and \<open>toLowerCase\<close>.  An object is the list of its own properties;
  the properties the runtime reads are not inherited ones.
\<close>

datatype json =
    JNull
  | JBool bool
  | JNum rat
  | JStr string
  | JArr "json list"
  | JObj "(string \<times> json) list"

text \<open>\<open>v.name\<close>: an error for null, undefined (\<open>None\<close>) for what has no such property.\<close>

fun property :: "string \<Rightarrow> json \<Rightarrow> string + json option" where
  "property name JNull = Inl (''Cannot read properties of null (reading '' @ [CHR 39] @ name @ [CHR 39] @ '')'')"
| "property name (JObj fields) = Inr (map_of fields name)"
| "property name v = Inr None"

fun js_truthy :: "json option \<Rightarrow> bool" where
  "js_truthy None = False"
| "js_truthy (Some JNull) = False"
| "js_truthy (Some (JBool b)) = b"
| "js_truthy (Some (JNum x)) = (x \<noteq> 0)"
| "js_truthy (Some (JStr s)) = (s \<noteq> [])"
| "js_truthy (Some v) = True"

definition js_nullish :: "json option \<Rightarrow> json \<Rightarrow> json" where
  "js_nullish v d = (if v = None \<or> v = Some JNull then d else the v)"

text \<open>Fields with the type their interface declares.\<close>

fun string_field :: "json option \<Rightarrow> string option" where
  "string_field (Some (JStr s)) = Some s"
| "string_field v = None"

fun int_field :: "json option \<Rightarrow> int option" where
  "int_field (Some (JNum x)) = Some \<lfloor>x\<rfloor>"
| "int_field v = None"

fun bool_field :: "json option \<Rightarrow> bool option" where
  "bool_field (Some (JBool b)) = Some b"
| "bool_field v = None"

definition lower :: "char \<Rightarrow> char" where
  "lower c = (if 65 \<le> (of_char c :: nat) \<and> (of_char c :: nat) \<le> 90 then char_of ((of_char c :: nat) + 32) else c)"

definition toLowerCase :: "string \<Rightarrow> string" where
  "toLowerCase s = map lower s"

lemma js_truthy_string: "js_truthy (Some (JStr s)) \<longleftrightarrow> s \<noteq> []"
  by simp

lemma property_object [simp]: "property name (JObj fields) = Inr (map_of fields name)"
  by simp

end
