(* ===== verification/Reporter_Proxy.thy ===== *)
theory Reporter_Proxy
  imports Reporter_Properties Js_Json
begin

text \<open>
  The HTTP proxy through which programs without a gRPC client report to the topology
  (\<open>apps/topology/src/topology-reporter-proxy.ts\<close>).  Each registered service has a reporter of its
  own; the reporters live in a heap, since the proxy shares them between its map of services and
  the handlers that wait for them.  The generated enumerations are parameters.
\<close>

record proxy_enums =
  pe_service_type :: "string \<Rightarrow> service_type option"
  pe_language :: "string \<Rightarrow> service_language option"
  pe_activity :: "json \<Rightarrow> activity_type option"

text \<open>How reading the body of a request ended.\<close>

datatype body = Body json | Body_Invalid | Body_Failed string

record service_instance =
  si_reporter :: nat
  si_serviceName :: "json option"

datatype http_reply =
    Reply_Error nat string
  | Reply_Ok
  | Reply_Registered string int
  | Reply_Health nat

text \<open>\<open>stop\<close> waits for one reporter after the other, then for the server.\<close>

datatype stop_state = Running | Stopping "string list" nat | Closing | Stopped

record proxy =
  px_services :: "(string, service_instance) js_map"
  px_heap :: "nat \<Rightarrow> reporter"
  px_fresh :: nat
  px_registering :: "(nat \<times> nat \<times> json option) list"
  px_unregistering :: "(nat \<times> nat \<times> string) list"
  px_replies :: "(nat \<times> http_reply) list"
  px_stop :: stop_state

datatype proxy_event =
    Request nat string string body int
  | Reporter_Event nat reporter_event
  | Stop_Called
  | Server_Closed

definition respond :: "nat \<Rightarrow> http_reply \<Rightarrow> proxy \<Rightarrow> proxy" where
  "respond c reply x = x\<lparr>px_replies := px_replies x @ [(c, reply)]\<rparr>"

definition parseBody :: "body \<Rightarrow> string + json" where
  "parseBody b =
     (case b of Body v \<Rightarrow> Inr v | Body_Invalid \<Rightarrow> Inl ''Invalid JSON'' | Body_Failed e \<Rightarrow> Inl e)"

definition normalizeOptionalString :: "json option \<Rightarrow> string option" where
  "normalizeOptionalString value =
     (case value of
        Some (JStr s) \<Rightarrow>
          (let trimmed = trim s in
           if trimmed = [] then None else if toLowerCase trimmed = ''null'' then None else Some trimmed)
      | _ \<Rightarrow> None)"

subsection \<open>Registration\<close>

text \<open>
  The checks of \<open>handleRegister\<close>: an error status with its message, or the options of the reporter.
  Reading the first property of a body that is null throws.
\<close>

definition register_options :: "proxy_enums \<Rightarrow> body \<Rightarrow> (nat \<times> string) + (reporter_options \<times> json option)" where
  "register_options enums b =
     (case parseBody b of
        Inl e \<Rightarrow> Inl (500, e)
      | Inr v \<Rightarrow>
          (case property ''serviceName'' v of
             Inl e \<Rightarrow> Inl (500, e)
           | Inr name \<Rightarrow>
               (let get = (\<lambda>field. case property field v of Inr x \<Rightarrow> x | Inl _ \<Rightarrow> None) in
                case (normalizeOptionalString name, normalizeOptionalString (get ''serviceType''),
                      normalizeOptionalString (get ''language'')) of
                  (Some serviceName, Some serviceTypeKey, Some languageKey) \<Rightarrow>
                    (case (pe_service_type enums serviceTypeKey, pe_language enums languageKey) of
                       (Some serviceType, Some language) \<Rightarrow>
                         Inr (\<lparr>ro_serviceName = serviceName, ro_serviceType = serviceType, ro_language = language,
                                ro_version = normalizeOptionalString (get ''version''),
                                ro_address = normalizeOptionalString (get ''address''),
                                ro_host = normalizeOptionalString (get ''host''),
                                ro_metadata = Some \<lparr>meta_region = None, meta_environment = None, meta_team = None,
                                  meta_versionHash = None,
                                  meta_serviceInterface = normalizeOptionalString (get ''serviceInterface''),
                                  meta_serviceRole = normalizeOptionalString (get ''serviceRole''),
                                  meta_programName = normalizeOptionalString (get ''programName'')\<rparr>,
                                ro_enableActivity = Some (js_truthy (Some (js_nullish (get ''enableActivity'') (JBool True))))\<rparr>,
                              name)
                     | _ \<Rightarrow> Inl (400, ''Invalid serviceType or language''))
                | _ \<Rightarrow> Inl (400, ''Missing required fields: serviceName, serviceType, language''))))"

definition handleRegister :: "proxy_enums \<Rightarrow> nat \<Rightarrow> body \<Rightarrow> proxy \<Rightarrow> proxy" where
  "handleRegister enums c b x =
     (case register_options enums b of
        Inl (code, e) \<Rightarrow> respond c (Reply_Error code e) x
      | Inr (options, name) \<Rightarrow>
          (let n = px_fresh x in
           x\<lparr>px_fresh := n + 1, px_heap := (px_heap x)(n := fst (register (new_reporter options))),
             px_registering := px_registering x @ [(c, n, name)]\<rparr>))"

text \<open>What \<open>await reporter.register()\<close> gives, and the rest of the handler.\<close>

definition register_outcome :: "reporter \<Rightarrow> register_reply \<Rightarrow> string + service_handle" where
  "register_outcome r reply =
     (case reply of
        Call_Failed e \<Rightarrow> Inl e
      | Response handle \<Rightarrow>
          if rp_isShuttingDown r then Inl ''Topology reporter is shutting down.''
          else (case handle of
                  None \<Rightarrow> Inl ''Topology registration failed: missing service handle.''
                | Some h \<Rightarrow> Inr h))"

definition finish_register :: "nat \<Rightarrow> nat \<Rightarrow> json option \<Rightarrow> string + service_handle \<Rightarrow> proxy \<Rightarrow> proxy" where
  "finish_register c n name outcome x =
     (case outcome of
        Inl e \<Rightarrow> respond c (Reply_Error 500 e) x
      | Inr handle \<Rightarrow>
          respond c (Reply_Registered (sh_serviceId handle) (sh_heartbeatIntervalMs handle))
            (x\<lparr>px_services := map_set (sh_serviceId handle) \<lparr>si_reporter = n, si_serviceName = name\<rparr> (px_services x)\<rparr>))"

subsection \<open>The other handlers\<close>

text \<open>The service a body names: an error, or the service and its id.\<close>

definition find_service :: "proxy \<Rightarrow> json \<Rightarrow> (nat \<times> string) + (string \<times> service_instance)" where
  "find_service x v =
     (case property ''serviceId'' v of
        Inr (Some (JStr serviceId)) \<Rightarrow>
          (case map_get (px_services x) serviceId of
             None \<Rightarrow> Inl (404, ''Service not found'')
           | Some service \<Rightarrow> Inr (serviceId, service))
      | _ \<Rightarrow> Inl (404, ''Service not found''))"

definition handleHeartbeat :: "nat \<Rightarrow> body \<Rightarrow> proxy \<Rightarrow> proxy" where
  "handleHeartbeat c b x =
     (case parseBody b of
        Inl e \<Rightarrow> respond c (Reply_Error 500 e) x
      | Inr v \<Rightarrow>
          (case property ''serviceId'' v of
             Inl e \<Rightarrow> respond c (Reply_Error 500 e) x
           | Inr serviceId \<Rightarrow>
               if \<not> js_truthy serviceId then respond c (Reply_Error 400 ''Missing required field: serviceId'') x
               else (case find_service x v of
                       Inl (code, e) \<Rightarrow> respond c (Reply_Error code e) x
                     | Inr _ \<Rightarrow> respond c Reply_Ok x)))"

text \<open>A field whose value does not have the declared type reaches the serialiser of gRPC; the
  model reads it as missing.\<close>

definition report_of :: "(string \<Rightarrow> json option) \<Rightarrow> activity_type \<Rightarrow> activity_report" where
  "report_of get activityType =
     \<lparr>rt_targetService = nullish (string_field (get ''targetService'')) [], rt_type = activityType,
      rt_timestampMs = int_field (get ''timestampMs''), rt_latencyMs = int_field (get ''latencyMs''),
      rt_method = string_field (get ''method''), rt_success = bool_field (get ''success''), rt_batchSize = None,
      rt_errorMessage = string_field (get ''errorMessage'')\<rparr>"

definition handleActivity :: "proxy_enums \<Rightarrow> nat \<Rightarrow> body \<Rightarrow> int \<Rightarrow> proxy \<Rightarrow> proxy" where
  "handleActivity enums c b now x =
     (case parseBody b of
        Inl e \<Rightarrow> respond c (Reply_Error 500 e) x
      | Inr v \<Rightarrow>
          (case property ''serviceId'' v of
             Inl e \<Rightarrow> respond c (Reply_Error 500 e) x
           | Inr serviceId \<Rightarrow>
               (let get = (\<lambda>field. case property field v of Inr y \<Rightarrow> y | Inl _ \<Rightarrow> None) in
                if \<not> js_truthy serviceId \<or> \<not> js_truthy (get ''targetService'') \<or> \<not> js_truthy (get ''type'')
                then respond c (Reply_Error 400 ''Missing required fields: serviceId, targetService, type'') x
                else (case find_service x v of
                        Inl (code, e) \<Rightarrow> respond c (Reply_Error code e) x
                      | Inr (_, service) \<Rightarrow>
                          (case pe_activity enums (the (get ''type'')) of
                             None \<Rightarrow> respond c (Reply_Error 400 ''Invalid activity type'') x
                           | Some activityType \<Rightarrow>
                               (let n = si_reporter service in
                                respond c Reply_Ok
                                  (x\<lparr>px_heap := (px_heap x)
                                       (n := reportActivity (report_of get activityType) now False (px_heap x n))\<rparr>)))))))"

text \<open>
  \<open>await reporter.shutdown()\<close> is over at once for a reporter that is shutting down already or has
  nothing to unregister; otherwise when the unregistration has been answered.
\<close>

definition shutdown_awaits :: "reporter \<Rightarrow> bool" where
  "shutdown_awaits r \<longleftrightarrow> \<not> rp_isShuttingDown r \<and> truthy (rp_serviceId r)"

definition finish_unregister :: "nat \<Rightarrow> string \<Rightarrow> proxy \<Rightarrow> proxy" where
  "finish_unregister c serviceId x = respond c Reply_Ok (x\<lparr>px_services := map_delete serviceId (px_services x)\<rparr>)"

definition handleUnregister :: "nat \<Rightarrow> body \<Rightarrow> proxy \<Rightarrow> proxy" where
  "handleUnregister c b x =
     (case parseBody b of
        Inl e \<Rightarrow> respond c (Reply_Error 500 e) x
      | Inr v \<Rightarrow>
          (case property ''serviceId'' v of
             Inl e \<Rightarrow> respond c (Reply_Error 500 e) x
           | Inr serviceId \<Rightarrow>
               if \<not> js_truthy serviceId then respond c (Reply_Error 400 ''Missing required field: serviceId'') x
               else (case find_service x v of
                       Inl (code, e) \<Rightarrow> respond c (Reply_Error code e) x
                     | Inr (serviceId, service) \<Rightarrow>
                         (let n = si_reporter service; r = px_heap x n;
                              x = x\<lparr>px_heap := (px_heap x)(n := shutdown r)\<rparr>
                          in if shutdown_awaits r
                             then x\<lparr>px_unregistering := px_unregistering x @ [(c, n, serviceId)]\<rparr>
                             else finish_unregister c serviceId x))))"

definition handleRequest :: "proxy_enums \<Rightarrow> nat \<Rightarrow> string \<Rightarrow> string \<Rightarrow> body \<Rightarrow> int \<Rightarrow> proxy \<Rightarrow> proxy" where
  "handleRequest enums c url meth b now x =
     (if meth \<noteq> ''POST'' then respond c (Reply_Error 405 ''Method not allowed'') x
      else if url = ''/register'' then handleRegister enums c b x
      else if url = ''/heartbeat'' then handleHeartbeat c b x
      else if url = ''/activity'' then handleActivity enums c b now x
      else if url = ''/unregister'' then handleUnregister c b x
      else if url = ''/health'' then respond c (Reply_Health (length (px_services x))) x
      else respond c (Reply_Error 404 ''Not found'') x)"

subsection \<open>Stopping\<close>

text \<open>
  The loop of \<open>stop\<close> goes through the map as it is at each moment; \<open>visited\<close> are the services it
  has dealt with.  It goes on while \<open>shutdown\<close> returns at once, at most once per service.
\<close>

fun stop_loop :: "nat \<Rightarrow> string list \<Rightarrow> proxy \<Rightarrow> proxy" where
  "stop_loop 0 visited x = x"
| "stop_loop (Suc k) visited x =
     (case List.find (\<lambda>(i, _). i \<notin> set visited) (px_services x) of
        None \<Rightarrow> x\<lparr>px_services := [], px_stop := Closing\<rparr>
      | Some (serviceId, service) \<Rightarrow>
          (let n = si_reporter service; r = px_heap x n;
               x = x\<lparr>px_heap := (px_heap x)(n := shutdown r)\<rparr>
           in if shutdown_awaits r then x\<lparr>px_stop := Stopping (serviceId # visited) n\<rparr>
              else stop_loop k (serviceId # visited) x))"

definition stop_from :: "string list \<Rightarrow> proxy \<Rightarrow> proxy" where
  "stop_from visited x = stop_loop (Suc (length (px_services x))) visited x"

text \<open>What waits for a reporter goes on when its event has the awaited outcome.\<close>

definition resume_register :: "nat \<Rightarrow> string + service_handle \<Rightarrow> proxy \<Rightarrow> proxy" where
  "resume_register n outcome x =
     (case List.find (\<lambda>(_, m, _). m = n) (px_registering x) of
        None \<Rightarrow> x
      | Some (c, m, name) \<Rightarrow>
          finish_register c n name outcome (x\<lparr>px_registering := remove1 (c, m, name) (px_registering x)\<rparr>))"

definition resume_unregister :: "nat \<Rightarrow> proxy \<Rightarrow> proxy" where
  "resume_unregister n x =
     (let x = (case List.find (\<lambda>(_, m, _). m = n) (px_unregistering x) of
                 None \<Rightarrow> x
               | Some (c, m, serviceId) \<Rightarrow>
                   finish_unregister c serviceId
                     (x\<lparr>px_unregistering := remove1 (c, m, serviceId) (px_unregistering x)\<rparr>))
      in case px_stop x of
           Stopping visited m \<Rightarrow> if m = n then stop_from visited x else x
         | _ \<Rightarrow> x)"

definition reporter_event :: "nat \<Rightarrow> reporter_event \<Rightarrow> proxy \<Rightarrow> proxy" where
  "reporter_event n e x =
     (let r = px_heap x n; y = x\<lparr>px_heap := (px_heap x)(n := reporter_step r e)\<rparr> in
      case e of
        Register_Reply p reply _ \<Rightarrow>
          if p \<in> set (rp_calls r) then resume_register n (register_outcome r reply) y else y
      | Unregister_Reply \<Rightarrow> if rp_unregistering r then resume_unregister n y else y
      | _ \<Rightarrow> y)"

text \<open>Only the network acts on a reporter; the application's calls are made by the handlers.\<close>

fun network_event :: "reporter_event \<Rightarrow> bool" where
  "network_event (Register_Reply _ _ _) = True"
| "network_event (Interval_Tick _ _) = True"
| "network_event Stream_Error = True"
| "network_event Stream_End = True"
| "network_event Unregister_Reply = True"
| "network_event _ = False"

fun proxy_step :: "proxy_enums \<Rightarrow> proxy \<Rightarrow> proxy_event \<Rightarrow> proxy" where
  "proxy_step enums x (Request c url meth b now) =
     (if px_stop x \<in> {Closing, Stopped} then x else handleRequest enums c url meth b now x)"
| "proxy_step enums x (Reporter_Event n e) = (if n < px_fresh x \<and> network_event e then reporter_event n e x else x)"
| "proxy_step enums x Stop_Called = (if px_stop x = Running then stop_from [] x else x)"
| "proxy_step enums x Server_Closed = (if px_stop x = Closing then x\<lparr>px_stop := Stopped\<rparr> else x)"

definition no_reporter :: reporter where
  "no_reporter = new_reporter \<lparr>ro_serviceName = [], ro_serviceType = SERVICE_TYPE_UNSPECIFIED,
     ro_language = SERVICE_LANGUAGE_UNSPECIFIED, ro_version = None, ro_address = None, ro_host = None,
     ro_metadata = None, ro_enableActivity = None\<rparr>"

definition new_proxy :: proxy where
  "new_proxy = \<lparr>px_services = [], px_heap = (\<lambda>_. no_reporter), px_fresh = 0,
     px_registering = [], px_unregistering = [], px_replies = [], px_stop = Running\<rparr>"

end
