(* ===== verification/Proxy_Properties.thy ===== *)
theory Proxy_Properties
  imports Reporter_Proxy
begin

text \<open>
  What the HTTP proxy guarantees: every request is answered once, the entry of a service belongs to
  a reporter registered under its id, and no proxied reporter ever reconnects.
\<close>

subsection \<open>Every request is answered once\<close>

definition pending :: "nat \<Rightarrow> proxy \<Rightarrow> nat" where
  "pending c x = count_list (map fst (px_registering x)) c + count_list (map fst (px_unregistering x)) c"

definition answered :: "nat \<Rightarrow> proxy \<Rightarrow> nat" where
  "answered c x = count_list (map fst (px_replies x)) c"

definition accounted :: "nat \<Rightarrow> proxy \<Rightarrow> nat" where
  "accounted c x = pending c x + answered c x"

lemma count_append [simp]: "count_list (xs @ ys) c = count_list xs c + count_list ys c"
  by (induction xs) auto

text \<open>Everything that answers a request, or makes it wait, adds one for its connection.\<close>

definition one_for :: "nat \<Rightarrow> nat \<Rightarrow> nat" where
  "one_for d c = (if d = c then 1 else 0)"

lemma accounted_respond [simp]: "accounted c (respond d reply x) = accounted c x + one_for d c"
  by (simp add: accounted_def pending_def answered_def respond_def one_for_def)

lemma accounted_update [simp]: "accounted c (x\<lparr>px_heap := h\<rparr>) = accounted c x"
  "accounted c (x\<lparr>px_services := s\<rparr>) = accounted c x" "accounted c (x\<lparr>px_fresh := f\<rparr>) = accounted c x"
  "accounted c (x\<lparr>px_stop := t\<rparr>) = accounted c x"
  "accounted c (x\<lparr>px_registering := px_registering x @ [(d, n, name)]\<rparr>) = accounted c x + one_for d c"
  "accounted c (x\<lparr>px_unregistering := px_unregistering x @ [(d, n, i)]\<rparr>) = accounted c x + one_for d c"
  by (simp_all add: accounted_def pending_def answered_def one_for_def)

lemma accounted_register [simp]: "accounted c (handleRegister enums d b x) = accounted c x + one_for d c"
  by (simp add: handleRegister_def Let_def accounted_def pending_def answered_def respond_def one_for_def
      split: sum.split prod.split)

lemma accounted_heartbeat [simp]: "accounted c (handleHeartbeat d b x) = accounted c x + one_for d c"
  by (simp add: handleHeartbeat_def Let_def split: sum.split prod.split)

lemma accounted_activity [simp]: "accounted c (handleActivity enums d b now x) = accounted c x + one_for d c"
  by (simp add: handleActivity_def Let_def split: sum.split prod.split option.split)

lemma accounted_finish_unregister [simp]: "accounted c (finish_unregister d i x) = accounted c x + one_for d c"
  by (simp add: finish_unregister_def)

lemma accounted_finish_register [simp]: "accounted c (finish_register d n name outcome x) = accounted c x + one_for d c"
  by (simp add: finish_register_def split: sum.split)

lemma accounted_unregister [simp]: "accounted c (handleUnregister d b x) = accounted c x + one_for d c"
proof -
  have "accounted c (x\<lparr>px_heap := h, px_unregistering := px_unregistering x @ [(d, n, i)]\<rparr>) = accounted c x + one_for d c"
    for h n i by (simp add: accounted_def pending_def answered_def one_for_def)
  then show ?thesis by (simp add: handleUnregister_def Let_def split: sum.split prod.split)
qed

lemma accounted_request: "accounted c (handleRequest enums d url meth b now x) = accounted c x + one_for d c"
  by (simp add: handleRequest_def)

lemma count_remove1_fst: "(d, p) \<in> set xs \<Longrightarrow>
  count_list (map fst (remove1 (d, p) xs)) c + one_for d c = count_list (map fst xs) c"
  by (induction xs) (auto simp: one_for_def)

lemma accounted_resume_register: "accounted c (resume_register n outcome x) = accounted c x"
proof (cases "List.find (\<lambda>(_, m, _). m = n) (px_registering x)")
  case (Some e)
  obtain d m name where e: "e = (d, m, name)" by (cases e)
  with Some have "(d, m, name) \<in> set (px_registering x)" by (auto dest: find_Some_mem)
  from count_remove1_fst [OF this, of c]
  have "accounted c (x\<lparr>px_registering := remove1 (d, m, name) (px_registering x)\<rparr>) + one_for d c = accounted c x"
    by (simp add: accounted_def pending_def answered_def)
  with Some e show ?thesis by (simp add: resume_register_def)
qed (simp add: resume_register_def)

lemma accounted_stop_loop: "accounted c (stop_loop k visited x) = accounted c x"
proof (induction k arbitrary: visited x)
  case (Suc k)
  have "accounted c (x\<lparr>px_services := [], px_stop := Closing\<rparr>) = accounted c x"
    "accounted c (x\<lparr>px_heap := h, px_stop := t\<rparr>) = accounted c x" for h t
    by (simp_all add: accounted_def pending_def answered_def)
  with Suc show ?case by (simp add: Let_def split: option.split prod.split)
qed simp

lemma accounted_stop_from [simp]: "accounted c (stop_from visited x) = accounted c x"
  unfolding stop_from_def by (rule accounted_stop_loop)

lemma accounted_resume_unregister: "accounted c (resume_unregister n x) = accounted c x"
proof (cases "List.find (\<lambda>(_, m, _). m = n) (px_unregistering x)")
  case (Some e)
  obtain d m i where e: "e = (d, m, i)" by (cases e)
  with Some have "(d, m, i) \<in> set (px_unregistering x)" by (auto dest: find_Some_mem)
  from count_remove1_fst [OF this, of c]
  have "accounted c (x\<lparr>px_unregistering := remove1 (d, m, i) (px_unregistering x)\<rparr>) + one_for d c = accounted c x"
    by (simp add: accounted_def pending_def answered_def)
  with Some e show ?thesis by (simp add: resume_unregister_def Let_def split: stop_state.split)
qed (simp add: resume_unregister_def Let_def split: stop_state.split)

lemma accounted_reporter_event: "accounted c (reporter_event n e x) = accounted c x"
  by (simp add: reporter_event_def Let_def accounted_resume_register accounted_resume_unregister split: reporter_event.split)

fun request_of :: "nat \<Rightarrow> proxy_event \<Rightarrow> bool" where
  "request_of c (Request d url meth b now) = (d = c)"
| "request_of c e = False"

lemma running_step: "px_stop x = Running \<Longrightarrow> e \<noteq> Stop_Called \<Longrightarrow> px_stop (proxy_step enums x e) = Running"
proof (cases e)
  case (Request c url meth b now)
  assume "px_stop x = Running"
  with Request show ?thesis
    by (simp add: handleRequest_def handleRegister_def handleHeartbeat_def handleActivity_def handleUnregister_def
        finish_unregister_def respond_def Let_def split: sum.split prod.split option.split)
next
  case (Reporter_Event n e')
  assume "px_stop x = Running"
  with Reporter_Event show ?thesis
    by (simp add: reporter_event_def resume_register_def resume_unregister_def finish_register_def finish_unregister_def
        respond_def Let_def split: reporter_event.split option.split sum.split)
qed simp_all

lemma accounted_step:
  "px_stop x = Running \<Longrightarrow> e \<noteq> Stop_Called \<Longrightarrow>
   accounted c (proxy_step enums x e) = accounted c x + (if request_of c e then 1 else 0)"
  by (cases e) (simp_all add: accounted_request accounted_reporter_event one_for_def)

lemma accounted_run:
  "px_stop x = Running \<Longrightarrow> Stop_Called \<notin> set es \<Longrightarrow>
   accounted c (foldl (proxy_step enums) x es) = accounted c x + length (filter (request_of c) es)"
proof (induction es arbitrary: x)
  case (Cons e es)
  then show ?case using running_step [of x e enums] accounted_step [of x e c enums] by auto
qed simp

text \<open>C26.
  As long as the proxy is not being stopped, every request gets exactly one answer: at every
  moment the answers a connection has got and the calls it waits for are as many as its requests.
  A request waits only for the topology service, to register or to unregister.\<close>

theorem proxy_answers_every_request:
  assumes "Stop_Called \<notin> set es"
  shows "count_list (map fst (px_replies (foldl (proxy_step enums) new_proxy es))) c
    + count_list (map fst (px_registering (foldl (proxy_step enums) new_proxy es))) c
    + count_list (map fst (px_unregistering (foldl (proxy_step enums) new_proxy es))) c
    = length (filter (request_of c) es)"
  using accounted_run [of new_proxy es c enums] assms
  by (simp add: accounted_def answered_def pending_def new_proxy_def)

definition sample_enums :: proxy_enums where
  "sample_enums = \<lparr>pe_service_type = map_of [(''SERVICE_TYPE_SERVER'', SERVICE_TYPE_SERVER)],
     pe_language = map_of [(''SERVICE_LANGUAGE_GO'', SERVICE_LANGUAGE_GO)],
     pe_activity = map_of [(JStr ''ACTIVITY_TYPE_ERROR'', ACTIVITY_TYPE_ERROR)]\<rparr>"

definition sample_body :: body where
  "sample_body = Body (JObj [(''serviceName'', JStr '' calc ''), (''serviceType'', JStr ''SERVICE_TYPE_SERVER''),
     (''language'', JStr ''SERVICE_LANGUAGE_GO''), (''version'', JStr ''NULL'')])"

theorem proxy_answers_every_request_witness:
  "count_list (map fst (px_replies (foldl (proxy_step sample_enums) new_proxy [Request 4 ''/register'' ''POST'' sample_body 0]))) 4
    + count_list (map fst (px_registering (foldl (proxy_step sample_enums) new_proxy [Request 4 ''/register'' ''POST'' sample_body 0]))) 4
    + count_list (map fst (px_unregistering (foldl (proxy_step sample_enums) new_proxy [Request 4 ''/register'' ''POST'' sample_body 0]))) 4 = 1"
  using proxy_answers_every_request [of "[Request 4 ''/register'' ''POST'' sample_body 0]" sample_enums 4] by simp

subsection \<open>The reporters of the proxy\<close>

text \<open>
  No reporter is ever started, so none reconnects and each registers once; the entry of a service
  belongs to a reporter that is registered under its id or shut down.
\<close>

definition unstarted :: "reporter \<Rightarrow> bool" where
  "unstarted r \<longleftrightarrow> \<not> rp_autoReconnect r \<and> length (rp_calls r) \<le> 1"

definition named :: "string \<Rightarrow> reporter \<Rightarrow> bool" where
  "named i r \<longleftrightarrow> rp_calls r = [] \<and> (rp_isShuttingDown r \<or> rp_serviceId r = Some i)"

definition owned :: "proxy \<Rightarrow> bool" where
  "owned x \<longleftrightarrow> (\<forall>n. unstarted (px_heap x n)) \<and>
     (\<forall>(i, s) \<in> set (px_services x). si_reporter s < px_fresh x \<and> named i (px_heap x (si_reporter s)))"

lemma stream_failure_ignored: "\<not> rp_autoReconnect r \<Longrightarrow> handleStreamError r = r \<and> handleStreamEnd r = r"
  by (simp add: handleStreamError_def handleStreamEnd_def)

text \<open>Sending a heartbeat changes the number of the next one and the log.\<close>

lemma passive_send [simp]:
  assumes "\<not> rp_autoReconnect r"
  shows "rp_autoReconnect (sendHeartbeat throws r) = False" "rp_calls (sendHeartbeat throws r) = rp_calls r"
    "rp_serviceId (sendHeartbeat throws r) = rp_serviceId r"
    "rp_isShuttingDown (sendHeartbeat throws r) = rp_isShuttingDown r"
  using assms stream_failure_ignored [of "r\<lparr>rp_seq := rp_seq r + 1\<rparr>"]
  by (auto simp: sendHeartbeat_def emit_def Let_def split: option.split)

lemma passive_start:
  assumes "\<not> rp_autoReconnect r"
  shows "rp_autoReconnect (startHeartbeat throws r) = False" "rp_calls (startHeartbeat throws r) = rp_calls r"
    "rp_serviceId (startHeartbeat throws r) = rp_serviceId r"
  using assms by (simp_all add: startHeartbeat_def emit_def Let_def)

lemma passive_perform:
  assumes "\<not> rp_autoReconnect r"
  shows "\<not> rp_autoReconnect (fst (performRegister reply throws r))"
    "rp_calls (fst (performRegister reply throws r)) = rp_calls r"
    "register_outcome r reply = Inr h \<Longrightarrow> rp_serviceId (fst (performRegister reply throws r)) = Some (sh_serviceId h)"
  using assms passive_start [of "r\<lparr>rp_serviceId := Some i, rp_intervalMs := v, rp_multiplier := m, rp_seq := 0\<rparr>" throws for i v m]
  by (simp_all add: performRegister_def register_outcome_def startActivityStream_def emit_def Let_def
      split: register_reply.splits option.splits if_splits)

lemma passive_reply:
  assumes "unstarted r" "p \<in> set (rp_calls r)"
  shows "unstarted (register_replied p reply throws r)" "rp_calls (register_replied p reply throws r) = []"
    "register_outcome r reply = Inr h \<Longrightarrow> rp_serviceId (register_replied p reply throws r) = Some (sh_serviceId h)"
proof -
  from assms have c: "rp_calls r = [p]" "\<not> rp_autoReconnect r"
    by (auto simp: unstarted_def) (cases "rp_calls r"; auto)
  have o: "register_outcome (r\<lparr>rp_calls := l\<rparr>) reply = register_outcome r reply" for l
    by (simp add: register_outcome_def split: register_reply.split)
  note f = passive_perform(1,2) [of "r\<lparr>rp_calls := []\<rparr>" reply throws]
    passive_perform(3) [of "r\<lparr>rp_calls := []\<rparr>" reply h throws, unfolded o]
  from c f show "unstarted (register_replied p reply throws r)" "rp_calls (register_replied p reply throws r) = []"
    "register_outcome r reply = Inr h \<Longrightarrow> rp_serviceId (register_replied p reply throws r) = Some (sh_serviceId h)"
    by (simp_all add: register_replied_def unstarted_def loop_resumes_def register_settles_def loop_returns_def
        nextRetryDelayMs_def case_prod_beta Let_def)
qed

lemma named_network:
  assumes "unstarted r" "network_event e"
  shows "unstarted (reporter_step r e)" "named i r \<Longrightarrow> named i (reporter_step r e)"
proof -
  show "unstarted (reporter_step r e)"
    using assms passive_reply(1) stream_failure_ignored [of r]
    by (cases e) (auto simp: unstarted_def unregister_replied_def emit_def)
  show "named i r \<Longrightarrow> named i (reporter_step r e)"
    using assms stream_failure_ignored [of r]
    by (cases e) (auto simp: unstarted_def named_def unregister_replied_def emit_def)
qed

lemma passive_shutdown: "unstarted r \<Longrightarrow> unstarted (shutdown r)" "named i r \<Longrightarrow> named i (shutdown r)"
  by (auto simp: unstarted_def named_def shutdown_def stopHeartbeat_def endActivityStream_def emit_def Let_def
      split: option.splits)

lemma passive_activity:
  "unstarted r \<Longrightarrow> unstarted (reportActivity report now False r)" "named i r \<Longrightarrow> named i (reportActivity report now False r)"
  by (auto simp: unstarted_def named_def reportActivity_def emit_def split: option.splits)

lemma passive_new: "unstarted (new_reporter options)" "unstarted (fst (register (new_reporter options)))"
  by (simp_all add: unstarted_def new_reporter_def register_def emit_def)

subsection \<open>The invariant of the proxy\<close>

lemma owned_heap:
  "owned x \<Longrightarrow> unstarted r \<Longrightarrow> (\<And>i. named i (px_heap x n) \<Longrightarrow> named i r) \<Longrightarrow> owned (x\<lparr>px_heap := (px_heap x)(n := r)\<rparr>)"
  by (fastforce simp: owned_def)

lemma owned_cong: "owned x \<Longrightarrow> px_heap y = px_heap x \<Longrightarrow> set (px_services y) \<subseteq> set (px_services x) \<Longrightarrow>
  px_fresh y = px_fresh x \<Longrightarrow> owned y"
  by (auto simp: owned_def)

lemma owned_respond [simp]: "owned (respond c reply x) = owned x"
  by (simp add: owned_def respond_def)

lemma set_update_subset: "set (map_set k v m) \<subseteq> insert (k, v) (set m)"
  by (induction m) auto

lemma owned_finish_register:
  assumes "owned x" "n < px_fresh x" "\<And>h. outcome = Inr h \<Longrightarrow> named (sh_serviceId h) (px_heap x n)"
  shows "owned (finish_register c n name outcome x)"
proof (cases outcome)
  case (Inr h)
  have "owned (x\<lparr>px_services := map_set (sh_serviceId h) \<lparr>si_reporter = n, si_serviceName = name\<rparr> (px_services x)\<rparr>)"
    using assms Inr by (auto simp: owned_def dest!: set_update_subset [THEN subsetD])
  with Inr show ?thesis by (simp add: finish_register_def)
qed (use assms in \<open>simp add: finish_register_def\<close>)

lemma owned_finish_unregister: "owned x \<Longrightarrow> owned (finish_unregister c i x)"
  by (auto simp: finish_unregister_def delete_filter intro: owned_cong)

lemma owned_shutdown: "owned x \<Longrightarrow> owned (x\<lparr>px_heap := (px_heap x)(n := shutdown (px_heap x n))\<rparr>)"
  by (rule owned_heap) (auto simp: owned_def passive_shutdown)

lemma owned_stop_loop: "owned x \<Longrightarrow> owned (stop_loop k visited x)"
proof (induction k arbitrary: visited x)
  case (Suc k)
  show ?case
  proof (cases "List.find (\<lambda>(i, _). i \<notin> set visited) (px_services x)")
    case None
    with Suc.prems show ?thesis by (auto intro: owned_cong)
  next
    case (Some e)
    obtain i s where e: "e = (i, s)" by (cases e)
    let ?x = "x\<lparr>px_heap := (px_heap x)(si_reporter s := shutdown (px_heap x (si_reporter s)))\<rparr>"
    have o: "owned ?x" by (rule owned_shutdown [OF Suc.prems])
    then have "owned (?x\<lparr>px_stop := Stopping (i # visited) (si_reporter s)\<rparr>)" by (rule owned_cong) simp_all
    with Suc.IH [OF o] Some e show ?thesis by (simp add: Let_def)
  qed
qed simp

lemma owned_request: "owned x \<Longrightarrow> owned (handleRequest enums c url meth b now x)"
proof -
  assume o: "owned x"
  have reg: "owned (handleRegister enums c b x)"
  proof (cases "register_options enums b")
    case (Inr y)
    with o show ?thesis by (cases y) (auto simp: handleRegister_def Let_def owned_def passive_new less_SucI)
  qed (use o in \<open>auto simp: handleRegister_def\<close>)
  have act: "owned (x\<lparr>px_heap := (px_heap x)(n := reportActivity report now False (px_heap x n))\<rparr>)" for n report
    using o by (intro owned_heap passive_activity) (auto simp: owned_def)
  have unreg: "owned (x\<lparr>px_heap := h, px_unregistering := u\<rparr>)" if "owned (x\<lparr>px_heap := h\<rparr>)" for h u
    using that by (rule owned_cong) simp_all
  show ?thesis
    using o reg act unreg owned_shutdown [OF o]
    by (simp add: handleRequest_def handleHeartbeat_def handleActivity_def handleUnregister_def owned_finish_unregister
        Let_def split: sum.split prod.split option.split)
qed

lemma owned_reporter_event:
  assumes "owned x" "n < px_fresh x" "network_event e"
  shows "owned (reporter_event n e x)"
proof -
  let ?r = "px_heap x n"
  let ?y = "x\<lparr>px_heap := (px_heap x)(n := reporter_step ?r e)\<rparr>"
  have r: "unstarted ?r" using assms by (simp add: owned_def)
  have y: "owned ?y" by (rule owned_heap [OF assms(1)]) (use named_network [OF r assms(3)] in auto)
  show ?thesis
  proof (cases e)
    case (Register_Reply p reply throws)
    have "owned (resume_register n (register_outcome ?r reply) ?y)" if "p \<in> set (rp_calls ?r)"
    proof (cases "List.find (\<lambda>(_, m, _). m = n) (px_registering ?y)")
      case (Some t)
      obtain c m name where t: "t = (c, m, name)" by (cases t)
      have "owned (?y\<lparr>px_registering := l\<rparr>)" for l using y by (rule owned_cong) simp_all
      moreover have "named (sh_serviceId h) (reporter_step ?r e)" if "register_outcome ?r reply = Inr h" for h
        using passive_reply(2,3) [OF r \<open>p \<in> set (rp_calls ?r)\<close>] that \<open>p \<in> set (rp_calls ?r)\<close>
        by (simp add: named_def Register_Reply)
      ultimately show ?thesis using Some t assms(2)
        by (simp add: resume_register_def owned_finish_register)
    qed (use y in \<open>simp add: resume_register_def\<close>)
    with y Register_Reply show ?thesis
      by (cases "p \<in> set (rp_calls ?r)") (simp_all add: reporter_event_def Let_def del: reporter_step.simps)
  next
    case Unregister_Reply
    have "owned (resume_unregister n ?y)"
    proof -
      have "owned (?y\<lparr>px_unregistering := l\<rparr>)" for l using y by (rule owned_cong) simp_all
      with y show ?thesis
        by (simp add: resume_unregister_def Let_def stop_from_def owned_stop_loop owned_finish_unregister
            del: stop_loop.simps
            split: option.split stop_state.split prod.split)
    qed
    with y Unregister_Reply show ?thesis by (simp add: reporter_event_def Let_def)
  qed (use y in \<open>simp_all add: reporter_event_def Let_def\<close>)
qed

interpretation proxying: reactive "proxy_step enums" owned
proof unfold_locales
  fix x e assume o: "owned x"
  show "owned (proxy_step enums x e)"
  proof (cases e)
    case Server_Closed
    with o show ?thesis by (auto intro: owned_cong)
  qed (use o in \<open>simp_all add: owned_request owned_reporter_event stop_from_def owned_stop_loop del: stop_loop.simps\<close>)
qed

lemma owned_new: "owned new_proxy"
  by (simp add: owned_def new_proxy_def no_reporter_def passive_new)

lemma owned_reachable: "owned (foldl (proxy_step enums) new_proxy es)"
  by (rule proxying.inv_run [OF owned_new])

text \<open>
  A service the proxy lists, and is not shutting down, is registered under the id of its entry: an
  activity posted for that id is answered with success and reported under it.  Its reporter was
  never started, so a failure of its streams changes nothing: the service is not registered again,
  and the proxy goes on answering for it.\<close>

theorem proxied_service_keeps_its_id:
  assumes "x = foldl (proxy_step enums) new_proxy es" "map_get (px_services x) i = Some s"
    "\<not> rp_isShuttingDown (px_heap x (si_reporter s))" "px_stop x = Running" "i \<noteq> []" "target \<noteq> []"
    "kind \<noteq> []" "pe_activity enums (JStr kind) = Some activityType"
    and y: "y = proxy_step enums x (Request c ''/activity'' ''POST''
    (Body (JObj [(''serviceId'', JStr i), (''targetService'', JStr target), (''type'', JStr kind)])) now)"
  shows "rp_serviceId (px_heap x (si_reporter s)) = Some i
    \<and> px_replies y = px_replies x @ [(c, Reply_Ok)]
    \<and> (\<forall>a. rp_activityStream (px_heap x (si_reporter s)) = Some a \<longrightarrow>
        rp_log (px_heap y (si_reporter s)) = Sent_Activity a
          \<lparr>ra_serviceId = i, ra_targetService = target, ra_type = activityType,
           ra_timestampMs = Some (string_of_int now), ra_latencyMs = None, ra_method = None, ra_success = None,
           ra_batchSize = None, ra_errorMessage = None\<rparr> # rp_log (px_heap x (si_reporter s)))
    \<and> proxy_step enums x (Reporter_Event (si_reporter s) Stream_Error) = x
    \<and> proxy_step enums x (Reporter_Event (si_reporter s) Stream_End) = x"
proof -
  have o: "owned x" unfolding assms(1) by (rule owned_reachable)
  from assms(2) have "(i, s) \<in> set (px_services x)" by (rule map_of_SomeD)
  with o assms(3) have id: "rp_serviceId (px_heap x (si_reporter s)) = Some i"
    by (auto simp: owned_def named_def)
  have a: "\<not> rp_autoReconnect (px_heap x n)" for n using o by (simp add: owned_def unstarted_def)
  have same: "reporter_event n Stream_Error x = x" "reporter_event n Stream_End x = x" for n
    using stream_failure_ignored [OF a [of n]] by (simp_all add: reporter_event_def Let_def)
  show ?thesis
    using assms(2,4-8) id same
    by (auto simp: y handleRequest_def handleActivity_def parseBody_def find_service_def reportActivity_def report_of_def
        respond_def emit_def Let_def)
qed

definition sample_proxy_events :: "proxy_event list" where
  "sample_proxy_events = [Request 4 ''/register'' ''POST'' sample_body 0,
     Reporter_Event 0 (Register_Reply 0 (Response (Some sample_handle)) False)]"

lemma sample_proxy:
  "map_get (px_services (foldl (proxy_step sample_enums) new_proxy sample_proxy_events)) ''id1'' =
     Some \<lparr>si_reporter = 0, si_serviceName = Some (JStr '' calc '')\<rparr>"
  "\<not> rp_isShuttingDown (px_heap (foldl (proxy_step sample_enums) new_proxy sample_proxy_events) 0)"
  "px_stop (foldl (proxy_step sample_enums) new_proxy sample_proxy_events) = Running"
  by (code_simp)+

theorem proxied_service_keeps_its_id_witness:
  "rp_serviceId (px_heap (foldl (proxy_step sample_enums) new_proxy sample_proxy_events) 0) = Some ''id1''"
  using proxied_service_keeps_its_id [OF refl sample_proxy(1) _ _ _ _ _ _ refl, of "''db''" "''ACTIVITY_TYPE_ERROR''" ACTIVITY_TYPE_ERROR]
    sample_proxy(2,3)
  by (simp add: sample_enums_def)

end
