(* ===== verification/Js_Numeric.thy ===== *)
theory Js_Numeric
  imports Js_String
begin

text \<open>
  The conversion \<open>Number(s)\<close> of a string: white space around the literal is dropped, the empty
  string is 0, a literal is decimal with an optional fraction and exponent, or a hexadecimal,
  octal or binary integer, or \<open>Infinity\<close>; everything else is NaN.
\<close>

datatype js_number = NaN | Infinite bool | Finite rat

text \<open>The double nearest to a rational; from half a place above the largest one on it is infinite.\<close>

definition to_double :: "rat \<Rightarrow> js_number" where
  "to_double q = (if \<bar>fl q\<bar> < 2 ^ 1024 then Finite (fl q) else Infinite (0 < q))"

definition radix_digit :: "char \<Rightarrow> nat" where
  "radix_digit c =
     (let n = of_char c :: nat in
      if 48 \<le> n \<and> n \<le> 57 then n - 48
      else if 97 \<le> n \<and> n \<le> 102 then n - 87
      else if 65 \<le> n \<and> n \<le> 70 then n - 55 else 99)"

definition radix_literal :: "nat \<Rightarrow> string \<Rightarrow> js_number" where
  "radix_literal base ds =
     (if ds \<noteq> [] \<and> (\<forall>c \<in> set ds. radix_digit c < base)
      then to_double (of_nat (foldl (\<lambda>acc c. base * acc + radix_digit c) 0 ds)) else NaN)"

definition pow10 :: "int \<Rightarrow> rat" where
  "pow10 e = (if 0 \<le> e then 10 ^ nat e else 1 / 10 ^ nat (- e))"

text \<open>The exponent part: empty, or \<open>e\<close>, an optional sign and digits.\<close>

definition exponent_part :: "string \<Rightarrow> int option" where
  "exponent_part s =
     (case s of
        [] \<Rightarrow> Some 0
      | c # cs \<Rightarrow>
          if c = CHR ''e'' \<or> c = CHR ''E''
          then (let (neg, ds) = (case cs of
                    d # ds \<Rightarrow> if d = CHR ''-'' then (True, ds) else if d = CHR ''+'' then (False, ds) else (False, cs)
                  | [] \<Rightarrow> (False, []))
                in if ds \<noteq> [] \<and> (\<forall>d \<in> set ds. is_digit d)
                   then Some ((if neg then - 1 else 1) * int (digits_value ds)) else None)
          else None)"

text \<open>The exact value of an unsigned decimal literal.\<close>

definition decimal_literal :: "string \<Rightarrow> rat option" where
  "decimal_literal s =
     (let whole = takeWhile is_digit s; rest = dropWhile is_digit s;
          (frac, rest) = (case rest of
              c # cs \<Rightarrow> if c = CHR ''.'' then (takeWhile is_digit cs, dropWhile is_digit cs) else ([], rest)
            | [] \<Rightarrow> ([], []))
      in if whole = [] \<and> frac = [] then None
         else map_option (\<lambda>e. of_nat (digits_value (whole @ frac)) * pow10 (e - int (length frac))) (exponent_part rest))"

definition unsigned_number :: "bool \<Rightarrow> string \<Rightarrow> js_number" where
  "unsigned_number neg s =
     (if s = ''Infinity'' then Infinite (\<not> neg)
      else (case decimal_literal s of
              None \<Rightarrow> NaN
            | Some q \<Rightarrow> to_double (if neg then - q else q)))"

definition radix_of :: "string \<Rightarrow> nat option" where
  "radix_of t =
     (case t of
        c # d # _ \<Rightarrow>
          if c \<noteq> CHR ''0'' then None
          else if d = CHR ''x'' \<or> d = CHR ''X'' then Some 16
          else if d = CHR ''o'' \<or> d = CHR ''O'' then Some 8
          else if d = CHR ''b'' \<or> d = CHR ''B'' then Some 2 else None
      | _ \<Rightarrow> None)"

definition signed_number :: "string \<Rightarrow> js_number" where
  "signed_number t =
     (case t of
        [] \<Rightarrow> Finite 0
      | c # cs \<Rightarrow>
          if c = CHR ''-'' then unsigned_number True cs
          else if c = CHR ''+'' then unsigned_number False cs
          else (case radix_of t of
                  Some base \<Rightarrow> radix_literal base (drop 2 t)
                | None \<Rightarrow> unsigned_number False t))"

definition Number_of :: "string \<Rightarrow> js_number" where
  "Number_of s = signed_number (trim s)"

text \<open>\<open>Math.trunc\<close> of a finite number.\<close>

definition trunc :: "rat \<Rightarrow> int" where
  "trunc q = (if 0 \<le> q then \<lfloor>q\<rfloor> else \<lceil>q\<rceil>)"

text \<open>\<open>n >= x\<close> for the length of an array.\<close>

fun reaches :: "nat \<Rightarrow> js_number \<Rightarrow> bool" where
  "reaches n NaN = False"
| "reaches n (Infinite positive) = (\<not> positive)"
| "reaches n (Finite q) = (q \<le> of_nat n)"

subsection \<open>Reading back an integer\<close>

lemma decimal_literal_nat: "decimal_literal (string_of_nat n) = Some (of_nat n)"
proof -
  have d: "\<forall>c \<in> set (string_of_nat n). is_digit c" by (rule string_of_nat_digits)
  have t: "takeWhile is_digit (string_of_nat n) = string_of_nat n" "dropWhile is_digit (string_of_nat n) = []"
    using d by (simp_all add: takeWhile_eq_all_conv dropWhile_eq_Nil_conv)
  show ?thesis
    unfolding decimal_literal_def Let_def t by (simp add: exponent_part_def pow10_def digits_value_string_of_nat)
qed

lemma digits_not_Infinity: "string_of_nat n \<noteq> ''Infinity''"
proof -
  have "is_digit (hd (string_of_nat n))" by (rule string_of_nat_head)
  moreover have "\<not> is_digit (hd ''Infinity'')" by code_simp
  ultimately show ?thesis by metis
qed

lemma to_double_int: "\<bar>i\<bar> \<le> 2 ^ 53 \<Longrightarrow> to_double (of_int i) = Finite (of_int i)"
proof -
  assume i: "\<bar>i\<bar> \<le> 2 ^ 53"
  then have "\<bar>of_int i\<bar> \<le> (2 ^ 53 :: rat)" using of_int_le_iff [of "\<bar>i\<bar>" "2 ^ 53", where ?'a = rat] by simp
  also have "\<dots> < 2 ^ 1024" by (rule power_strict_increasing) simp_all
  finally show ?thesis using i by (simp add: to_double_def fl_int)
qed

lemma letters_no_digits: "\<not> is_digit CHR ''x''" "\<not> is_digit CHR ''X''" "\<not> is_digit CHR ''o''" "\<not> is_digit CHR ''O''"
  "\<not> is_digit CHR ''b''" "\<not> is_digit CHR ''B''"
  by code_simp+

lemma radix_of_digits: "\<forall>c \<in> set t. is_digit c \<Longrightarrow> radix_of t = None"
  using letters_no_digits by (cases t; cases "tl t") (auto simp: radix_of_def)

lemma Number_of_string_of_int: "\<bar>i\<bar> \<le> 2 ^ 53 \<Longrightarrow> Number_of (string_of_int i) = Finite (of_int i)"
proof -
  assume i: "\<bar>i\<bar> \<le> 2 ^ 53"
  have u: "unsigned_number neg (string_of_nat n) = to_double (if neg then - of_nat n else of_nat n)" for neg n
    by (simp add: unsigned_number_def digits_not_Infinity decimal_literal_nat)
  have t: "trim (string_of_nat n) = string_of_nat n" for n
    by (rule trim_no_space) (use string_of_nat_digits is_digit_facts in blast)
  have tm: "trim (CHR ''-'' # string_of_nat n) = CHR ''-'' # string_of_nat n" for n
    by (rule trim_no_space) (use string_of_nat_digits is_digit_facts in \<open>auto simp: js_space_def\<close>)
  show ?thesis
  proof (cases "i < 0")
    case True
    then have "Number_of (string_of_int i) = to_double (- of_nat (nat (- i)))"
      by (simp add: string_of_int_def Number_of_def signed_number_def tm u)
    also have "- of_nat (nat (- i)) = (of_int i :: rat)" using True by simp
    finally show ?thesis using to_double_int [OF i] by simp
  next
    case False
    obtain c cs where s: "string_of_nat (nat i) = c # cs" by (cases "string_of_nat (nat i)") auto
    with string_of_nat_head [of "nat i"] is_digit_facts [of c] have c: "c \<noteq> CHR ''-''" "c \<noteq> CHR ''+''" by auto
    have "Number_of (string_of_int i) = unsigned_number False (string_of_nat (nat i))"
      using False s c radix_of_digits [OF string_of_nat_digits [of "nat i"]]
        t [of "nat i", unfolded s]
      by (simp add: string_of_int_def Number_of_def signed_number_def)
    also have "\<dots> = to_double (of_int i)" using False by (simp add: u)
    finally show ?thesis using to_double_int [OF i] by simp
  qed
qed

end
