(* ===== verification/Pipeline_Types.thy ===== *)
theory Pipeline_Types
  imports Runtime_Prelude Js_Numeric Js_Json
begin

text \<open>
  The messages of the demo pipeline (\<open>packages/proto/pipeline/v1/pipeline.proto\<close>) and the command
  lines of its programs under \<open>apps/demo-domain\<close>.  64-bit integers are decimal strings.
\<close>

datatype workload_mode = EVENTS | WORK_ITEMS | MIXED
datatype payload_size = SMALL | MEDIUM | LARGE

record workload_config =
  wc_workRatio :: rat
  wc_payloadSize :: payload_size
  wc_computeIterations :: js_number

record raw_event =
  ev_rawJson :: string
  ev_sequence :: string

record parsed_event =
  pv_type :: string
  pv_user :: string
  pv_value :: string
  pv_timestamp :: string
  pv_sequence :: string

record enriched_event =
  en_event :: "parsed_event option"
  en_metadata :: "(string \<times> string) list"
  en_passedRules :: bool

record aggregate_result =
  ag_key :: "string option"
  ag_count :: string
  ag_sum :: string
  ag_avg :: js_number

subsection \<open>The argument loop of the programs\<close>

text \<open>
  Every \<open>parseArgs\<close> is the same loop over a table of options: a flag changes the configuration, an
  option with a value does so too and may refuse it.  \<open>--help\<close> ends the program.  What an argument
  without an entry does differs: the services throw, the orchestrator ignores it.
\<close>

datatype 'c cli_option = Flag "'c \<Rightarrow> 'c" | Valued "string \<Rightarrow> 'c \<Rightarrow> string + 'c"

datatype 'c cli_result = Usage | Failed string | Parsed 'c

fun cli_loop :: "bool \<Rightarrow> (string \<Rightarrow> 'c cli_option option) \<Rightarrow> string list \<Rightarrow> 'c \<Rightarrow> 'c cli_result" where
  "cli_loop strict table [] c = Parsed c"
| "cli_loop strict table [a] c =
     (if a \<in> {''--help'', ''-h''} then Usage
      else (case table a of
              Some (Flag f) \<Rightarrow> Parsed (f c)
            | Some (Valued f) \<Rightarrow> Failed ''Missing value for argument''
            | None \<Rightarrow> if strict then Failed (''Unknown argument: '' @ a) else Parsed c))"
| "cli_loop strict table (a # b # args) c =
     (if a \<in> {''--help'', ''-h''} then Usage
      else (case table a of
              Some (Flag f) \<Rightarrow> cli_loop strict table (b # args) (f c)
            | Some (Valued f) \<Rightarrow> (case f b c of Inl e \<Rightarrow> Failed e | Inr c \<Rightarrow> cli_loop strict table args c)
            | None \<Rightarrow> if strict then Failed (''Unknown argument: '' @ a) else cli_loop strict table (b # args) c))"

definition stores :: "(string \<Rightarrow> 'c \<Rightarrow> 'c) \<Rightarrow> 'c cli_option" where
  "stores f = Valued (\<lambda>v c. Inr (f v c))"

lemma cli_loop_append:
  "cli_loop strict table as c = Parsed d \<Longrightarrow> cli_loop strict table (as @ bs) c = cli_loop strict table bs d"
proof (induction strict table as c rule: cli_loop.induct)
  case (2 strict table a c)
  then show ?case by (cases bs) (auto split: if_splits option.splits cli_option.splits)
next
  case (3 strict table a b args c)
  then show ?case by (auto split: if_splits option.splits cli_option.splits sum.splits)
qed simp

subsection \<open>The services\<close>

record server_config =
  sc_host :: string
  sc_port :: js_number
  sc_file :: string

definition ingest_options :: "string \<Rightarrow> server_config cli_option option" where
  "ingest_options a =
     (if a = ''--host'' then Some (stores (\<lambda>v c. c\<lparr>sc_host := v\<rparr>))
      else if a = ''--port'' then Some (stores (\<lambda>v c. c\<lparr>sc_port := Number_of v\<rparr>))
      else if a = ''--input'' then Some (stores (\<lambda>v c. c\<lparr>sc_file := v\<rparr>)) else None)"

definition ingest_args :: "string list \<Rightarrow> server_config cli_result" where
  "ingest_args args = cli_loop True ingest_options args
     \<lparr>sc_host = ''127.0.0.1'', sc_port = Finite 6001, sc_file = ''events.ndjson''\<rparr>"

text \<open>The services in the middle of the pipeline have no file.\<close>

definition stage_options :: "string \<Rightarrow> server_config cli_option option" where
  "stage_options a =
     (if a = ''--host'' then Some (stores (\<lambda>v c. c\<lparr>sc_host := v\<rparr>))
      else if a = ''--port'' then Some (stores (\<lambda>v c. c\<lparr>sc_port := Number_of v\<rparr>)) else None)"

definition parse_service_args :: "string list \<Rightarrow> server_config cli_result" where
  "parse_service_args args = cli_loop True stage_options args
     \<lparr>sc_host = ''127.0.0.1'', sc_port = Finite 6002, sc_file = []\<rparr>"

definition rules_service_args :: "string list \<Rightarrow> server_config cli_result" where
  "rules_service_args args = cli_loop True stage_options args
     \<lparr>sc_host = ''127.0.0.1'', sc_port = Finite 6003, sc_file = []\<rparr>"

definition aggregate_service_args :: "string list \<Rightarrow> server_config cli_result" where
  "aggregate_service_args args = cli_loop True stage_options args
     \<lparr>sc_host = ''127.0.0.1'', sc_port = Finite 6004, sc_file = []\<rparr>"

definition sink_options :: "string \<Rightarrow> server_config cli_option option" where
  "sink_options a =
     (if a = ''--host'' then Some (stores (\<lambda>v c. c\<lparr>sc_host := v\<rparr>))
      else if a = ''--port'' then Some (stores (\<lambda>v c. c\<lparr>sc_port := Number_of v\<rparr>))
      else if a = ''--output'' then Some (stores (\<lambda>v c. c\<lparr>sc_file := v\<rparr>)) else None)"

definition sink_args :: "string list \<Rightarrow> server_config cli_result" where
  "sink_args args = cli_loop True sink_options args
     \<lparr>sc_host = ''127.0.0.1'', sc_port = Finite 6005, sc_file = ''aggregate-results.ndjson''\<rparr>"

subsection \<open>The orchestrator\<close>

record pipeline_config =
  pc_inputFile :: string
  pc_outputFile :: string
  pc_maxEvents :: js_number
  pc_enableBatching :: bool
  pc_batchSize :: js_number
  pc_workloadMode :: workload_mode
  pc_payloadSize :: payload_size
  pc_computeIterations :: js_number
  pc_ingest :: "string \<times> int"
  pc_parse :: "string \<times> int"
  pc_rules :: "string \<times> int"
  pc_aggregate :: "string \<times> int"
  pc_sink :: "string \<times> int"

definition default_pipeline :: pipeline_config where
  "default_pipeline =
     \<lparr>pc_inputFile = ''examples/demo-scenarios/events.ndjson'',
      pc_outputFile = ''examples/demo-scenarios/aggregate-results-split.ndjson'',
      pc_maxEvents = Finite 0, pc_enableBatching = False, pc_batchSize = Finite 100, pc_workloadMode = EVENTS,
      pc_payloadSize = MEDIUM, pc_computeIterations = Finite 500, pc_ingest = (''127.0.0.1'', 6001),
      pc_parse = (''127.0.0.1'', 6002), pc_rules = (''127.0.0.1'', 6003), pc_aggregate = (''127.0.0.1'', 6004),
      pc_sink = (''127.0.0.1'', 6005)\<rparr>"

definition workload_of :: "string \<Rightarrow> string + workload_mode" where
  "workload_of mode =
     (if mode = ''events'' then Inr EVENTS else if mode = ''work-items'' then Inr WORK_ITEMS
      else if mode = ''mixed'' then Inr MIXED else Inl (''Invalid workload mode: '' @ mode))"

definition payload_of :: "string \<Rightarrow> string + payload_size" where
  "payload_of sz =
     (if sz = ''small'' then Inr SMALL else if sz = ''medium'' then Inr MEDIUM
      else if sz = ''large'' then Inr LARGE else Inl (''Invalid payload size: '' @ sz))"

definition orchestrator_options :: "string \<Rightarrow> pipeline_config cli_option option" where
  "orchestrator_options a =
     (if a = ''--input'' then Some (stores (\<lambda>v c. c\<lparr>pc_inputFile := v\<rparr>))
      else if a = ''--output'' then Some (stores (\<lambda>v c. c\<lparr>pc_outputFile := v\<rparr>))
      else if a = ''--max-events'' then Some (stores (\<lambda>v c. c\<lparr>pc_maxEvents := Number_of v\<rparr>))
      else if a = ''--enable-batching'' then Some (Flag (\<lambda>c. c\<lparr>pc_enableBatching := True\<rparr>))
      else if a = ''--batch-size'' then Some (stores (\<lambda>v c. c\<lparr>pc_batchSize := Number_of v\<rparr>))
      else if a = ''--workload''
        then Some (Valued (\<lambda>v c. map_sum id (\<lambda>m. c\<lparr>pc_workloadMode := m\<rparr>) (workload_of v)))
      else if a = ''--payload-size''
        then Some (Valued (\<lambda>v c. map_sum id (\<lambda>s. c\<lparr>pc_payloadSize := s\<rparr>) (payload_of v)))
      else if a = ''--iterations'' then Some (stores (\<lambda>v c. c\<lparr>pc_computeIterations := Number_of v\<rparr>))
      else None)"

definition orchestrator_args :: "string list \<Rightarrow> pipeline_config cli_result" where
  "orchestrator_args args = cli_loop False orchestrator_options args default_pipeline"

subsection \<open>The event generator\<close>

datatype generator_distribution = Uniform | Zipf | Burst

record generator_config =
  gc_eventCount :: int
  gc_outputFile :: string
  gc_userCount :: int
  gc_eventTypes :: "string list"
  gc_seed :: "int option"
  gc_distribution :: "generator_distribution option"

definition parseDistribution :: "string \<Rightarrow> string + generator_distribution" where
  "parseDistribution value =
     (if value = ''uniform'' then Inr Uniform else if value = ''zipf'' then Inr Zipf
      else if value = ''burst'' then Inr Burst else Inl (''Invalid distribution: '' @ value))"

definition finite_arg :: "string \<Rightarrow> string \<Rightarrow> string + int" where
  "finite_arg name v =
     (case Number_of v of Finite q \<Rightarrow> Inr (trunc q) | _ \<Rightarrow> Inl (''Invalid '' @ name @ '' value''))"

definition types_arg :: "string \<Rightarrow> string list" where
  "types_arg v = filter (\<lambda>entry. length entry > 0) (map trim (split_on (CHR '','') v))"

definition generator_options :: "string \<Rightarrow> generator_config cli_option option" where
  "generator_options a =
     (if a = ''--count'' then Some (Valued (\<lambda>v c. map_sum id (\<lambda>n. c\<lparr>gc_eventCount := n\<rparr>) (finite_arg ''--count'' v)))
      else if a = ''--output'' then Some (stores (\<lambda>v c. c\<lparr>gc_outputFile := v\<rparr>))
      else if a = ''--users'' then Some (Valued (\<lambda>v c. map_sum id (\<lambda>n. c\<lparr>gc_userCount := n\<rparr>) (finite_arg ''--users'' v)))
      else if a = ''--types'' then Some (stores (\<lambda>v c. c\<lparr>gc_eventTypes := types_arg v\<rparr>))
      else if a = ''--seed'' then Some (Valued (\<lambda>v c. map_sum id (\<lambda>n. c\<lparr>gc_seed := Some n\<rparr>) (finite_arg ''--seed'' v)))
      else if a = ''--distribution''
        then Some (Valued (\<lambda>v c. map_sum id (\<lambda>d. c\<lparr>gc_distribution := Some d\<rparr>) (parseDistribution v)))
      else None)"

definition generator_args :: "string list \<Rightarrow> generator_config cli_result" where
  "generator_args argv =
     cli_loop True generator_options (case argv of a # rest \<Rightarrow> if a = ''--'' then rest else argv | [] \<Rightarrow> [])
       \<lparr>gc_eventCount = 100000, gc_outputFile = ''events.ndjson'', gc_userCount = 10000, gc_eventTypes = [],
        gc_seed = None, gc_distribution = None\<rparr>"

end
