(* ===== verification/Orchestrator.thy ===== *)
theory Orchestrator
  imports Pipeline_Types
begin

text \<open>
  The pipeline orchestrator (\<open>apps/demo-domain/pipeline-orchestrator/src/pipeline-orchestrator.ts\<close>):
  it connects the five services, copies what each stage sends to the next one, and in batching mode
  collects it into batches.  Every stream callback is one step; what is written to a stream is
  kept in the order it is written.
\<close>

datatype 'e outgoing = Batch "'e list" nat | Single "'e option"

record stream_request =
  sq_inputFile :: string
  sq_batchSize :: js_number
  sq_maxEvents :: js_number
  sq_enableBatching :: bool
  sq_workloadMode :: workload_mode
  sq_workloadConfig :: "workload_config option"

text \<open>The summary: results written, events ingested, events that passed, duration.\<close>

record pipeline_report =
  pr_written :: string
  pr_ingested :: nat
  pr_passed :: nat
  pr_durationMs :: int

record orchestrator =
  oc_config :: pipeline_config
  oc_startTime :: int
  oc_firstEventTime :: "int option"
  oc_ingestCount :: nat
  oc_parseCount :: nat
  oc_rulesCount :: nat
  oc_aggregateCount :: nat
  oc_eventBatch :: "raw_event list"
  oc_parseBatch :: "parsed_event list"
  oc_rulesBatch :: "enriched_event list"
  oc_toParse :: "raw_event outgoing list"
  oc_toRules :: "parsed_event outgoing list"
  oc_toAggregate :: "enriched_event outgoing list"
  oc_toSink :: "aggregate_result option list"
  oc_parseEnded :: bool
  oc_rulesEnded :: bool
  oc_aggregateEnded :: bool
  oc_sinkEnded :: bool
  oc_report :: "pipeline_report option"
  oc_exit :: "int option"

datatype orchestrator_event =
    Ingest_Data "raw_event option" int
  | Ingest_End
  | Parse_Data "parsed_event option"
  | Parse_Batch "parsed_event list"
  | Parse_End
  | Rules_Data "enriched_event option"
  | Rules_Batch "enriched_event list"
  | Rules_End
  | Aggregate_Data "aggregate_result option"
  | Aggregate_Batch "aggregate_result list"
  | Aggregate_End
  | Stream_Failed
  | Sink_Reply "string + string option" int

definition stream_request_of :: "pipeline_config \<Rightarrow> stream_request" where
  "stream_request_of c =
     \<lparr>sq_inputFile = pc_inputFile c, sq_batchSize = pc_batchSize c, sq_maxEvents = pc_maxEvents c,
      sq_enableBatching = pc_enableBatching c, sq_workloadMode = pc_workloadMode c,
      sq_workloadConfig =
        (if pc_workloadMode c \<noteq> EVENTS
         then Some \<lparr>wc_workRatio = 1, wc_payloadSize = pc_payloadSize c, wc_computeIterations = pc_computeIterations c\<rparr>
         else None)\<rparr>"

definition new_orchestrator :: "pipeline_config \<Rightarrow> int \<Rightarrow> orchestrator" where
  "new_orchestrator c now =
     \<lparr>oc_config = c, oc_startTime = now, oc_firstEventTime = None, oc_ingestCount = 0, oc_parseCount = 0,
      oc_rulesCount = 0, oc_aggregateCount = 0, oc_eventBatch = [], oc_parseBatch = [], oc_rulesBatch = [],
      oc_toParse = [], oc_toRules = [], oc_toAggregate = [], oc_toSink = [], oc_parseEnded = False,
      oc_rulesEnded = False, oc_aggregateEnded = False, oc_sinkEnded = False, oc_report = None, oc_exit = None\<rparr>"

subsection \<open>The batches\<close>

definition flushBatch :: "orchestrator \<Rightarrow> orchestrator" where
  "flushBatch s =
     (if oc_eventBatch s = [] then s
      else s\<lparr>oc_toParse := oc_toParse s @ [Batch (oc_eventBatch s) (length (oc_eventBatch s))], oc_eventBatch := []\<rparr>)"

definition flushParseBatch :: "orchestrator \<Rightarrow> orchestrator" where
  "flushParseBatch s =
     (if oc_parseBatch s = [] then s
      else s\<lparr>oc_toRules := oc_toRules s @ [Batch (oc_parseBatch s) (length (oc_parseBatch s))], oc_parseBatch := []\<rparr>)"

definition flushRulesBatch :: "orchestrator \<Rightarrow> orchestrator" where
  "flushRulesBatch s =
     (if oc_rulesBatch s = [] then s
      else s\<lparr>oc_toAggregate := oc_toAggregate s @ [Batch (oc_rulesBatch s) (length (oc_rulesBatch s))],
             oc_rulesBatch := []\<rparr>)"

subsection \<open>The callbacks\<close>

abbreviation batching :: "orchestrator \<Rightarrow> bool" where
  "batching s \<equiv> pc_enableBatching (oc_config s)"

abbreviation batch_size :: "orchestrator \<Rightarrow> js_number" where
  "batch_size s \<equiv> pc_batchSize (oc_config s)"

definition count_ingest :: "int \<Rightarrow> orchestrator \<Rightarrow> orchestrator" where
  "count_ingest now s =
     s\<lparr>oc_firstEventTime := (if oc_firstEventTime s = None then Some now else oc_firstEventTime s),
       oc_ingestCount := oc_ingestCount s + 1\<rparr>"

definition ingest_data :: "raw_event option \<Rightarrow> int \<Rightarrow> orchestrator \<Rightarrow> orchestrator" where
  "ingest_data event now s =
     (let s = count_ingest now s in
      if batching s
      then (let s = (case event of None \<Rightarrow> s | Some e \<Rightarrow> s\<lparr>oc_eventBatch := oc_eventBatch s @ [e]\<rparr>)
            in if reaches (length (oc_eventBatch s)) (batch_size s) then flushBatch s else s)
      else s\<lparr>oc_toParse := oc_toParse s @ [Single event]\<rparr>)"

definition ingest_end :: "orchestrator \<Rightarrow> orchestrator" where
  "ingest_end s = (if batching s then flushBatch s else s)\<lparr>oc_parseEnded := True\<rparr>"

definition parse_data :: "parsed_event option \<Rightarrow> orchestrator \<Rightarrow> orchestrator" where
  "parse_data event s =
     s\<lparr>oc_parseCount := oc_parseCount s + 1, oc_toRules := oc_toRules s @ [Single event]\<rparr>"

definition parse_batch :: "parsed_event list \<Rightarrow> orchestrator \<Rightarrow> orchestrator" where
  "parse_batch events s =
     (let s = s\<lparr>oc_parseCount := oc_parseCount s + length events, oc_parseBatch := oc_parseBatch s @ events\<rparr>
      in if reaches (length (oc_parseBatch s)) (batch_size s) then flushParseBatch s else s)"

definition parse_end :: "orchestrator \<Rightarrow> orchestrator" where
  "parse_end s = (if batching s then flushParseBatch s else s)\<lparr>oc_rulesEnded := True\<rparr>"

definition rules_data :: "enriched_event option \<Rightarrow> orchestrator \<Rightarrow> orchestrator" where
  "rules_data event s =
     s\<lparr>oc_rulesCount := oc_rulesCount s + 1, oc_toAggregate := oc_toAggregate s @ [Single event]\<rparr>"

definition rules_batch :: "enriched_event list \<Rightarrow> orchestrator \<Rightarrow> orchestrator" where
  "rules_batch events s =
     (let s = s\<lparr>oc_rulesCount := oc_rulesCount s + length events, oc_rulesBatch := oc_rulesBatch s @ events\<rparr>
      in if reaches (length (oc_rulesBatch s)) (batch_size s) then flushRulesBatch s else s)"

definition rules_end :: "orchestrator \<Rightarrow> orchestrator" where
  "rules_end s = (if batching s then flushRulesBatch s else s)\<lparr>oc_aggregateEnded := True\<rparr>"

definition aggregate_data :: "aggregate_result option \<Rightarrow> orchestrator \<Rightarrow> orchestrator" where
  "aggregate_data result s =
     s\<lparr>oc_aggregateCount := oc_aggregateCount s + 1, oc_toSink := oc_toSink s @ [result]\<rparr>"

definition aggregate_batch :: "aggregate_result list \<Rightarrow> orchestrator \<Rightarrow> orchestrator" where
  "aggregate_batch results s = foldl (\<lambda>s r. aggregate_data (Some r) s) s results"

definition aggregate_end :: "orchestrator \<Rightarrow> orchestrator" where
  "aggregate_end s = s\<lparr>oc_sinkEnded := True\<rparr>"

definition stream_failed :: "orchestrator \<Rightarrow> orchestrator" where
  "stream_failed s = s\<lparr>oc_exit := Some 1\<rparr>"

text \<open>The reply of the sink; an error is logged and nothing else happens.\<close>

definition sink_reply :: "string + string option \<Rightarrow> int \<Rightarrow> orchestrator \<Rightarrow> orchestrator" where
  "sink_reply reply endTime s =
     (let totalDuration = endTime - oc_startTime s;
          processingDuration = (case oc_firstEventTime s of
              Some t \<Rightarrow> if t \<noteq> 0 then endTime - t else totalDuration | None \<Rightarrow> totalDuration)
      in case reply of
           Inl err \<Rightarrow> s
         | Inr written \<Rightarrow>
             s\<lparr>oc_report := Some \<lparr>pr_written = (case written of Some w \<Rightarrow> if w \<noteq> [] then w else ''0'' | None \<Rightarrow> ''0''),
                 pr_ingested = oc_ingestCount s, pr_passed = oc_rulesCount s, pr_durationMs = processingDuration\<rparr>,
               oc_exit := Some 0\<rparr>)"

text \<open>Only the streams of the chosen mode exist, and nothing happens once the process has left.\<close>

fun on_event :: "orchestrator \<Rightarrow> orchestrator_event \<Rightarrow> orchestrator" where
  "on_event s (Ingest_Data event now) = ingest_data event now s"
| "on_event s Ingest_End = ingest_end s"
| "on_event s (Parse_Data event) = (if batching s then s else parse_data event s)"
| "on_event s (Parse_Batch events) = (if batching s then parse_batch events s else s)"
| "on_event s Parse_End = parse_end s"
| "on_event s (Rules_Data event) = (if batching s then s else rules_data event s)"
| "on_event s (Rules_Batch events) = (if batching s then rules_batch events s else s)"
| "on_event s Rules_End = rules_end s"
| "on_event s (Aggregate_Data result) = (if batching s then s else aggregate_data result s)"
| "on_event s (Aggregate_Batch results) = (if batching s then aggregate_batch results s else s)"
| "on_event s Aggregate_End = aggregate_end s"
| "on_event s Stream_Failed = stream_failed s"
| "on_event s (Sink_Reply reply now) = sink_reply reply now s"

definition orchestrator_step :: "orchestrator \<Rightarrow> orchestrator_event \<Rightarrow> orchestrator" where
  "orchestrator_step s e = (if oc_exit s \<noteq> None then s else on_event s e)"

subsection \<open>What has been received and what has been written\<close>

fun payload :: "'e outgoing \<Rightarrow> 'e list" where
  "payload (Batch es n) = es"
| "payload (Single e) = (case e of None \<Rightarrow> [] | Some x \<Rightarrow> [x])"

definition flat :: "'e outgoing list \<Rightarrow> 'e list" where
  "flat ms = concat (map payload ms)"

lemma flat_simps [simp]: "flat [] = []" "flat (ms @ ns) = flat ms @ flat ns" "flat [m] = payload m"
  by (simp_all add: flat_def)

fun raw_in :: "orchestrator_event \<Rightarrow> raw_event list" where
  "raw_in (Ingest_Data (Some e) now) = [e]"
| "raw_in e = []"

text \<open>The messages of the stream that the mode does not use are never received.\<close>

fun parsed_in :: "bool \<Rightarrow> orchestrator_event \<Rightarrow> parsed_event list" where
  "parsed_in b (Parse_Data (Some e)) = (if b then [] else [e])"
| "parsed_in b (Parse_Batch es) = (if b then es else [])"
| "parsed_in b e = []"

fun enriched_in :: "bool \<Rightarrow> orchestrator_event \<Rightarrow> enriched_event list" where
  "enriched_in b (Rules_Data (Some e)) = (if b then [] else [e])"
| "enriched_in b (Rules_Batch es) = (if b then es else [])"
| "enriched_in b e = []"

fun results_in :: "bool \<Rightarrow> orchestrator_event \<Rightarrow> aggregate_result option list" where
  "results_in b (Aggregate_Data r) = (if b then [] else [r])"
| "results_in b (Aggregate_Batch rs) = (if b then map Some rs else [])"
| "results_in b e = []"

definition gathered :: "(orchestrator_event \<Rightarrow> 'a list) \<Rightarrow> orchestrator_event list \<Rightarrow> 'a list" where
  "gathered f es = concat (map f es)"

lemma gathered_simps [simp]: "gathered f [] = []" "gathered f (es @ fs) = gathered f es @ gathered f fs"
  "gathered f (e # es) = f e @ gathered f es"
  by (simp_all add: gathered_def)

text \<open>The run goes on: no stream has failed, and the sink has not answered.\<close>

fun goes_on :: "orchestrator_event \<Rightarrow> bool" where
  "goes_on Stream_Failed = False"
| "goes_on (Sink_Reply reply now) = (case reply of Inl e \<Rightarrow> True | Inr w \<Rightarrow> False)"
| "goes_on e = True"

lemmas callback_defs = count_ingest_def ingest_data_def ingest_end_def parse_data_def parse_batch_def parse_end_def
  rules_data_def rules_batch_def rules_end_def aggregate_end_def stream_failed_def sink_reply_def
  flushBatch_def flushParseBatch_def flushRulesBatch_def Let_def

lemma aggregate_batch_fields:
  "oc_toSink (aggregate_batch rs s) = oc_toSink s @ map Some rs"
  "oc_aggregateCount (aggregate_batch rs s) = oc_aggregateCount s + length rs"
  "oc_config (aggregate_batch rs s) = oc_config s" "oc_exit (aggregate_batch rs s) = oc_exit s"
  "oc_toParse (aggregate_batch rs s) = oc_toParse s" "oc_toRules (aggregate_batch rs s) = oc_toRules s"
  "oc_toAggregate (aggregate_batch rs s) = oc_toAggregate s" "oc_eventBatch (aggregate_batch rs s) = oc_eventBatch s"
  "oc_parseBatch (aggregate_batch rs s) = oc_parseBatch s" "oc_rulesBatch (aggregate_batch rs s) = oc_rulesBatch s"
  unfolding aggregate_batch_def
  by (induction rs arbitrary: s) (simp_all add: aggregate_data_def)

lemma config_event [simp]: "oc_config (on_event s e) = oc_config s"
  by (cases e) (simp_all add: callback_defs aggregate_batch_fields aggregate_data_def split: option.split sum.split)

lemma exit_event: "oc_exit s = None \<Longrightarrow> goes_on e \<Longrightarrow> oc_exit (on_event s e) = None"
  by (cases e) (simp_all add: callback_defs aggregate_batch_fields aggregate_data_def split: option.split sum.splits)

lemma parse_side: "flat (oc_toParse (on_event s e)) @ oc_eventBatch (on_event s e) =
    flat (oc_toParse s) @ oc_eventBatch s @ raw_in e \<or> \<not> batching s \<and> oc_eventBatch s \<noteq> []"
  by (cases e) (auto simp: callback_defs aggregate_batch_fields aggregate_data_def split: option.split sum.split)

lemma rules_side: "flat (oc_toRules (on_event s e)) @ oc_parseBatch (on_event s e) =
    flat (oc_toRules s) @ oc_parseBatch s @ parsed_in (batching s) e \<or> \<not> batching s \<and> oc_parseBatch s \<noteq> []"
  by (cases e) (auto simp: callback_defs aggregate_batch_fields aggregate_data_def split: option.split sum.split)

lemma aggregate_side: "flat (oc_toAggregate (on_event s e)) @ oc_rulesBatch (on_event s e) =
    flat (oc_toAggregate s) @ oc_rulesBatch s @ enriched_in (batching s) e \<or> \<not> batching s \<and> oc_rulesBatch s \<noteq> []"
  by (cases e) (auto simp: callback_defs aggregate_batch_fields aggregate_data_def split: option.split sum.split)

lemma sink_side: "oc_toSink (on_event s e) = oc_toSink s @ results_in (batching s) e"
  by (cases e) (auto simp: callback_defs aggregate_batch_fields aggregate_data_def split: option.split sum.split)

lemma no_batches: "\<not> batching s \<Longrightarrow> oc_eventBatch (on_event s e) = oc_eventBatch s \<and>
    oc_parseBatch (on_event s e) = oc_parseBatch s \<and> oc_rulesBatch (on_event s e) = oc_rulesBatch s"
  by (cases e) (auto simp: callback_defs aggregate_batch_fields aggregate_data_def split: option.split sum.split)

end
