(* ===== verification/Pipeline_Services.thy ===== *)
theory Pipeline_Services
  imports Pipeline_Types
begin

text \<open>
  The services of the pipeline: parsing (\<open>parse.ts\<close>, \<open>parse-service.ts\<close>), rules (\<open>rules.ts\<close>,
  \<open>rules-service.ts\<close>), aggregation (\<open>aggregate.ts\<close>, \<open>aggregate-service.ts\<close>) and the sink
  (\<open>sink-service.ts\<close>).  \<open>JSON.parse\<close>, \<open>JSON.stringify\<close>, \<open>Date.parse\<close> and the printing of a
  double are the fields of \<open>js_library\<close>; the numerical work on a work item
  (\<open>workitem-processor.ts\<close> of each service) is an argument, whose \<open>None\<close> is an exception.
\<close>

record js_library =
  lib_parse :: "string \<Rightarrow> json option"
  lib_stringify :: "json \<Rightarrow> string"
  lib_date :: "string \<Rightarrow> rat option"
  lib_print :: "rat \<Rightarrow> string"

text \<open>What the properties rely on: integers that a double holds exactly are printed in decimal.\<close>

definition prints_integers :: "js_library \<Rightarrow> bool" where
  "prints_integers lib \<longleftrightarrow> (\<forall>i. \<bar>i\<bar> \<le> 2 ^ 53 \<longrightarrow> lib_print lib (of_int i) = string_of_int i)"

fun number_text :: "js_library \<Rightarrow> js_number \<Rightarrow> string" where
  "number_text lib NaN = ''NaN''"
| "number_text lib (Infinite positive) = (if positive then ''Infinity'' else ''-Infinity'')"
| "number_text lib (Finite q) = lib_print lib q"

subsection \<open>Parsing\<close>

definition SUPPORTED_TYPES :: "string list" where
  "SUPPORTED_TYPES = [''click'', ''view'', ''purchase'']"

definition isRecord :: "json \<Rightarrow> bool" where
  "isRecord v = (case v of JObj _ \<Rightarrow> True | JArr _ \<Rightarrow> True | _ \<Rightarrow> False)"

text \<open>A property of a value that is an object or an array.\<close>

definition field_of :: "json \<Rightarrow> string \<Rightarrow> json option" where
  "field_of v name = (case property name v of Inr x \<Rightarrow> x | Inl _ \<Rightarrow> None)"

definition parseEvent :: "js_library \<Rightarrow> raw_event \<Rightarrow> parsed_event option" where
  "parseEvent lib rawEvent =
     (if ev_rawJson rawEvent = [] then None
      else (case lib_parse lib (ev_rawJson rawEvent) of
              None \<Rightarrow> None
            | Some parsed \<Rightarrow>
                if \<not> isRecord parsed then None
                else (case (field_of parsed ''ts'', field_of parsed ''type'', field_of parsed ''user'') of
                        (Some (JStr ts), Some (JStr type), Some (JStr user)) \<Rightarrow>
                          if type \<notin> set SUPPORTED_TYPES then None
                          else (case field_of parsed ''value'' of
                                  Some (JNum value) \<Rightarrow>
                                    (let timestamp = (case lib_date lib ts of Some ms \<Rightarrow> trunc ms | None \<Rightarrow> 0) in
                                     Some \<lparr>pv_type = type, pv_user = user, pv_value = lib_print lib (of_int (trunc value)),
                                           pv_timestamp = lib_print lib (of_int timestamp),
                                           pv_sequence = ev_sequence rawEvent\<rparr>)
                                | _ \<Rightarrow> None)
                      | _ \<Rightarrow> None)))"

text \<open>The value a raw event holds if it looks like a work item; reading a property of null throws.\<close>

definition work_item_of :: "js_library \<Rightarrow> raw_event \<Rightarrow> json option" where
  "work_item_of lib event =
     (case lib_parse lib (ev_rawJson event) of
        None \<Rightarrow> None
      | Some data \<Rightarrow>
          if data \<noteq> JNull \<and> js_truthy (field_of data ''id'') \<and> js_truthy (field_of data ''vectors'')
             \<and> js_truthy (field_of data ''matrix'')
          then Some data else None)"

definition parse_one :: "js_library \<Rightarrow> (json \<Rightarrow> json option) \<Rightarrow> int \<Rightarrow> raw_event \<Rightarrow> parsed_event option" where
  "parse_one lib work now event =
     (case Option.bind (work_item_of lib event) work of
        Some processedItem \<Rightarrow>
          Some \<lparr>pv_type = ''work-item'', pv_user = lib_stringify lib processedItem, pv_value = ''0'',
                pv_timestamp = string_of_int now, pv_sequence = ev_sequence event\<rparr>
      | None \<Rightarrow> parseEvent lib event)"

text \<open>The data handlers of both calls: what is written for a request.\<close>

definition parseEvents :: "js_library \<Rightarrow> (json \<Rightarrow> json option) \<Rightarrow> int \<Rightarrow> raw_event option \<Rightarrow> parsed_event list" where
  "parseEvents lib work now request =
     (case request of
        None \<Rightarrow> []
      | Some event \<Rightarrow> (case parse_one lib work now event of None \<Rightarrow> [] | Some parsed \<Rightarrow> [parsed]))"

definition parseEventsBatch ::
  "js_library \<Rightarrow> (json \<Rightarrow> json option) \<Rightarrow> int \<Rightarrow> raw_event list \<Rightarrow> parsed_event list option" where
  "parseEventsBatch lib work now events =
     (if events = [] then None
      else (let parsedEvents = List.map_filter (parse_one lib work now) events
            in if length parsedEvents > 0 then Some parsedEvents else None))"

subsection \<open>Rules\<close>

definition MIN_VALUE :: int where
  "MIN_VALUE = 10"

definition parseValue :: "string \<Rightarrow> int" where
  "parseValue value = (case Number_of value of Finite q \<Rightarrow> trunc q | _ \<Rightarrow> 0)"

definition apply_rules :: "parsed_event \<Rightarrow> enriched_event option" where
  "apply_rules event =
     (if parseValue (pv_value event) \<ge> MIN_VALUE \<and> pv_type event \<noteq> ''view''
      then Some \<lparr>en_event = Some event, en_metadata = [(''rule'', ''min_value_and_type'')], en_passedRules = True\<rparr>
      else None)"

definition rules_one :: "js_library \<Rightarrow> (json \<Rightarrow> json option) \<Rightarrow> parsed_event \<Rightarrow> enriched_event option" where
  "rules_one lib work event =
     (if pv_type event = ''work-item''
      then (case Option.bind (lib_parse lib (pv_user event)) work of
              None \<Rightarrow> None
            | Some enrichedItem \<Rightarrow>
                Some \<lparr>en_event = Some (event\<lparr>pv_user := lib_stringify lib enrichedItem\<rparr>),
                      en_metadata = [(''workload'', ''compute-heavy'')], en_passedRules = True\<rparr>)
      else apply_rules event)"

definition applyRules :: "js_library \<Rightarrow> (json \<Rightarrow> json option) \<Rightarrow> parsed_event option \<Rightarrow> enriched_event list" where
  "applyRules lib work request =
     (case request of
        None \<Rightarrow> []
      | Some event \<Rightarrow> (case rules_one lib work event of None \<Rightarrow> [] | Some enriched \<Rightarrow> [enriched]))"

definition applyRulesBatch :: "parsed_event list \<Rightarrow> enriched_event list option" where
  "applyRulesBatch events =
     (if events = [] then None
      else (let enrichedEvents = List.map_filter apply_rules events
            in if length enrichedEvents > 0 then Some enrichedEvents else None))"

subsection \<open>Aggregation\<close>

record aggregate_stats =
  as_count :: int
  as_sum :: rat

type_synonym aggregator = "(string, aggregate_stats) js_map"

definition aggregator_add :: "enriched_event \<Rightarrow> aggregator \<Rightarrow> aggregator" where
  "aggregator_add event stats =
     (if \<not> en_passedRules event then stats
      else (case en_event event of
              None \<Rightarrow> stats
            | Some e \<Rightarrow>
                (let current = nullish (map_get stats (pv_type e)) \<lparr>as_count = 0, as_sum = 0\<rparr>
                 in map_set (pv_type e)
                      \<lparr>as_count = as_count current + 1, as_sum = fl (as_sum current + of_int (parseValue (pv_value e)))\<rparr>
                      stats)))"

definition aggregator_results :: "js_library \<Rightarrow> aggregator \<Rightarrow> aggregate_result list" where
  "aggregator_results lib stats =
     map (\<lambda>(key, v). \<lparr>ag_key = Some key, ag_count = string_of_int (as_count v), ag_sum = lib_print lib (as_sum v),
                      ag_avg = Finite (if as_count v = 0 then 0 else fl (as_sum v / of_int (as_count v)))\<rparr>) stats"

record work_result =
  wr_id :: string
  wr_finalScore :: js_number

record aggregation =
  an_stats :: aggregator
  an_workItems :: "work_result list"

definition new_aggregation :: aggregation where
  "new_aggregation = \<lparr>an_stats = [], an_workItems = []\<rparr>"

definition aggregate_event :: "(string \<Rightarrow> work_result option) \<Rightarrow> enriched_event \<Rightarrow> aggregation \<Rightarrow> aggregation" where
  "aggregate_event work event a =
     (case en_event event of
        Some e \<Rightarrow>
          if pv_type e = ''work-item''
          then (case work (pv_user e) of
                  Some result \<Rightarrow> a\<lparr>an_workItems := an_workItems a @ [result]\<rparr>
                | None \<Rightarrow> a)
          else a\<lparr>an_stats := aggregator_add event (an_stats a)\<rparr>
      | None \<Rightarrow> a\<lparr>an_stats := aggregator_add event (an_stats a)\<rparr>)"

definition aggregation_data :: "(string \<Rightarrow> work_result option) \<Rightarrow> enriched_event option \<Rightarrow> aggregation \<Rightarrow> aggregation" where
  "aggregation_data work request a =
     (case request of None \<Rightarrow> a | Some event \<Rightarrow> aggregate_event work event a)"

definition aggregation_batch_data :: "(string \<Rightarrow> work_result option) \<Rightarrow> enriched_event list \<Rightarrow> aggregation \<Rightarrow> aggregation" where
  "aggregation_batch_data work events a =
     (if events = [] then a else foldl (\<lambda>a event. aggregate_event work event a) a events)"

text \<open>
  The results at the end of a call.  A work item has no \<open>vector_checksum\<close> and no
  \<open>work_item_id\<close>: the first call falls back to 0, the batch call reads undefined fields.
\<close>

definition aggregate_end_results :: "js_library \<Rightarrow> aggregation \<Rightarrow> aggregate_result list" where
  "aggregate_end_results lib a =
     aggregator_results lib (an_stats a) @
     map (\<lambda>item. \<lparr>ag_key = Some (wr_id item), ag_count = ''0'', ag_sum = ''0'', ag_avg = wr_finalScore item\<rparr>)
       (an_workItems a)"

definition aggregate_batch_end_results :: "js_library \<Rightarrow> aggregation \<Rightarrow> aggregate_result list" where
  "aggregate_batch_end_results lib a =
     aggregator_results lib (an_stats a) @
     map (\<lambda>item. \<lparr>ag_key = None, ag_count = ''0'', ag_sum = ''NaN'', ag_avg = wr_finalScore item\<rparr>) (an_workItems a)"

subsection \<open>The sink\<close>

definition finite_json :: "js_number \<Rightarrow> json" where
  "finite_json x = (case x of Finite q \<Rightarrow> JNum q | _ \<Rightarrow> JNull)"

text \<open>The line of a result; \<open>None\<close> when \<open>startsWith\<close> is called on a missing key.\<close>

definition formatResult :: "js_library \<Rightarrow> aggregate_result option \<Rightarrow> string option" where
  "formatResult lib result =
     (case result of
        None \<Rightarrow> Some []
      | Some r \<Rightarrow>
          (case ag_key r of
             None \<Rightarrow> None
           | Some key \<Rightarrow>
               Some (if startsWith key ''w-''
                     then lib_stringify lib (JObj
                       [(''workItemId'', JStr key), (''vectorChecksum'', JStr (ag_sum r)),
                        (''finalScore'', finite_json (ag_avg r)),
                        (''timestamp'', case Number_of (ag_count r) of
                           Finite q \<Rightarrow> JNum (of_int \<lfloor>fl (q / 1000)\<rfloor>) | _ \<Rightarrow> JNull)])
                     else ''{\"key\":\"'' @ key @ ''\",\"count\":'' @ ag_count r @ '',\"sum\":'' @ ag_sum r @
                          '',\"avg\":'' @ number_text lib (ag_avg r) @ ''}'')))"

record sink =
  sk_written :: nat
  sk_lines :: "string list"
  sk_failed :: bool

definition new_sink :: sink where
  "new_sink = \<lparr>sk_written = 0, sk_lines = [], sk_failed = False\<rparr>"

text \<open>The data handler: an uncaught exception ends the process.\<close>

definition sink_data :: "js_library \<Rightarrow> aggregate_result option \<Rightarrow> sink \<Rightarrow> sink" where
  "sink_data lib request s =
     (if sk_failed s then s
      else (case request of
              None \<Rightarrow> s
            | Some r \<Rightarrow>
                (case formatResult lib (Some r) of
                   None \<Rightarrow> s\<lparr>sk_failed := True\<rparr>
                 | Some line \<Rightarrow>
                     s\<lparr>sk_written := sk_written s + 1, sk_lines := sk_lines s @ [line @ [CHR 10]]\<rparr>)))"

text \<open>The reply once the output file is closed; the argument is the error of a write, if one failed.\<close>

definition sink_end :: "string option \<Rightarrow> sink \<Rightarrow> string + string" where
  "sink_end failure s =
     (case failure of Some message \<Rightarrow> Inl message | None \<Rightarrow> Inr (string_of_int (int (sk_written s))))"

end
