(* ===== verification/Pipeline_Properties.thy ===== *)
theory Pipeline_Properties
  imports Orchestrator Pipeline_Services
begin

text \<open>
  The orchestrator forwards everything in order, cuts it into batches of the configured size, and
  the results do not depend on whether it batches.
\<close>

subsection \<open>A stage that forwards what it receives\<close>

text \<open>
  What one stream of the orchestrator relies on: an event adds its input to what is sent or kept,
  the end of the stream empties what is kept, and without input nothing is kept again.
\<close>

locale forwarder =
  fixes step :: "'s \<Rightarrow> 'e \<Rightarrow> 's"
    and inv :: "'s \<Rightarrow> bool"
    and good :: "'e \<Rightarrow> bool"
    and sent :: "'s \<Rightarrow> 'a list"
    and kept :: "'s \<Rightarrow> 'a list"
    and input :: "'e \<Rightarrow> 'a list"
    and closes :: "'e \<Rightarrow> bool"
  assumes inv_step: "inv s \<Longrightarrow> good e \<Longrightarrow> inv (step s e)"
    and adds: "inv s \<Longrightarrow> good e \<Longrightarrow> sent (step s e) @ kept (step s e) = sent s @ kept s @ input e"
    and empties: "inv s \<Longrightarrow> closes e \<Longrightarrow> kept (step s e) = []"
    and stays_empty: "inv s \<Longrightarrow> good e \<Longrightarrow> input e = [] \<Longrightarrow> kept s = [] \<Longrightarrow> kept (step s e) = []"
begin

lemma run_inv: "inv s \<Longrightarrow> \<forall>e \<in> set es. good e \<Longrightarrow> inv (foldl step s es)"
  by (induction es arbitrary: s) (simp_all add: inv_step)

lemma run_adds:
  "inv s \<Longrightarrow> \<forall>e \<in> set es. good e \<Longrightarrow>
   sent (foldl step s es) @ kept (foldl step s es) = sent s @ kept s @ concat (map input es)"
proof (induction es arbitrary: s)
  case (Cons e es)
  then show ?case using adds [of s e] inv_step [of s e] by (simp flip: append_assoc)
qed simp

lemma run_stays_empty:
  "inv s \<Longrightarrow> \<forall>e \<in> set es. good e \<and> input e = [] \<Longrightarrow> kept s = [] \<Longrightarrow> kept (foldl step s es) = []"
  by (induction es arbitrary: s) (simp_all add: inv_step stays_empty)

lemma run_closed:
  assumes "inv s" "\<forall>e \<in> set (as @ e # bs). good e" "closes e" "\<forall>b \<in> set bs. input b = []"
  shows "kept (foldl step s (as @ e # bs)) = []"
    and "sent (foldl step s (as @ e # bs)) = sent s @ kept s @ concat (map input (as @ e # bs))"
proof -
  have i: "inv (foldl step s as)" using assms run_inv [of s as] by simp
  then have "kept (step (foldl step s as) e) = []" "inv (step (foldl step s as) e)"
    using assms empties inv_step by simp_all
  with run_stays_empty [of "step (foldl step s as) e" bs] assms
  show k: "kept (foldl step s (as @ e # bs)) = []" by simp
  show "sent (foldl step s (as @ e # bs)) = sent s @ kept s @ concat (map input (as @ e # bs))"
    using run_adds [OF assms(1,2)] k by simp
qed

end

definition running :: "bool \<Rightarrow> orchestrator \<Rightarrow> bool" where
  "running b s \<longleftrightarrow> oc_exit s = None \<and> batching s = b \<and>
     (\<not> b \<longrightarrow> oc_eventBatch s = [] \<and> oc_parseBatch s = [] \<and> oc_rulesBatch s = [])"

lemma running_event: "running b s \<Longrightarrow> goes_on e \<Longrightarrow> running b (orchestrator_step s e)"
  using no_batches [of s e] exit_event [of s e] by (auto simp: running_def orchestrator_step_def)

interpretation to_parse: forwarder orchestrator_step "running b" goes_on "\<lambda>s. flat (oc_toParse s)" oc_eventBatch
  raw_in "\<lambda>e. e = Ingest_End"
proof unfold_locales
  fix s e
  show "running b s \<Longrightarrow> goes_on e \<Longrightarrow> running b (orchestrator_step s e)" by (rule running_event)
  show "running b s \<Longrightarrow> goes_on e \<Longrightarrow> flat (oc_toParse (orchestrator_step s e)) @ oc_eventBatch (orchestrator_step s e) =
    flat (oc_toParse s) @ oc_eventBatch s @ raw_in e"
    using parse_side [of s e] by (auto simp: running_def orchestrator_step_def)
  show "running b s \<Longrightarrow> e = Ingest_End \<Longrightarrow> oc_eventBatch (orchestrator_step s e) = []"
    by (auto simp: running_def orchestrator_step_def callback_defs)
  show "running b s \<Longrightarrow> goes_on e \<Longrightarrow> raw_in e = [] \<Longrightarrow> oc_eventBatch s = [] \<Longrightarrow> oc_eventBatch (orchestrator_step s e) = []"
    by (cases e) (auto simp: running_def orchestrator_step_def callback_defs aggregate_batch_fields aggregate_data_def
        split: option.splits sum.splits)
qed

interpretation to_rules: forwarder orchestrator_step "running b" goes_on "\<lambda>s. flat (oc_toRules s)" oc_parseBatch
  "parsed_in b" "\<lambda>e. e = Parse_End"
proof unfold_locales
  fix s e
  show "running b s \<Longrightarrow> goes_on e \<Longrightarrow> running b (orchestrator_step s e)" by (rule running_event)
  show "running b s \<Longrightarrow> goes_on e \<Longrightarrow> flat (oc_toRules (orchestrator_step s e)) @ oc_parseBatch (orchestrator_step s e) =
    flat (oc_toRules s) @ oc_parseBatch s @ parsed_in b e"
    using rules_side [of s e] by (auto simp: running_def orchestrator_step_def)
  show "running b s \<Longrightarrow> e = Parse_End \<Longrightarrow> oc_parseBatch (orchestrator_step s e) = []"
    by (auto simp: running_def orchestrator_step_def callback_defs)
  show "running b s \<Longrightarrow> goes_on e \<Longrightarrow> parsed_in b e = [] \<Longrightarrow> oc_parseBatch s = [] \<Longrightarrow> oc_parseBatch (orchestrator_step s e) = []"
    by (cases e) (auto simp: running_def orchestrator_step_def callback_defs aggregate_batch_fields aggregate_data_def
        split: option.splits sum.splits)
qed

interpretation to_aggregate: forwarder orchestrator_step "running b" goes_on "\<lambda>s. flat (oc_toAggregate s)" oc_rulesBatch
  "enriched_in b" "\<lambda>e. e = Rules_End"
proof unfold_locales
  fix s e
  show "running b s \<Longrightarrow> goes_on e \<Longrightarrow> running b (orchestrator_step s e)" by (rule running_event)
  show "running b s \<Longrightarrow> goes_on e \<Longrightarrow> flat (oc_toAggregate (orchestrator_step s e)) @ oc_rulesBatch (orchestrator_step s e) =
    flat (oc_toAggregate s) @ oc_rulesBatch s @ enriched_in b e"
    using aggregate_side [of s e] by (auto simp: running_def orchestrator_step_def)
  show "running b s \<Longrightarrow> e = Rules_End \<Longrightarrow> oc_rulesBatch (orchestrator_step s e) = []"
    by (auto simp: running_def orchestrator_step_def callback_defs)
  show "running b s \<Longrightarrow> goes_on e \<Longrightarrow> enriched_in b e = [] \<Longrightarrow> oc_rulesBatch s = [] \<Longrightarrow> oc_rulesBatch (orchestrator_step s e) = []"
    by (cases e) (auto simp: running_def orchestrator_step_def callback_defs aggregate_batch_fields aggregate_data_def
        split: option.splits sum.splits)
qed

lemma running_new: "running (pc_enableBatching c) (new_orchestrator c now)"
  by (simp add: running_def new_orchestrator_def)

lemma sink_run: "running b s \<Longrightarrow> \<forall>e \<in> set es. goes_on e \<Longrightarrow>
  oc_toSink (foldl orchestrator_step s es) = oc_toSink s @ gathered (results_in b) es"
proof (induction es arbitrary: s)
  case (Cons e es)
  then have "oc_toSink (orchestrator_step s e) = oc_toSink s @ results_in b e"
    using sink_side [of s e] by (auto simp: running_def orchestrator_step_def)
  with Cons running_event [of b s e] show ?case by simp
qed simp

subsection \<open>The promises of the orchestrator\<close>

text \<open>The stream ends after its last item.\<close>

fun closed :: "(orchestrator_event \<Rightarrow> 'a list) \<Rightarrow> orchestrator_event \<Rightarrow> orchestrator_event list \<Rightarrow> bool" where
  "closed f x [] = False"
| "closed f x (e # es) = ((e = x \<and> list_all (\<lambda>b. f b = []) es) \<or> closed f x es)"

lemma closed_split: "closed f x es \<Longrightarrow> \<exists>as bs. es = as @ x # bs \<and> (\<forall>b \<in> set bs. f b = [])"
proof (induction es)
  case (Cons e es)
  then consider "e = x" "\<forall>b \<in> set es. f b = []" | "closed f x es" by (auto simp: list_all_iff)
  then show ?case
  proof cases
    case 1
    then show ?thesis by (intro exI [of _ "[]"] exI [of _ es]) simp
  next
    case 2
    then obtain as bs where "es = as @ x # bs" "\<forall>b \<in> set bs. f b = []" using Cons.IH by blast
    then show ?thesis by (intro exI [of _ "e # as"] exI [of _ bs]) simp
  qed
qed simp

lemma orchestrator_stages:
  assumes "\<forall>e \<in> set es. goes_on e" "b = pc_enableBatching c" "s = foldl orchestrator_step (new_orchestrator c now) es"
  shows "flat (oc_toParse s) @ oc_eventBatch s = gathered raw_in es"
    and "flat (oc_toRules s) @ oc_parseBatch s = gathered (parsed_in b) es"
    and "flat (oc_toAggregate s) @ oc_rulesBatch s = gathered (enriched_in b) es"
    and "oc_toSink s = gathered (results_in b) es"
    and "closed raw_in Ingest_End es \<Longrightarrow> oc_eventBatch s = []"
    and "closed (parsed_in b) Parse_End es \<Longrightarrow> oc_parseBatch s = []"
    and "closed (enriched_in b) Rules_End es \<Longrightarrow> oc_rulesBatch s = []"
proof -
  let ?s = "new_orchestrator c now"
  have r: "running b ?s" using running_new [of c now] assms(2) by simp
  have e: "oc_toParse ?s = []" "oc_toRules ?s = []" "oc_toAggregate ?s = []" "oc_toSink ?s = []"
    "oc_eventBatch ?s = []" "oc_parseBatch ?s = []" "oc_rulesBatch ?s = []" by (simp_all add: new_orchestrator_def)
  show "flat (oc_toParse s) @ oc_eventBatch s = gathered raw_in es"
    "flat (oc_toRules s) @ oc_parseBatch s = gathered (parsed_in b) es"
    "flat (oc_toAggregate s) @ oc_rulesBatch s = gathered (enriched_in b) es"
    "oc_toSink s = gathered (results_in b) es"
    using to_parse.run_adds [OF r assms(1)] to_rules.run_adds [OF r assms(1)] to_aggregate.run_adds [OF r assms(1)]
      sink_run [OF r assms(1)] e assms(3) by (simp_all add: gathered_def)
  show "closed raw_in Ingest_End es \<Longrightarrow> oc_eventBatch s = []"
    using closed_split [of raw_in Ingest_End es] to_parse.run_closed(1) [OF r] assms(1,3) by (metis (no_types, lifting))
  show "closed (parsed_in b) Parse_End es \<Longrightarrow> oc_parseBatch s = []"
    using closed_split [of "parsed_in b" Parse_End es] to_rules.run_closed(1) [OF r] assms(1,3) by (metis (no_types, lifting))
  show "closed (enriched_in b) Rules_End es \<Longrightarrow> oc_rulesBatch s = []"
    using closed_split [of "enriched_in b" Rules_End es] to_aggregate.run_closed(1) [OF r] assms(1,3) by (metis (no_types, lifting))
qed

text \<open>C7.
  Nothing is lost, duplicated or reordered between the stages, with and without batching: what was
  written to a stage, followed by the batch that is being collected, is what was received for it;
  once the stage before has ended, everything has been written.\<close>

theorem orchestrator_forwards_everything:
  assumes "\<forall>e \<in> set es. goes_on e" "s = foldl orchestrator_step (new_orchestrator c now) es"
  shows "flat (oc_toParse s) @ oc_eventBatch s = gathered raw_in es
    \<and> flat (oc_toRules s) @ oc_parseBatch s = gathered (parsed_in (pc_enableBatching c)) es
    \<and> flat (oc_toAggregate s) @ oc_rulesBatch s = gathered (enriched_in (pc_enableBatching c)) es
    \<and> oc_toSink s = gathered (results_in (pc_enableBatching c)) es
    \<and> (closed raw_in Ingest_End es \<longrightarrow> flat (oc_toParse s) = gathered raw_in es)
    \<and> (closed (parsed_in (pc_enableBatching c)) Parse_End es \<longrightarrow>
        flat (oc_toRules s) = gathered (parsed_in (pc_enableBatching c)) es)
    \<and> (closed (enriched_in (pc_enableBatching c)) Rules_End es \<longrightarrow>
        flat (oc_toAggregate s) = gathered (enriched_in (pc_enableBatching c)) es)"
  using orchestrator_stages [OF assms(1) refl assms(2)] by (metis append_Nil2)

definition sample_events :: "raw_event list" where
  "sample_events = [\<lparr>ev_rawJson = ''a'', ev_sequence = ''0''\<rparr>, \<lparr>ev_rawJson = ''b'', ev_sequence = ''1''\<rparr>,
     \<lparr>ev_rawJson = ''c'', ev_sequence = ''2''\<rparr>]"

definition sample_ingest :: "orchestrator_event list" where
  "sample_ingest = map (\<lambda>e. Ingest_Data (Some e) 5) sample_events @ [Ingest_End]"

definition batched_pipeline :: pipeline_config where
  "batched_pipeline = default_pipeline\<lparr>pc_enableBatching := True, pc_batchSize := Finite 2\<rparr>"

lemma sample_ingest: "\<forall>e \<in> set sample_ingest. goes_on e" "closed raw_in Ingest_End sample_ingest"
  "gathered raw_in sample_ingest = sample_events"
  by (simp_all add: sample_ingest_def sample_events_def)

theorem orchestrator_forwards_everything_witness:
  "flat (oc_toParse (foldl orchestrator_step (new_orchestrator batched_pipeline 0) sample_ingest)) = sample_events"
  using orchestrator_forwards_everything [OF sample_ingest(1) refl, of batched_pipeline 0] sample_ingest(2,3) by simp

text \<open>A stream of batches that all hold exactly \<open>k\<close> items.\<close>

definition full_batches :: "nat \<Rightarrow> 'e outgoing list \<Rightarrow> bool" where
  "full_batches k ms \<longleftrightarrow> (\<forall>m \<in> set ms. \<exists>es. m = Batch es k \<and> length es = k)"

definition filling :: "nat \<Rightarrow> orchestrator \<Rightarrow> bool" where
  "filling k s \<longleftrightarrow> batching s \<and> batch_size s = Finite (of_nat k) \<and> full_batches k (oc_toParse s) \<and> length (oc_eventBatch s) < k"

lemma filling_step: "filling k s \<Longrightarrow> e \<noteq> Ingest_End \<Longrightarrow> filling k (orchestrator_step s e)"
proof (cases e)
  case (Ingest_Data event now)
  assume f: "filling k s"
  show ?thesis
  proof (cases event)
    case None
    with f Ingest_Data show ?thesis by (auto simp: filling_def orchestrator_step_def callback_defs)
  next
    case (Some x)
    have "Suc (length (oc_eventBatch s)) = k" if "k \<le> Suc (length (oc_eventBatch s))"
      using f that by (auto simp: filling_def)
    with f Ingest_Data Some show ?thesis
      by (auto simp: filling_def full_batches_def orchestrator_step_def callback_defs simp del: of_nat_Suc)
  qed
qed (auto simp: filling_def orchestrator_step_def callback_defs aggregate_batch_fields aggregate_data_def
    split: option.split sum.split)

lemma filling_run: "filling k s \<Longrightarrow> Ingest_End \<notin> set es \<Longrightarrow> filling k (foldl orchestrator_step s es)"
  by (induction es arbitrary: s) (auto simp: filling_step)

text \<open>
  With batches of \<open>k\<close> events, the batches written to the parser before the ingest stream ends hold
  exactly \<open>k\<close> events and fewer than \<open>k\<close> are held back; the end of the stream writes these, if there
  are any, as one more batch.\<close>

theorem batches_are_full:
  assumes "pc_enableBatching c" "pc_batchSize c = Finite (of_nat k)" "0 < k" "Ingest_End \<notin> set es"
    "\<forall>e \<in> set es. goes_on e" "s = foldl orchestrator_step (new_orchestrator c now) es"
  shows "full_batches k (oc_toParse s) \<and> length (oc_eventBatch s) < k
    \<and> oc_toParse (orchestrator_step s Ingest_End) = oc_toParse s @
        (if oc_eventBatch s = [] then [] else [Batch (oc_eventBatch s) (length (oc_eventBatch s))])
    \<and> oc_eventBatch (orchestrator_step s Ingest_End) = [] \<and> oc_parseEnded (orchestrator_step s Ingest_End)"
proof -
  have "filling k (new_orchestrator c now)" using assms(1-3) by (simp add: filling_def full_batches_def new_orchestrator_def)
  then have f: "filling k s" unfolding assms(6) by (rule filling_run) (rule assms(4))
  have "running True s" unfolding assms(6)
    using to_parse.run_inv [OF running_new assms(5), of c now] assms(1) by simp
  with f show ?thesis by (simp add: filling_def running_def orchestrator_step_def callback_defs)
qed

theorem batches_are_full_witness:
  "full_batches 2 (oc_toParse (foldl orchestrator_step (new_orchestrator batched_pipeline 0)
     (map (\<lambda>e. Ingest_Data (Some e) 5) sample_events)))"
  using batches_are_full [of batched_pipeline 2 "map (\<lambda>e. Ingest_Data (Some e) 5) sample_events", OF _ _ _ _ _ refl, of 0]
  by (auto simp: batched_pipeline_def)

subsection \<open>The whole pipeline\<close>

text \<open>What the pipeline computes: the events that parse and pass the rules, aggregated by type.\<close>

definition pipeline_reference :: "js_library \<Rightarrow> raw_event list \<Rightarrow> aggregate_result list" where
  "pipeline_reference lib events =
     aggregator_results lib
       (foldl (\<lambda>st e. aggregator_add e st) []
          (List.map_filter apply_rules (List.map_filter (parseEvent lib) events)))"

text \<open>What each service writes for a message of the orchestrator.\<close>

definition parse_answer :: "js_library \<Rightarrow> (json \<Rightarrow> json option) \<Rightarrow> int \<times> raw_event outgoing \<Rightarrow> parsed_event list" where
  "parse_answer lib work m =
     (case m of
        (now, Batch es n) \<Rightarrow> nullish (parseEventsBatch lib work now es) []
      | (now, Single e) \<Rightarrow> parseEvents lib work now e)"

definition rules_answer :: "js_library \<Rightarrow> (json \<Rightarrow> json option) \<Rightarrow> parsed_event outgoing \<Rightarrow> enriched_event list" where
  "rules_answer lib work m =
     (case m of Batch es n \<Rightarrow> nullish (applyRulesBatch es) [] | Single e \<Rightarrow> applyRules lib work e)"

definition aggregate_input :: "(string \<Rightarrow> work_result option) \<Rightarrow> enriched_event outgoing \<Rightarrow> aggregation \<Rightarrow> aggregation" where
  "aggregate_input work m a =
     (case m of Batch es n \<Rightarrow> aggregation_batch_data work es a | Single e \<Rightarrow> aggregation_data work e a)"

definition aggregate_answer ::
  "js_library \<Rightarrow> (string \<Rightarrow> work_result option) \<Rightarrow> bool \<Rightarrow> enriched_event outgoing list \<Rightarrow> aggregate_result list" where
  "aggregate_answer lib work b ms =
     (let a = foldl (\<lambda>a m. aggregate_input work m a) new_aggregation ms
      in if b then aggregate_batch_end_results lib a else aggregate_end_results lib a)"

text \<open>
  A complete run: every stream has ended, and each service has answered, in order, what the
  orchestrator wrote to it.  The events may have been interleaved in any way.
\<close>

definition served ::
  "js_library \<Rightarrow> (json \<Rightarrow> json option) \<Rightarrow> (json \<Rightarrow> json option) \<Rightarrow> (string \<Rightarrow> work_result option) \<Rightarrow> int list \<Rightarrow>
   bool \<Rightarrow> orchestrator_event list \<Rightarrow> orchestrator \<Rightarrow> bool" where
  "served lib work1 work2 work3 clock b es s \<longleftrightarrow>
     closed raw_in Ingest_End es \<and> closed (parsed_in b) Parse_End es \<and> closed (enriched_in b) Rules_End es \<and>
     length clock = length (oc_toParse s) \<and>
     gathered (parsed_in b) es = concat (map (parse_answer lib work1) (zip clock (oc_toParse s))) \<and>
     gathered (enriched_in b) es = concat (map (rules_answer lib work2) (oc_toRules s)) \<and>
     gathered (results_in b) es = map Some (aggregate_answer lib work3 b (oc_toAggregate s))"

lemma map_filter_concat: "concat (map (\<lambda>m. List.map_filter f (g m)) ms) = List.map_filter f (concat (map g ms))"
  by (induction ms) (simp_all add: map_filter_def)

lemma parse_answer_plain:
  assumes "\<forall>e \<in> set (payload m). work_item_of lib e = None"
  shows "parse_answer lib work (now, m) = List.map_filter (parseEvent lib) (payload m)"
proof -
  have "List.map_filter (parse_one lib work now) es = List.map_filter (parseEvent lib) es"
    if "\<forall>e \<in> set es. work_item_of lib e = None" for es
    using that by (induction es) (simp_all add: parse_one_def map_filter_simps split: option.split)
  with assms show ?thesis
    by (cases m) (auto simp: parse_answer_def parseEventsBatch_def parseEvents_def Let_def parse_one_def map_filter_simps
        split: option.splits)
qed

lemma parse_answers_plain:
  assumes "length clock = length ms" "\<forall>e \<in> set (flat ms). work_item_of lib e = None"
  shows "concat (map (parse_answer lib work) (zip clock ms)) = List.map_filter (parseEvent lib) (flat ms)"
  using assms
proof (induction clock ms rule: list_induct2)
  case (Cons t ts m ms)
  then show ?case using parse_answer_plain [of m lib work t] by (simp add: flat_def map_filter_def)
qed (simp add: map_filter_simps)

lemma parsed_types: "parseEvent lib e = Some p \<Longrightarrow> pv_type p \<in> set SUPPORTED_TYPES"
  by (auto simp: parseEvent_def Let_def split: if_splits option.splits json.splits)

lemma not_work_item: "''work-item'' \<notin> set SUPPORTED_TYPES"
  by (simp add: SUPPORTED_TYPES_def)

lemma rules_answers_plain:
  assumes "\<forall>p \<in> set (flat ms). pv_type p \<noteq> ''work-item''"
  shows "concat (map (rules_answer lib work) ms) = List.map_filter apply_rules (flat ms)"
  using assms
proof (induction ms)
  case (Cons m ms)
  have "rules_answer lib work m = List.map_filter apply_rules (payload m)"
    using Cons.prems by (cases m) (auto simp: rules_answer_def applyRulesBatch_def applyRules_def rules_one_def flat_def Let_def
        map_filter_simps split: option.splits)
  with Cons show ?case by (simp add: flat_def map_filter_def)
qed (simp add: map_filter_simps)

lemma apply_rules_event: "apply_rules p = Some e \<Longrightarrow> en_event e = Some p"
  by (auto simp: apply_rules_def split: if_splits)

lemma aggregate_events_plain:
  assumes "\<forall>e \<in> set es. \<exists>p. en_event e = Some p \<and> pv_type p \<noteq> ''work-item''"
  shows "foldl (\<lambda>a e. aggregate_event work e a) a es = a\<lparr>an_stats := foldl (\<lambda>st e. aggregator_add e st) (an_stats a) es\<rparr>"
  using assms by (induction es arbitrary: a) (auto simp: aggregate_event_def)

lemma aggregate_inputs:
  "foldl (\<lambda>a m. aggregate_input work m a) a ms = foldl (\<lambda>a e. aggregate_event work e a) a (flat ms)"
proof (induction ms arbitrary: a)
  case (Cons m ms)
  have "aggregate_input work m a = foldl (\<lambda>a e. aggregate_event work e a) a (payload m)"
    by (cases m) (auto simp: aggregate_input_def aggregation_batch_data_def aggregation_data_def split: option.split)
  with Cons show ?case by (simp add: flat_def)
qed simp

text \<open>
  The results of a complete run are those of the reference computation on the ingested events,
  whatever the interleaving of the streams, the batch size and the mode: batching does not change
  what is written to the sink.  (Work items are excluded; see the next property.)\<close>

theorem batching_does_not_change_results:
  assumes "\<forall>e \<in> set es. goes_on e" "s = foldl orchestrator_step (new_orchestrator c now) es"
    "served lib work1 work2 work3 clock (pc_enableBatching c) es s"
    "\<forall>e \<in> set (gathered raw_in es). work_item_of lib e = None"
  shows "oc_toSink s = map Some (pipeline_reference lib (gathered raw_in es))"
proof -
  note st = orchestrator_stages [OF assms(1) refl assms(2)]
  let ?b = "pc_enableBatching c"
  let ?parsed = "List.map_filter (parseEvent lib) (gathered raw_in es)"
  from assms(3) have sv: "closed raw_in Ingest_End es" "closed (parsed_in ?b) Parse_End es" "closed (enriched_in ?b) Rules_End es"
    "length clock = length (oc_toParse s)"
    "gathered (parsed_in ?b) es = concat (map (parse_answer lib work1) (zip clock (oc_toParse s)))"
    "gathered (enriched_in ?b) es = concat (map (rules_answer lib work2) (oc_toRules s))"
    "gathered (results_in ?b) es = map Some (aggregate_answer lib work3 ?b (oc_toAggregate s))"
    by (simp_all add: served_def)
  have p: "flat (oc_toParse s) = gathered raw_in es" using st(1,5) sv(1) by simp
  have r: "flat (oc_toRules s) = ?parsed"
    using st(2,6) sv(2,5) parse_answers_plain [OF sv(4), of lib work1] p assms(4) by simp
  have t: "\<forall>q \<in> set ?parsed. pv_type q \<noteq> ''work-item''"
    using parsed_types not_work_item by (fastforce simp: map_filter_def)
  have a: "flat (oc_toAggregate s) = List.map_filter apply_rules ?parsed"
    using st(3,7) sv(3,6) rules_answers_plain [of "oc_toRules s" lib work2] r t by simp
  have "\<forall>e \<in> set (List.map_filter apply_rules ?parsed). \<exists>q. en_event e = Some q \<and> pv_type q \<noteq> ''work-item''"
    using t apply_rules_event by (fastforce simp: map_filter_def)
  from aggregate_events_plain [OF this, of work3 new_aggregation]
  have "aggregate_answer lib work3 ?b (oc_toAggregate s) = pipeline_reference lib (gathered raw_in es)"
    by (simp add: aggregate_answer_def aggregate_inputs a aggregate_end_results_def aggregate_batch_end_results_def
        pipeline_reference_def new_aggregation_def Let_def)
  with st(4) sv(7) show ?thesis by simp
qed

definition sample_lib :: js_library where
  "sample_lib = \<lparr>lib_parse = map_of [(''a'', JObj [(''ts'', JStr ''t''), (''type'', JStr ''click''),
       (''user'', JStr ''u''), (''value'', JNum 12)])],
     lib_stringify = (\<lambda>v. []), lib_date = (\<lambda>s. None), lib_print = (\<lambda>q. string_of_int \<lfloor>q\<rfloor>)\<rparr>"

definition sample_parsed :: parsed_event where
  "sample_parsed = \<lparr>pv_type = ''click'', pv_user = ''u'', pv_value = string_of_int 12, pv_timestamp = string_of_int 0,
     pv_sequence = ''0''\<rparr>"

definition sample_enriched :: enriched_event where
  "sample_enriched = \<lparr>en_event = Some sample_parsed, en_metadata = [(''rule'', ''min_value_and_type'')], en_passedRules = True\<rparr>"

definition sample_run :: "orchestrator_event list" where
  "sample_run = sample_ingest @ [Parse_Batch [sample_parsed], Parse_End, Rules_Batch [sample_enriched], Rules_End,
     Aggregate_Batch (pipeline_reference sample_lib sample_events), Aggregate_End]"

lemma sample_parse: "parseEvent sample_lib (sample_events ! 0) = Some sample_parsed"
  "parseEvent sample_lib (sample_events ! 1) = None" "parseEvent sample_lib (sample_events ! 2) = None"
  "\<forall>e \<in> set sample_events. work_item_of sample_lib e = None"
  by (simp_all add: sample_lib_def sample_events_def parseEvent_def sample_parsed_def isRecord_def field_of_def
      SUPPORTED_TYPES_def trunc_def work_item_of_def)

lemma sample_rules: "apply_rules sample_parsed = Some sample_enriched" "pv_type sample_parsed \<noteq> ''work-item''"
proof -
  have "parseValue (string_of_int 12) = 12"
    using Number_of_string_of_int [of 12] by (simp add: parseValue_def trunc_def)
  then show "apply_rules sample_parsed = Some sample_enriched" "pv_type sample_parsed \<noteq> ''work-item''"
    by (simp_all add: apply_rules_def sample_parsed_def sample_enriched_def MIN_VALUE_def)
qed

lemma sample_run_state:
  "oc_toParse (foldl orchestrator_step (new_orchestrator batched_pipeline 0) sample_run) =
     [Batch (take 2 sample_events) 2, Batch (drop 2 sample_events) 1]"
  "oc_toRules (foldl orchestrator_step (new_orchestrator batched_pipeline 0) sample_run) = [Batch [sample_parsed] 1]"
  "oc_toAggregate (foldl orchestrator_step (new_orchestrator batched_pipeline 0) sample_run) = [Batch [sample_enriched] 1]"
  by (simp_all add: sample_run_def sample_ingest_def sample_events_def batched_pipeline_def orchestrator_step_def
      new_orchestrator_def callback_defs aggregate_batch_fields)

lemma sample_served: "served sample_lib (\<lambda>v. None) (\<lambda>v. None) (\<lambda>s. None) [0, 0] True sample_run
    (foldl orchestrator_step (new_orchestrator batched_pipeline 0) sample_run)"
proof -
  have d: "take 2 sample_events = [sample_events ! 0, sample_events ! 1]" "drop 2 sample_events = [sample_events ! 2]"
    by (simp_all add: sample_events_def)
  have w: "work_item_of sample_lib (sample_events ! i) = None" if "i < 3" for i
  proof -
    have "sample_events ! i \<in> set sample_events" by (rule nth_mem) (use that in \<open>simp add: sample_events_def\<close>)
    with sample_parse(4) show ?thesis by blast
  qed
  have f: "List.map_filter (parseEvent sample_lib) sample_events = [sample_parsed]"
    using sample_parse(1-3) by (simp add: sample_events_def map_filter_simps)
  have g: "foldl (\<lambda>a e. aggregate_event (\<lambda>s. None) e a) new_aggregation [sample_enriched] =
      new_aggregation\<lparr>an_stats := foldl (\<lambda>st e. aggregator_add e st) (an_stats new_aggregation) [sample_enriched]\<rparr>"
    using sample_rules(2) by (intro aggregate_events_plain) (simp add: sample_enriched_def)
  have a: "aggregate_answer sample_lib (\<lambda>s. None) True [Batch [sample_enriched] 1] = pipeline_reference sample_lib sample_events"
    using g by (simp add: aggregate_answer_def aggregate_inputs aggregate_batch_end_results_def pipeline_reference_def f
        sample_rules map_filter_simps new_aggregation_def Let_def)
  have r: "gathered raw_in sample_run = sample_events" "gathered (parsed_in True) sample_run = [sample_parsed]"
    "gathered (enriched_in True) sample_run = [sample_enriched]"
    "gathered (results_in True) sample_run = map Some (pipeline_reference sample_lib sample_events)"
    "closed raw_in Ingest_End sample_run" "closed (parsed_in True) Parse_End sample_run"
    "closed (enriched_in True) Rules_End sample_run"
    by (simp_all add: sample_run_def sample_ingest_def sample_events_def)
  show ?thesis
    unfolding served_def sample_run_state a
    by (simp add: r d parse_answer_def parseEventsBatch_def parse_one_def w sample_parse(1,3) sample_parse(2) [simplified]
        map_filter_simps rules_answer_def applyRulesBatch_def sample_rules)
qed

theorem batching_does_not_change_results_witness:
  "oc_toSink (foldl orchestrator_step (new_orchestrator batched_pipeline 0) sample_run) =
   map Some (pipeline_reference sample_lib (gathered raw_in sample_run))"
proof (rule batching_does_not_change_results [OF _ refl, where c = batched_pipeline])
  show "\<forall>e \<in> set sample_run. goes_on e" by (simp add: sample_run_def sample_ingest_def sample_events_def)
  show "served sample_lib (\<lambda>v. None) (\<lambda>v. None) (\<lambda>s. None) [0, 0] (pc_enableBatching batched_pipeline) sample_run
      (foldl orchestrator_step (new_orchestrator batched_pipeline 0) sample_run)"
    using sample_served by (simp add: batched_pipeline_def)
  have "gathered raw_in sample_run = sample_events" by (simp add: sample_run_def sample_ingest_def sample_events_def)
  with sample_parse(4) show "\<forall>e \<in> set (gathered raw_in sample_run). work_item_of sample_lib e = None" by simp
qed

lemma zero_text: "string_of_int 0 = ''0''"
proof -
  have "of_char CHR ''0'' = (48 :: nat)" by simp
  then have "char_of (48 :: nat) = CHR ''0''" by (metis char_of_char)
  then show ?thesis by (simp add: string_of_int_def string_of_nat.simps [of 0] digit_def)
qed

lemma parseValue_zero: "parseValue ''0'' = 0"
  using Number_of_string_of_int [of 0] by (simp add: zero_text parseValue_def trunc_def)

lemma work_item_event:
  "work_item_of lib raw = Some item \<Longrightarrow> work item \<noteq> None \<Longrightarrow> parse_one lib work now raw = Some e \<Longrightarrow>
   pv_type e = ''work-item'' \<and> apply_rules e = None"
  by (auto simp: parse_one_def apply_rules_def parseValue_zero MIN_VALUE_def)

lemma no_rule_applies: "\<forall>e \<in> set events. apply_rules e = None \<Longrightarrow> applyRulesBatch events = None"
proof -
  assume "\<forall>e \<in> set events. apply_rules e = None"
  then have "List.map_filter apply_rules events = []" by (induction events) (simp_all add: map_filter_simps)
  then show ?thesis by (simp add: applyRulesBatch_def)
qed

text \<open>
  A work item is carried as an event of value 0, so the batch handler of the rules service drops
  every work item, while the handler of single events passes on all that it can process.\<close>

theorem batches_drop_work_items:
  assumes "\<forall>e \<in> set events. \<exists>raw item. work_item_of lib raw = Some item \<and> work item \<noteq> None \<and>
      parse_one lib work now raw = Some e"
  shows "applyRulesBatch events = None
    \<and> (\<forall>e \<in> set events. \<forall>item. Option.bind (lib_parse lib (pv_user e)) work2 = Some item \<longrightarrow>
         length (applyRules lib work2 (Some e)) = 1)"
proof -
  have e: "pv_type e = ''work-item'' \<and> apply_rules e = None" if "e \<in> set events" for e
  proof -
    from bspec [OF assms that] obtain raw item where "work_item_of lib raw = Some item" "work item \<noteq> None"
      "parse_one lib work now raw = Some e" by (elim exE conjE)
    then show ?thesis by (rule work_item_event)
  qed
  then have "applyRulesBatch events = None" by (intro no_rule_applies ballI) simp
  moreover have "length (applyRules lib work2 (Some e)) = 1"
    if "e \<in> set events" "Option.bind (lib_parse lib (pv_user e)) work2 = Some item" for e item
    using e that by (simp add: applyRules_def rules_one_def)
  ultimately show ?thesis by simp
qed

definition work_lib :: js_library where
  "work_lib = sample_lib\<lparr>lib_parse := (\<lambda>s. Some (JObj [(''id'', JStr ''w-1''), (''vectors'', JArr []), (''matrix'', JObj [])]))\<rparr>"

theorem batches_drop_work_items_witness:
  "applyRulesBatch (List.map_filter (parse_one work_lib Some 7) [\<lparr>ev_rawJson = ''w'', ev_sequence = ''0''\<rparr>]) = None"
proof -
  have "\<forall>e \<in> set (List.map_filter (parse_one work_lib Some 7) [\<lparr>ev_rawJson = ''w'', ev_sequence = ''0''\<rparr>]).
      \<exists>raw item. work_item_of work_lib raw = Some item \<and> Some item \<noteq> None \<and> parse_one work_lib Some 7 raw = Some e"
    by (auto simp: map_filter_simps work_lib_def work_item_of_def field_of_def split: option.splits
        intro!: exI [of _ "\<lparr>ev_rawJson = ''w'', ev_sequence = ''0''\<rparr>"])
  from batches_drop_work_items [OF this] show ?thesis by blast
qed

end
