(* ===== verification/Aggregation.thy ===== *)
theory Aggregation
  imports Pipeline_Services
begin

text \<open>What the aggregator of the pipeline (\<open>aggregate.ts\<close>) computes: counts and sums per event type.\<close>

fun passing :: "enriched_event \<Rightarrow> parsed_event option" where
  "passing e = (if en_passedRules e then en_event e else None)"

definition aggregate :: "enriched_event list \<Rightarrow> aggregator" where
  "aggregate es = foldl (\<lambda>st e. aggregator_add e st) [] es"

text \<open>The values of the events of a type that passed the rules.\<close>

definition values_of :: "string \<Rightarrow> enriched_event list \<Rightarrow> int list" where
  "values_of key es = map (\<lambda>p. parseValue (pv_value p)) (filter (\<lambda>p. pv_type p = key) (List.map_filter passing es))"

definition exact_sums :: "enriched_event list \<Rightarrow> bool" where
  "exact_sums es \<longleftrightarrow> (\<forall>key. sum_list (map abs (values_of key es)) \<le> 2 ^ 53)"

lemma values_of_append [simp]: "values_of key (es @ fs) = values_of key es @ values_of key fs"
  by (simp add: values_of_def map_filter_def)

lemma values_of_single:
  "values_of key [e] = (case passing e of Some p \<Rightarrow> if pv_type p = key then [parseValue (pv_value p)] else [] | None \<Rightarrow> [])"
  by (auto simp: values_of_def map_filter_def split: option.splits)

lemma add_lookup:
  "map_of (aggregator_add e st) key =
     (case passing e of
        None \<Rightarrow> map_of st key
      | Some p \<Rightarrow>
          if pv_type p = key
          then Some \<lparr>as_count = (case map_of st key of None \<Rightarrow> 0 | Some a \<Rightarrow> as_count a) + 1,
                     as_sum = fl ((case map_of st key of None \<Rightarrow> 0 | Some a \<Rightarrow> as_sum a) + of_int (parseValue (pv_value p)))\<rparr>
          else map_of st key)"
  by (auto simp: aggregator_add_def nullish_def update_conv' Let_def split: option.splits)

lemma abs_sum_list: "\<bar>sum_list xs\<bar> \<le> sum_list (map abs xs)" for xs :: "int list"
  by (induction xs) auto

lemma aggregate_lookup:
  "exact_sums es \<Longrightarrow>
   map_of (aggregate es) key =
     (if values_of key es = [] then None
      else Some \<lparr>as_count = int (length (values_of key es)), as_sum = of_int (sum_list (values_of key es))\<rparr>)"
proof (induction es rule: rev_induct)
  case Nil
  show ?case by (simp add: aggregate_def values_of_def map_filter_simps)
next
  case (snoc e es)
  have b: "sum_list (map abs (values_of key es)) + sum_list (map abs (values_of key [e])) \<le> 2 ^ 53" for key
    using snoc.prems by (simp add: exact_sums_def)
  have nonneg: "0 \<le> sum_list (map abs vs)" for vs :: "int list" by (induction vs) auto
  have "exact_sums es" unfolding exact_sums_def
  proof
    fix key
    show "sum_list (map abs (values_of key es)) \<le> 2 ^ 53"
      using b [of key] nonneg [of "values_of key [e]"] by linarith
  qed
  note IH = snoc.IH [OF this]
  have s: "aggregate (es @ [e]) = aggregator_add e (aggregate es)" by (simp add: aggregate_def)
  show ?case
  proof (cases "passing e")
    case None
    then show ?thesis unfolding s add_lookup by (simp add: IH values_of_single)
  next
    case (Some p)
    show ?thesis
    proof (cases "pv_type p = key")
      case False
      with Some show ?thesis unfolding s add_lookup by (simp add: IH values_of_single)
    next
      case True
      let ?v = "parseValue (pv_value p)"
      have "\<bar>sum_list (values_of key es) + ?v\<bar> \<le> 2 ^ 53"
        using b [of key] abs_sum_list [of "values_of key es"] Some True by (simp add: values_of_single)
      then have f: "fl (of_int (sum_list (values_of key es)) + of_int ?v) = of_int (sum_list (values_of key es) + ?v)"
        using fl_int [of "sum_list (values_of key es) + ?v"] by simp
      have "values_of key es = [] \<Longrightarrow> fl (of_int ?v) = of_int ?v" using f by simp
      with Some True f show ?thesis unfolding s add_lookup by (simp add: IH values_of_single)
    qed
  qed
qed

text \<open>C30.
  The aggregator holds an entry for exactly the types of the events that passed the rules; its
  count is their number and its sum the sum of their values, as long as the values of a type add
  up to at most 2^53 in absolute value, so that double arithmetic is exact; the reported average
  is the quotient of the two.\<close>

theorem aggregator_counts_and_sums:
  assumes "exact_sums es" "values_of key es \<noteq> []" "prints_integers lib"
  shows "\<lparr>ag_key = Some key, ag_count = string_of_int (int (length (values_of key es))),
      ag_sum = string_of_int (sum_list (values_of key es)),
      ag_avg = Finite (fl (of_int (sum_list (values_of key es)) / of_nat (length (values_of key es))))\<rparr>
      \<in> set (aggregator_results lib (aggregate es))
    \<and> (\<forall>k. map_of (aggregate es) k = None \<longleftrightarrow> values_of k es = [])"
proof -
  have a: "map_of (aggregate es) key =
      Some \<lparr>as_count = int (length (values_of key es)), as_sum = of_int (sum_list (values_of key es))\<rparr>"
    using aggregate_lookup [OF assms(1), of key] assms(2) by simp
  have "\<bar>sum_list (values_of key es)\<bar> \<le> 2 ^ 53"
    using assms(1) abs_sum_list [of "values_of key es"] unfolding exact_sums_def by (meson order_trans)
  then have "lib_print lib (of_int (sum_list (values_of key es))) = string_of_int (sum_list (values_of key es))"
    using assms(3) by (simp add: prints_integers_def)
  moreover have "(key, \<lparr>as_count = int (length (values_of key es)), as_sum = of_int (sum_list (values_of key es))\<rparr>)
      \<in> set (aggregate es)" by (rule map_of_SomeD [OF a])
  ultimately have "\<lparr>ag_key = Some key, ag_count = string_of_int (int (length (values_of key es))),
      ag_sum = string_of_int (sum_list (values_of key es)),
      ag_avg = Finite (fl (of_int (sum_list (values_of key es)) / of_nat (length (values_of key es))))\<rparr>
      \<in> set (aggregator_results lib (aggregate es))"
    unfolding aggregator_results_def using assms(2) by (force simp: image_iff)
  then show ?thesis using aggregate_lookup [OF assms(1)] by simp
qed

definition sample_purchases :: "enriched_event list" where
  "sample_purchases = map (\<lambda>n. \<lparr>en_event = Some \<lparr>pv_type = ''purchase'', pv_user = ''u'', pv_value = string_of_int n,
     pv_timestamp = ''0'', pv_sequence = ''0''\<rparr>, en_metadata = [], en_passedRules = True\<rparr>) [12, 30]"

definition plain_lib :: js_library where
  "plain_lib = \<lparr>lib_parse = (\<lambda>s. None), lib_stringify = (\<lambda>v. []), lib_date = (\<lambda>s. None),
     lib_print = (\<lambda>q. string_of_int \<lfloor>q\<rfloor>)\<rparr>"

lemma sample_values: "values_of key sample_purchases = (if key = ''purchase'' then [12, 30] else [])"
proof -
  have "parseValue (string_of_int 12) = 12" "parseValue (string_of_int 30) = 30"
    using Number_of_string_of_int [of 12] Number_of_string_of_int [of 30] by (simp_all add: parseValue_def trunc_def)
  then show ?thesis by (simp add: values_of_def sample_purchases_def map_filter_simps)
qed

theorem aggregator_counts_and_sums_witness:
  "\<lparr>ag_key = Some ''purchase'', ag_count = string_of_int 2, ag_sum = string_of_int 42, ag_avg = Finite (fl (42 / 2))\<rparr>
   \<in> set (aggregator_results plain_lib (aggregate sample_purchases))"
  using aggregator_counts_and_sums [of sample_purchases "''purchase''" plain_lib]
  by (simp add: sample_values exact_sums_def prints_integers_def plain_lib_def)

end
