(* ===== verification/Ingest.thy ===== *)
theory Ingest
  imports Pipeline_Types
begin

text \<open>
  The ingest service (\<open>apps/demo-domain/ingest-service/src/ingest-service.ts\<close> and
  \<open>workitem-generator.ts\<close>).  A call streams the lines of a file, or generated work items.  What the
  environment decides between two iterations of a loop - whether the call has been cancelled, and
  what the clock shows - comes with each line or iteration; random numbers are a supply.
\<close>

record ingest_request =
  iq_inputFile :: string
  iq_batchSize :: js_number
  iq_maxEvents :: string
  iq_enableBatching :: "bool option"
  iq_workloadMode :: "workload_mode option"
  iq_workloadConfig :: "workload_config option"

definition parseMaxEvents :: "string \<Rightarrow> js_number" where
  "parseMaxEvents value =
     (case Number_of value of
        Finite q \<Rightarrow> if q \<le> 0 then Infinite True else Finite (of_int (trunc q))
      | _ \<Rightarrow> Infinite True)"

definition positive :: "js_number \<Rightarrow> bool" where
  "positive x = (case x of Finite q \<Rightarrow> 0 < q | Infinite p \<Rightarrow> p | NaN \<Rightarrow> False)"

definition ingest_batch_size :: "ingest_request \<Rightarrow> js_number" where
  "ingest_batch_size r = (if positive (iq_batchSize r) then iq_batchSize r else Finite 100)"

definition ingest_file :: "string \<Rightarrow> ingest_request \<Rightarrow> string" where
  "ingest_file defaultInputFile r = (if length (iq_inputFile r) > 0 then iq_inputFile r else defaultInputFile)"

subsection \<open>Streaming the lines of a file\<close>

text \<open>A line, whether the call is cancelled by then, and the clock before and after a flush.\<close>

record line_read =
  lr_line :: string
  lr_cancelled :: bool
  lr_now :: int
  lr_later :: int

record ingest =
  in_sequence :: nat
  in_batch :: "raw_event list"
  in_batchStart :: int
  in_sent :: "raw_event list"
  in_streamed :: nat

definition send_all :: "raw_event list \<Rightarrow> ingest \<Rightarrow> ingest" where
  "send_all msgs s = s\<lparr>in_sent := in_sent s @ msgs, in_streamed := in_streamed s + length msgs\<rparr>"

definition ingest_line :: "ingest_request \<Rightarrow> line_read \<Rightarrow> ingest \<Rightarrow> ingest" where
  "ingest_line r l s =
     (let response = \<lparr>ev_rawJson = lr_line l, ev_sequence = string_of_int (int (in_sequence s))\<rparr>;
          s = (if nullish (iq_enableBatching r) False
               then (let s = s\<lparr>in_batch := in_batch s @ [response]\<rparr>;
                         shouldFlush = reaches (length (in_batch s)) (ingest_batch_size r) \<or> lr_now l - in_batchStart s > 10
                     in if shouldFlush
                        then (send_all (in_batch s) s)\<lparr>in_batch := [], in_batchStart := lr_later l\<rparr> else s)
               else send_all [response] s)
      in s\<lparr>in_sequence := in_sequence s + 1\<rparr>)"

fun ingest_lines :: "ingest_request \<Rightarrow> line_read list \<Rightarrow> ingest \<Rightarrow> ingest" where
  "ingest_lines r [] s = s"
| "ingest_lines r (l # ls) s =
     (if lr_cancelled l then s
      else if reaches (in_sequence s) (parseMaxEvents (iq_maxEvents r)) then s
      else ingest_lines r ls (ingest_line r l s))"

definition run_events :: "ingest_request \<Rightarrow> int \<Rightarrow> line_read list \<Rightarrow> nat \<Rightarrow> ingest" where
  "run_events r start ls streamed =
     (let s = ingest_lines r ls \<lparr>in_sequence = 0, in_batch = [], in_batchStart = start, in_sent = [], in_streamed = streamed\<rparr>
      in if nullish (iq_enableBatching r) False \<and> length (in_batch s) > 0 then send_all (in_batch s) s else s)"

subsection \<open>Generating work items\<close>

definition getSizeFromConfig :: "payload_size \<Rightarrow> nat" where
  "getSizeFromConfig payloadSize = (case payloadSize of LARGE \<Rightarrow> 20 | MEDIUM \<Rightarrow> 10 | SMALL \<Rightarrow> 5)"

definition baseText :: string where
  "baseText = ''Lorem ipsum dolor sit amet, consectetur adipiscing elit. ''"

definition generateText :: "payload_size \<Rightarrow> string" where
  "generateText payloadSize =
     (let repetitions = (if payloadSize = LARGE then 50 else if payloadSize = MEDIUM then 20 else 5)
      in concat (replicate repetitions baseText))"

text \<open>\<open>count\<close> vectors of \<open>size\<close> random values, from the random number \<open>n\<close> on.\<close>

definition generateVectors :: "(nat \<Rightarrow> rat) \<Rightarrow> nat \<Rightarrow> nat \<Rightarrow> nat \<Rightarrow> json" where
  "generateVectors random n count sz =
     JArr (map (\<lambda>i. JObj [(''values'', JArr (map (\<lambda>j. JNum (random (n + i * sz + j))) [0..<sz]))]) [0..<count])"

definition generateMatrix :: "(nat \<Rightarrow> rat) \<Rightarrow> nat \<Rightarrow> nat \<Rightarrow> nat \<Rightarrow> json" where
  "generateMatrix random n rows cols = JObj [(''rows'', generateVectors random n rows cols)]"

definition generateWorkItem :: "(nat \<Rightarrow> rat) \<Rightarrow> nat \<Rightarrow> string \<Rightarrow> workload_config \<Rightarrow> json" where
  "generateWorkItem random n itemId c =
     (let sz = getSizeFromConfig (wc_payloadSize c);
          iterations = (case wc_computeIterations c of Finite q \<Rightarrow> if q > 0 then q else 500 | _ \<Rightarrow> 500)
      in JObj [(''id'', JStr itemId), (''vectors'', generateVectors random n 2 sz),
               (''matrix'', generateMatrix random (n + 2 * sz) sz sz),
               (''text'', JStr (generateText (wc_payloadSize c))), (''iterations'', JNum iterations)])"

definition padStart :: "nat \<Rightarrow> char \<Rightarrow> string \<Rightarrow> string" where
  "padStart n c s = replicate (n - length s) c @ s"

definition workload_config_of :: "ingest_request \<Rightarrow> workload_config" where
  "workload_config_of r =
     nullish (iq_workloadConfig r) \<lparr>wc_workRatio = 0, wc_payloadSize = MEDIUM, wc_computeIterations = Finite 500\<rparr>"

text \<open>
  The loop of the work item mode: one flag per iteration says whether the call is cancelled by then.
  The second result says whether the loop has ended.
\<close>

fun work_items :: "(json \<Rightarrow> string) \<Rightarrow> (nat \<Rightarrow> nat \<Rightarrow> rat) \<Rightarrow> ingest_request \<Rightarrow> bool list \<Rightarrow> nat \<Rightarrow> raw_event list \<times> bool" where
  "work_items stringify random r [] sequence = ([], reaches sequence (parseMaxEvents (iq_maxEvents r)))"
| "work_items stringify random r (cancelled # cs) sequence =
     (if reaches sequence (parseMaxEvents (iq_maxEvents r)) \<or> cancelled then ([], True)
      else (let itemId = ''w-'' @ padStart 6 (CHR ''0'') (string_of_int (int sequence));
                response = \<lparr>ev_rawJson = stringify (generateWorkItem (random sequence) 0 itemId (workload_config_of r)),
                            ev_sequence = string_of_int (int sequence)\<rparr>;
                (rest, ended) = work_items stringify random r cs (sequence + 1)
            in (response # rest, ended)))"

text \<open>The whole call: the messages it writes.\<close>

definition streamEvents ::
  "(json \<Rightarrow> string) \<Rightarrow> (nat \<Rightarrow> nat \<Rightarrow> rat) \<Rightarrow> ingest_request \<Rightarrow> int \<Rightarrow> line_read list \<Rightarrow> bool list \<Rightarrow> raw_event list" where
  "streamEvents stringify random r start ls cancelled =
     (if nullish (iq_workloadMode r) EVENTS = WORK_ITEMS then fst (work_items stringify random r cancelled 0)
      else in_sent (run_events r start ls 0))"

subsection \<open>What is streamed\<close>

fun numbered_from :: "nat \<Rightarrow> string list \<Rightarrow> raw_event list" where
  "numbered_from n [] = []"
| "numbered_from n (l # ls) = \<lparr>ev_rawJson = l, ev_sequence = string_of_int (int n)\<rparr> # numbered_from (Suc n) ls"

lemma length_numbered_from [simp]: "length (numbered_from n ls) = length ls"
  by (induction ls arbitrary: n) simp_all

text \<open>The lines that are read before the call is cancelled or has its maximum.\<close>

definition lines_taken :: "ingest_request \<Rightarrow> nat \<Rightarrow> line_read list \<Rightarrow> string list" where
  "lines_taken r n ls =
     (let present = map lr_line (takeWhile (\<lambda>l. \<not> lr_cancelled l) ls) in
      case parseMaxEvents (iq_maxEvents r) of
        Finite q \<Rightarrow> take (nat \<lceil>q\<rceil> - n) present
      | _ \<Rightarrow> present)"

lemma trunc_nonneg: "0 < q \<Longrightarrow> of_int (trunc q) = (of_nat (nat (trunc q)) :: rat)"
proof -
  assume "0 < q"
  then have "0 \<le> trunc q" unfolding trunc_def by simp
  then show ?thesis by (rule of_nat_nat [symmetric])
qed

lemma max_events_form: "parseMaxEvents v = Infinite True \<or> (\<exists>k. parseMaxEvents v = Finite (of_nat k))"
proof (cases "Number_of v")
  case (Finite q)
  show ?thesis
  proof (cases "q \<le> 0")
    case False
    then have "parseMaxEvents v = Finite (of_int (trunc q))" unfolding parseMaxEvents_def Finite by simp
    moreover have "0 < q" using False by simp
    ultimately show ?thesis unfolding trunc_nonneg [OF \<open>0 < q\<close>] by blast
  qed (simp add: parseMaxEvents_def Finite)
qed (simp_all add: parseMaxEvents_def)

lemma max_events_cases:
  obtains "parseMaxEvents v = Infinite True" | k where "parseMaxEvents v = Finite (of_nat k)"
  using max_events_form [of v] by blast

lemma lines_taken_simps:
  "lines_taken r n [] = []"
  "lines_taken r n (l # ls) =
     (if lr_cancelled l \<or> reaches n (parseMaxEvents (iq_maxEvents r)) then [] else lr_line l # lines_taken r (Suc n) ls)"
proof -
  show "lines_taken r n [] = []" by (simp add: lines_taken_def split: js_number.split)
  show "lines_taken r n (l # ls) =
     (if lr_cancelled l \<or> reaches n (parseMaxEvents (iq_maxEvents r)) then [] else lr_line l # lines_taken r (Suc n) ls)"
  proof (cases rule: max_events_cases [of "iq_maxEvents r"])
    case (2 k)
    have "\<not> k \<le> n \<Longrightarrow> k - n = Suc (k - Suc n)" by simp
    with 2 show ?thesis by (auto simp: lines_taken_def)
  qed (simp add: lines_taken_def)
qed

lemma ingest_lines_sent:
  "(\<not> nullish (iq_enableBatching r) False \<longrightarrow> in_batch s = []) \<Longrightarrow>
   in_sent (ingest_lines r ls s) @ in_batch (ingest_lines r ls s) =
     in_sent s @ in_batch s @ numbered_from (in_sequence s) (lines_taken r (in_sequence s) ls)
   \<and> (\<not> nullish (iq_enableBatching r) False \<longrightarrow> in_batch (ingest_lines r ls s) = [])
   \<and> in_streamed (ingest_lines r ls s) + length (in_sent s) = in_streamed s + length (in_sent (ingest_lines r ls s))"
proof (induction ls arbitrary: s)
  case (Cons l ls)
  let ?t = "ingest_line r l s"
  have t: "in_sequence ?t = Suc (in_sequence s)"
    "in_sent ?t @ in_batch ?t = in_sent s @ in_batch s @ [\<lparr>ev_rawJson = lr_line l, ev_sequence = string_of_int (int (in_sequence s))\<rparr>]"
    "\<not> nullish (iq_enableBatching r) False \<longrightarrow> in_batch ?t = []"
    "in_streamed ?t + length (in_sent s) = in_streamed s + length (in_sent ?t)"
    using Cons.prems by (auto simp: ingest_line_def send_all_def Let_def)
  show ?case
  proof (cases "lr_cancelled l \<or> reaches (in_sequence s) (parseMaxEvents (iq_maxEvents r))")
    case True
    with Cons.prems show ?thesis by (auto simp: lines_taken_simps)
  next
    case False
    with Cons.IH [of ?t] t show ?thesis by (auto simp: lines_taken_simps simp flip: append_assoc)
  qed
qed (simp add: lines_taken_simps)

lemma run_events_facts:
  "in_sent (run_events r start ls streamed) = numbered_from 0 (lines_taken r 0 ls)
   \<and> in_streamed (run_events r start ls streamed) = streamed + length (lines_taken r 0 ls)"
proof -
  let ?s = "\<lparr>in_sequence = 0, in_batch = [], in_batchStart = start, in_sent = [], in_streamed = streamed\<rparr>"
  from ingest_lines_sent [of r ?s ls]
  have f: "in_sent (ingest_lines r ls ?s) @ in_batch (ingest_lines r ls ?s) = numbered_from 0 (lines_taken r 0 ls)"
    "\<not> nullish (iq_enableBatching r) False \<longrightarrow> in_batch (ingest_lines r ls ?s) = []"
    "in_streamed (ingest_lines r ls ?s) = streamed + length (in_sent (ingest_lines r ls ?s))" by auto
  have "in_sent (run_events r start ls streamed) = in_sent (ingest_lines r ls ?s) @ in_batch (ingest_lines r ls ?s)
    \<and> in_streamed (run_events r start ls streamed) =
        streamed + length (in_sent (ingest_lines r ls ?s) @ in_batch (ingest_lines r ls ?s))"
    using f(2,3) by (auto simp: run_events_def send_all_def Let_def)
  then show ?thesis unfolding f(1) by simp
qed

lemma run_events_sent: "in_sent (run_events r start ls streamed) = numbered_from 0 (lines_taken r 0 ls)"
  using run_events_facts by blast

text \<open>C31.
  Ingesting a file streams its lines in order, numbered from 0: those read before the call is
  cancelled, at most the requested maximum (all of them for a maximum that is not a positive
  number).  Neither batching nor the batch size nor the clock changes what is streamed, and the
  counter of streamed events grows by exactly that many.\<close>

theorem ingest_streams_numbered_lines:
  "in_sent (run_events r start ls streamed) = numbered_from 0 (lines_taken r 0 ls)
   \<and> in_streamed (run_events r start ls streamed) = streamed + length (lines_taken r 0 ls)"
  by (rule run_events_facts)

end
