(* ===== verification/Generator.thy ===== *)
theory Generator
  imports Pipeline_Types "HOL-Library.Word"
begin

unbundle bit_operations_syntax

text \<open>
  The event generator (\<open>apps/demo-domain/event-generator/src/generator.ts\<close>).  The seeded random
  number generator works on 32-bit integers: \<open>| 0\<close> and \<open>Math.imul\<close> are arithmetic on \<open>32 word\<close>,
  \<open>>>>\<close> is the logical shift.  Without a seed the numbers come from \<open>Math.random\<close>, a supply.
\<close>

type_synonym int32 = "32 word"

datatype rng = Seeded int32 | Supply "nat \<Rightarrow> rat" nat

definition mulberry_advance :: "int32 \<Rightarrow> int32" where
  "mulberry_advance v = v + 0x6d2b79f5"

definition mulberry_output :: "int32 \<Rightarrow> int32" where
  "mulberry_output v =
     (let t = (v XOR drop_bit 15 v) * (1 OR v);
          t = t XOR (t + (t XOR drop_bit 7 t) * (61 OR t))
      in t XOR drop_bit 14 t)"

definition createRng :: "int option \<Rightarrow> (nat \<Rightarrow> rat) \<Rightarrow> rng" where
  "createRng seed random = (case seed of None \<Rightarrow> Supply random 0 | Some n \<Rightarrow> Seeded (word_of_int n))"

fun next_random :: "rng \<Rightarrow> rat \<times> rng" where
  "next_random (Seeded v) =
     (let v = mulberry_advance v in (of_nat (unat (mulberry_output v)) / 4294967296, Seeded v))"
| "next_random (Supply f n) = (f n, Supply f (n + 1))"

text \<open>\<open>Math.floor(rng() * n)\<close>.\<close>

definition random_below :: "int \<Rightarrow> rng \<Rightarrow> int \<times> rng" where
  "random_below n g = (let (x, g) = next_random g in (\<lfloor>fl (x * of_int n)\<rfloor>, g))"

definition toUserId :: "int \<Rightarrow> string" where
  "toUserId index = (let s = string_of_int index in CHR ''u'' # replicate (4 - length s) (CHR ''0'') @ s)"

record user_picker =
  up_burstRemaining :: int
  up_burstUser :: int

text \<open>The cube of \<open>Math.pow\<close> is taken as correctly rounded.\<close>

definition pick_user ::
  "int \<Rightarrow> generator_distribution \<Rightarrow> user_picker \<Rightarrow> rng \<Rightarrow> int \<times> user_picker \<times> rng" where
  "pick_user userCount distribution p g =
     (if distribution = Burst \<and> up_burstRemaining p > 0
      then (up_burstUser p, p\<lparr>up_burstRemaining := up_burstRemaining p - 1\<rparr>, g)
      else
        (let (burst, g) = (if distribution = Burst then (let (x, g) = next_random g in (x < fl (2 / 100), g)) else (False, g))
         in if burst
            then (let (len, g) = random_below 200 g; (user, g) = random_below userCount g
                  in (user, p\<lparr>up_burstRemaining := 50 + len - 1, up_burstUser := user\<rparr>, g))
            else if distribution = Zipf
            then (let (x, g) = next_random g; skewed = fl (x ^ 3) in (\<lfloor>fl (skewed * of_int userCount)\<rfloor>, p, g))
            else (let (user, g) = random_below userCount g in (user, p, g))))"

definition normalizeEventTypes :: "string list \<Rightarrow> string list" where
  "normalizeEventTypes eventTypes =
     (if length eventTypes > 0 then eventTypes else [''click'', ''view'', ''purchase''])"

definition validateConfig :: "generator_config \<Rightarrow> string option" where
  "validateConfig c =
     (if gc_eventCount c \<le> 0 then Some ''eventCount must be a positive integer''
      else if gc_userCount c \<le> 0 then Some ''userCount must be a positive integer''
      else if length (trim (gc_outputFile c)) = 0 then Some ''outputFile must be provided''
      else if length (gc_eventTypes c) = 0 then Some ''eventTypes must include at least one entry''
      else None)"

definition nextTimestamp :: "int \<Rightarrow> rng \<Rightarrow> int \<times> rng" where
  "nextTimestamp currentMs g = (let (d, g) = random_below 1000 g in (currentMs + (250 + d), g))"

definition pickEventType :: "string list \<Rightarrow> rng \<Rightarrow> string \<times> rng" where
  "pickEventType eventTypes g =
     (let (index, g) = random_below (int (length eventTypes)) g
      in (if 0 \<le> index \<and> nat index < length eventTypes then eventTypes ! nat index else hd eventTypes, g))"

record generated_event =
  ge_ts :: int
  ge_type :: string
  ge_user :: string
  ge_value :: int
  ge_seq :: nat

record generator_state =
  gs_time :: int
  gs_picker :: user_picker
  gs_rng :: rng

definition generate_one ::
  "generator_config \<Rightarrow> string list \<Rightarrow> nat \<Rightarrow> generator_state \<Rightarrow> generated_event \<times> generator_state" where
  "generate_one c types i s =
     (let (t, g) = nextTimestamp (gs_time s) (gs_rng s);
          (type, g) = pickEventType types g;
          (user, p, g) = pick_user (gc_userCount c) (nullish (gc_distribution c) Uniform) (gs_picker s) g;
          (v, g) = random_below 100 g
      in (\<lparr>ge_ts = t, ge_type = type, ge_user = toUserId user, ge_value = v + 1, ge_seq = i\<rparr>,
          \<lparr>gs_time = t, gs_picker = p, gs_rng = g\<rparr>))"

fun generate_loop ::
  "generator_config \<Rightarrow> string list \<Rightarrow> nat \<Rightarrow> nat \<Rightarrow> generator_state \<Rightarrow> generated_event list" where
  "generate_loop c types i 0 s = []"
| "generate_loop c types i (Suc n) s =
     (let (e, s) = generate_one c types i s in e # generate_loop c types (i + 1) n s)"

text \<open>The events of the file, or the error of the configuration check.\<close>

definition generateEvents :: "generator_config \<Rightarrow> (nat \<Rightarrow> rat) \<Rightarrow> int \<Rightarrow> string + generated_event list" where
  "generateEvents c random now =
     (let types = normalizeEventTypes (gc_eventTypes c) in
      case validateConfig (c\<lparr>gc_eventTypes := types\<rparr>) of
        Some e \<Rightarrow> Inl e
      | None \<Rightarrow> Inr (generate_loop c types 0 (nat (gc_eventCount c))
          \<lparr>gs_time = now, gs_picker = \<lparr>up_burstRemaining = 0, up_burstUser = 0\<rparr>, gs_rng = createRng (gc_seed c) random\<rparr>))"

subsection \<open>Random numbers stay below one\<close>

text \<open>What is known of a number from \<open>Math.random()\<close>: it is a double, at least 0 and less than 1.\<close>

definition unit_random :: "rat \<Rightarrow> bool" where
  "unit_random x \<longleftrightarrow> 0 \<le> x \<and> x < 1 \<and> fl x = x"

definition good_rng :: "rng \<Rightarrow> bool" where
  "good_rng g = (case g of Seeded v \<Rightarrow> True | Supply f n \<Rightarrow> (\<forall>k. unit_random (f k)))"

text \<open>The largest double below 1.\<close>

definition below_one :: "rat \<Rightarrow> bool" where
  "below_one x \<longleftrightarrow> 0 \<le> x \<and> x \<le> 1 - 1 / 2 ^ 53"

lemma unit_random_below: "unit_random x \<Longrightarrow> below_one x"
proof -
  assume x: "unit_random x"
  have "x \<le> 1 - 1 / 2 ^ 53"
  proof (rule ccontr)
    assume "\<not> ?thesis"
    then have lo: "1 - 1 / 2 ^ 53 < x" by simp
    have hi: "x < 1" "fl x = x" "0 < x" using x lo by (simp_all add: unit_random_def)
    have "lead_exp x = - 1" by (rule lead_exp_unique) (use lo hi in \<open>simp_all add: power_int_minus\<close>)
    then have "last_exp x = - 53" by (simp add: last_exp_def)
    then have "fl x = of_int (round_half_even (x / 2 powi (- 53))) * 2 powi (- 53)"
      using hi(3) by (simp add: fl_def fl_pos_def)
    then obtain m :: int where m: "x = of_int m * 2 powi (- 53)" using hi(2) by metis
    have "of_int (2 ^ 53 - 1) < (of_int m :: rat)" "of_int m < (of_int (2 ^ 53) :: rat)"
      using lo hi(1) by (simp_all add: m power_int_minus field_simps)
    then have "2 ^ 53 - 1 < m" "m < 2 ^ 53" by (simp_all only: of_int_less_iff)
    then show False by simp
  qed
  with x show ?thesis by (simp add: unit_random_def below_one_def)
qed

lemma next_random_unit:
  assumes "good_rng g"
  shows "below_one (fst (next_random g)) \<and> good_rng (snd (next_random g))"
proof (cases g)
  case (Seeded v)
  define n where "n = unat (mulberry_output (mulberry_advance v))"
  have "n < 2 ^ 32" using unsigned_less [of "mulberry_output (mulberry_advance v)", where ?'a = nat] by (simp add: n_def)
  then have "n + 1 \<le> 4294967296" by simp
  then have "(of_nat (n + 1) :: rat) \<le> of_nat 4294967296" by (simp only: of_nat_le_iff)
  then have "below_one (of_nat n / 4294967296)" by (simp add: below_one_def field_simps)
  moreover have "fst (next_random (Seeded v)) = of_nat n / 4294967296" by (simp only: next_random.simps n_def Let_def fst_conv)
  ultimately show ?thesis using Seeded by (simp add: good_rng_def Let_def)
qed (use assms in \<open>simp add: good_rng_def unit_random_below\<close>)

lemma fl_positive: "0 < q \<Longrightarrow> fl q = of_int (round_half_even (q / 2 powi last_exp q)) * 2 powi last_exp q"
  by (simp add: fl_def fl_pos_def)

text \<open>The largest double below 1 times an integer is rounded to less than the integer.\<close>

lemma fl_largest_times:
  assumes "0 < n" "n \<le> 2 ^ 53"
  shows "fl (of_int n - of_int n / 2 ^ 53) < of_int n"
proof -
  let ?b = "of_int n - of_int n / 2 ^ 53 :: rat"
  define e where "e = nat (lead_exp (of_int n))"
  have n: "(1::rat) \<le> of_int n" "(of_int n :: rat) \<le> 2 ^ 53"
    using assms by simp_all
  have l: "2 powi lead_exp (of_int n) \<le> (of_int n :: rat)" "of_int n < (2::rat) powi (lead_exp (of_int n) + 1)"
    using lead_exp_bounds [of "of_int n"] n(1) by simp_all
  have "(2::rat) powi 0 < 2 powi (lead_exp (of_int n) + 1)" using n(1) l(2) by (simp only: power_int_0_right)
  then have "0 \<le> lead_exp (of_int n)" by (simp only: two_powi_less_iff)
  then have e: "lead_exp (of_int n) = int e" by (simp add: e_def)
  have b: "(2::rat) ^ e \<le> of_int n" "of_int n < (2::rat) ^ Suc e"
    using l unfolding e by (simp_all add: power_int_add)
  have "(of_int (2 ^ e) :: rat) \<le> of_int n" using b(1) by simp
  then have i: "2 ^ e \<le> n" by (simp only: of_int_le_iff)
  have "(2::int) ^ e \<le> 2 ^ 53" using i assms(2) by linarith
  then have e53: "e \<le> 53" by (simp only: power_increasing_iff one_less_numeral_iff semiring_norm)
  show ?thesis
  proof (cases "n = 2 ^ e")
    case True
    have "?b = of_int (2 ^ 53 - 1) * 2 powi (int e - 53)" by (simp add: True power_int_diff field_simps)
    then have "fl ?b = ?b" using fl_dyadic [of "2 ^ 53 - 1" "int e - 53"] by simp
    then show ?thesis using n(1) by simp
  next
    case False
    with i have i1: "2 ^ e + 1 \<le> n" by simp
    then have "(of_int (2 ^ e + 1) :: rat) \<le> of_int n" by (simp only: of_int_le_iff)
    then have r: "(2::rat) ^ e + 1 \<le> of_int n" by simp
    have "e \<noteq> 53" using i1 assms(2) by auto
    with e53 have e52: "e \<le> 52" by simp
    have lo: "(2::rat) ^ e \<le> ?b" using r n(2) by (simp add: field_simps)
    have hi: "?b < 2 ^ Suc e" by (rule le_less_trans [OF _ b(2)]) (use n(1) in simp)
    have "lead_exp ?b = int e" by (rule lead_exp_unique) (use lo hi in \<open>simp_all add: power_int_add\<close>)
    then have k: "last_exp ?b = int e - 52" by (simp add: last_exp_def)
    define N where "N = n * 2 ^ (52 - e)"
    have split: "(2::rat) powi (int e - 52) = 1 / 2 ^ (52 - e)"
      using e52 by (simp add: power_int_def of_nat_diff nat_diff_distrib inverse_eq_divide power_one_over)
    have q: "?b / 2 powi (int e - 52) = of_int (N - 1) + (1 - of_int n / 2 ^ Suc e)"
    proof -
      have "(2::rat) ^ 53 = 2 ^ (52 - e) * 2 ^ Suc e" using e52 by (simp flip: power_add)
      then show ?thesis by (simp add: split N_def field_simps)
    qed
    have d: "0 < 1 - of_int n / (2::rat) ^ Suc e" "1 - of_int n / (2::rat) ^ Suc e < 1 / 2"
      using b r i1 by (simp_all add: field_simps)
    then have "\<lfloor>of_int (N - 1) + (1 - of_int n / (2::rat) ^ Suc e)\<rfloor> = N - 1" by linarith
    then have m: "round_half_even (?b / 2 powi (int e - 52)) = N - 1"
      using d(2) unfolding q by (simp add: round_half_even_def Let_def)
    have "0 < ?b" using lo by (rule less_le_trans [rotated]) simp
    from fl_positive [OF this, unfolded k m] have "fl ?b = of_int (N - 1) * 2 powi (int e - 52)" .
    also have "\<dots> < of_int n" by (simp add: split N_def field_simps)
    finally show ?thesis .
  qed
qed

lemma fl_below:
  assumes "below_one x" "0 < n" "n \<le> 2 ^ 53"
  shows "0 \<le> \<lfloor>fl (x * of_int n)\<rfloor> \<and> \<lfloor>fl (x * of_int n)\<rfloor> < n"
proof -
  have x: "0 \<le> x" "x \<le> 1 - 1 / 2 ^ 53" using assms(1) by (simp_all add: below_one_def)
  have n: "(0::rat) < of_int n" using assms(2) by simp
  have "x * of_int n \<le> of_int n - of_int n / 2 ^ 53"
    using mult_right_mono [OF x(2), of "of_int n"] n by (simp add: algebra_simps)
  then have "fl (x * of_int n) \<le> fl (of_int n - of_int n / 2 ^ 53)" by (rule fl_mono)
  also have "\<dots> < of_int n" by (rule fl_largest_times [OF assms(2,3)])
  finally have "fl (x * of_int n) < of_int n" .
  moreover have "0 \<le> fl (x * of_int n)" using x(1) n by (intro fl_nonneg) simp
  ultimately show ?thesis by (simp add: floor_less_iff)
qed

lemma random_below_bounds:
  assumes "good_rng g" "0 < n" "n \<le> 2 ^ 53"
  shows "0 \<le> fst (random_below n g) \<and> fst (random_below n g) < n \<and> good_rng (snd (random_below n g))"
  using next_random_unit [OF assms(1)] fl_below [OF _ assms(2,3), of "fst (next_random g)"]
  by (simp add: random_below_def case_prod_beta Let_def)

lemma cube_unit: "below_one x \<Longrightarrow> below_one (fl (x ^ 3))"
proof -
  assume x: "below_one x"
  then have "x ^ 3 \<le> x ^ 1" by (intro power_decreasing) (simp_all add: below_one_def)
  moreover have b: "x \<le> of_int (2 ^ 53 - 1) * 2 powi (- 53)"
    using x by (simp add: below_one_def power_int_minus field_simps)
  ultimately have "x ^ 3 \<le> of_int (2 ^ 53 - 1) * 2 powi (- 53)" by simp
  then have "fl (x ^ 3) \<le> fl (of_int (2 ^ 53 - 1) * 2 powi (- 53))" by (rule fl_mono)
  also have "\<dots> = of_int (2 ^ 53 - 1) * 2 powi (- 53)" by (rule fl_dyadic) simp_all
  finally have "fl (x ^ 3) \<le> 1 - 1 / 2 ^ 53" by (simp add: power_int_minus field_simps)
  moreover have "0 \<le> fl (x ^ 3)" using x by (intro fl_nonneg) (simp add: below_one_def)
  ultimately show ?thesis by (simp add: below_one_def)
qed

definition picker_ok :: "int \<Rightarrow> user_picker \<Rightarrow> bool" where
  "picker_ok n p \<longleftrightarrow> 0 \<le> up_burstUser p \<and> up_burstUser p < n"

lemma pick_user_bounds:
  assumes "good_rng g" "0 < n" "n \<le> 2 ^ 53" "picker_ok n p"
  shows "0 \<le> fst (pick_user n d p g) \<and> fst (pick_user n d p g) < n
    \<and> picker_ok n (fst (snd (pick_user n d p g))) \<and> good_rng (snd (snd (pick_user n d p g)))"
proof -
  define b where "b = (if d = Burst then (let (x, g) = next_random g in (x < fl (2 / 100), g)) else (False, g))"
  have g1: "good_rng (snd b)" using next_random_unit [OF assms(1)] assms(1) by (simp add: b_def case_prod_beta Let_def)
  note r1 = random_below_bounds [OF g1, of 200]
  then have g2: "good_rng (snd (random_below 200 (snd b)))" by simp
  note r2 = random_below_bounds [OF g2 assms(2,3)]
  note z = next_random_unit [OF g1]
  note z2 = fl_below [OF cube_unit [OF conjunct1 [OF z]] assms(2,3)]
  note r3 = random_below_bounds [OF g1 assms(2,3)]
  show ?thesis
    using assms(1,4) g1 r2 z z2 r3 unfolding pick_user_def b_def [symmetric]
    by (simp add: picker_ok_def case_prod_beta Let_def)
qed

subsection \<open>What is generated\<close>

text \<open>An event that fits the configuration and follows an event at time \<open>t\<close>.\<close>

definition fits :: "generator_config \<Rightarrow> string list \<Rightarrow> int \<Rightarrow> generated_event \<Rightarrow> bool" where
  "fits c types t e \<longleftrightarrow> t + 250 \<le> ge_ts e \<and> ge_ts e < t + 1250 \<and> ge_type e \<in> set types \<and>
     1 \<le> ge_value e \<and> ge_value e \<le> 100 \<and> ge_user e \<in> toUserId ` {0..<gc_userCount c}"

fun all_fit :: "generator_config \<Rightarrow> string list \<Rightarrow> int \<Rightarrow> generated_event list \<Rightarrow> bool" where
  "all_fit c types t [] = True"
| "all_fit c types t (e # es) = (fits c types t e \<and> all_fit c types (ge_ts e) es)"

lemma generate_one_fits:
  assumes "good_rng (gs_rng s)" "picker_ok (gc_userCount c) (gs_picker s)" "0 < gc_userCount c" "gc_userCount c \<le> 2 ^ 53"
    "types \<noteq> []" "int (length types) \<le> 2 ^ 53"
  shows "fits c types (gs_time s) (fst (generate_one c types i s)) \<and> ge_seq (fst (generate_one c types i s)) = i
    \<and> gs_time (snd (generate_one c types i s)) = ge_ts (fst (generate_one c types i s))
    \<and> good_rng (gs_rng (snd (generate_one c types i s)))
    \<and> picker_ok (gc_userCount c) (gs_picker (snd (generate_one c types i s)))"
proof -
  define a where "a = nextTimestamp (gs_time s) (gs_rng s)"
  have a: "gs_time s + 250 \<le> fst a" "fst a < gs_time s + 1250" "good_rng (snd a)"
    using random_below_bounds [OF assms(1), of 1000] by (simp_all add: a_def nextTimestamp_def case_prod_beta Let_def)
  define k where "k = pickEventType types (snd a)"
  have k: "fst k \<in> set types" "good_rng (snd k)"
    using random_below_bounds [OF a(3), of "int (length types)"] assms(5,6)
    by (auto simp: k_def pickEventType_def case_prod_beta Let_def)
  define u where "u = pick_user (gc_userCount c) (nullish (gc_distribution c) Uniform) (gs_picker s) (snd k)"
  have u: "0 \<le> fst u" "fst u < gc_userCount c" "picker_ok (gc_userCount c) (fst (snd u))" "good_rng (snd (snd u))"
    using pick_user_bounds [OF k(2) assms(3,4,2)] by (simp_all add: u_def)
  have v: "0 \<le> fst (random_below 100 (snd (snd u)))" "fst (random_below 100 (snd (snd u))) < 100"
    "good_rng (snd (random_below 100 (snd (snd u))))"
    using random_below_bounds [OF u(4), of 100] by simp_all
  have one: "generate_one c types i s =
      (\<lparr>ge_ts = fst a, ge_type = fst k, ge_user = toUserId (fst u), ge_value = fst (random_below 100 (snd (snd u))) + 1, ge_seq = i\<rparr>,
       \<lparr>gs_time = fst a, gs_picker = fst (snd u), gs_rng = snd (random_below 100 (snd (snd u)))\<rparr>)"
    by (simp add: generate_one_def a_def k_def u_def case_prod_beta Let_def)
  show ?thesis unfolding one using a k u v by (simp add: fits_def)
qed

lemma generate_loop_fits:
  assumes "good_rng (gs_rng s)" "picker_ok (gc_userCount c) (gs_picker s)" "0 < gc_userCount c" "gc_userCount c \<le> 2 ^ 53"
    "types \<noteq> []" "int (length types) \<le> 2 ^ 53"
  shows "all_fit c types (gs_time s) (generate_loop c types i n s)
    \<and> map ge_seq (generate_loop c types i n s) = [i..<i + n]"
  using assms
proof (induction n arbitrary: i s)
  case (Suc n)
  note one = generate_one_fits [OF Suc.prems, of i]
  then have "all_fit c types (gs_time (snd (generate_one c types i s))) (generate_loop c types (i + 1) n (snd (generate_one c types i s)))
    \<and> map ge_seq (generate_loop c types (i + 1) n (snd (generate_one c types i s))) = [i + 1..<i + 1 + n]"
    by (intro Suc.IH Suc.prems(3-6)) simp_all
  with one show ?case by (simp add: case_prod_beta Let_def upt_conv_Cons)
qed simp

text \<open>C39.
  A configuration that passes the checks yields exactly the requested number of events, numbered
  from 0; each follows its predecessor by 250 to 1249 milliseconds, has one of the event types, a
  user below the user count and a value from 1 to 100, whatever the seed and the distribution.  Of
  the numbers that \<open>Math.random()\<close> gives when there is no seed, only what is documented is assumed:
  they are doubles from 0 up to, but not including, 1.\<close>

theorem generated_events_fit:
  assumes "generateEvents c random now = Inr es" "\<forall>k. unit_random (random k)"
    "gc_userCount c \<le> 2 ^ 53" "int (length (gc_eventTypes c)) \<le> 2 ^ 53"
  shows "int (length es) = gc_eventCount c \<and> map ge_seq es = [0..<length es]
    \<and> all_fit c (normalizeEventTypes (gc_eventTypes c)) now es"
proof -
  let ?types = "normalizeEventTypes (gc_eventTypes c)"
  let ?s = "\<lparr>gs_time = now, gs_picker = \<lparr>up_burstRemaining = 0, up_burstUser = 0\<rparr>, gs_rng = createRng (gc_seed c) random\<rparr>"
  have v: "0 < gc_eventCount c" "0 < gc_userCount c" and es: "es = generate_loop c ?types 0 (nat (gc_eventCount c)) ?s"
    using assms(1) by (auto simp: generateEvents_def validateConfig_def Let_def split: if_splits)
  have t: "?types \<noteq> []" "int (length ?types) \<le> 2 ^ 53" using assms(4) by (simp_all add: normalizeEventTypes_def)
  have g: "good_rng (gs_rng ?s)" using assms(2) by (simp add: createRng_def good_rng_def split: option.split)
  have p: "picker_ok (gc_userCount c) (gs_picker ?s)" using v(2) by (simp add: picker_ok_def)
  from generate_loop_fits [OF g p v(2) assms(3) t, of 0 "nat (gc_eventCount c)"]
  have f: "all_fit c ?types now es" "map ge_seq es = [0..<nat (gc_eventCount c)]" unfolding es by simp_all
  then have "length es = nat (gc_eventCount c)" by (metis length_map length_upt diff_zero)
  with f v(1) show ?thesis by simp
qed

definition sample_generator :: generator_config where
  "sample_generator = \<lparr>gc_eventCount = 3, gc_outputFile = ''e.ndjson'', gc_userCount = 10, gc_eventTypes = [],
     gc_seed = Some 42, gc_distribution = None\<rparr>"

theorem generated_events_fit_witness:
  "\<exists>es. generateEvents sample_generator (\<lambda>k. 0) 1000 = Inr es \<and> length es = 3 \<and>
     all_fit sample_generator [''click'', ''view'', ''purchase''] 1000 es"
proof -
  have "trim ''e.ndjson'' \<noteq> []" by code_simp
  then obtain es where es: "generateEvents sample_generator (\<lambda>k. 0) 1000 = Inr es"
    by (simp add: generateEvents_def validateConfig_def sample_generator_def normalizeEventTypes_def)
  from generated_events_fit [OF es] show ?thesis
    using es by (simp add: unit_random_def sample_generator_def normalizeEventTypes_def)
qed

text \<open>The first numbers of the generator with seed 1, as the JavaScript code prints them.\<close>

lemma mulberry_seed_one: "fst (next_random (Seeded 1)) = 2693262067 / 4294967296"
  by (simp add: mulberry_advance_def mulberry_output_def)

end
