(* ===== verification/Sse_Proxy.thy ===== *)
theory Sse_Proxy
  imports Dashboard_Stream
begin

text \<open>
  The server-sent-events proxy (\<open>apps/topology/src/topology-proxy.ts\<close>), between the watch stream of
  the topology service and the dashboards, and the order in which the three servers are started
  and stopped (\<open>topology.ts\<close>).  Connections and watch streams are numbered.
\<close>

datatype sse_output = Head | Retry | Event topology_update | Closed | Not_Found

record sse_proxy =
  ss_listeners :: "nat list"
  ss_lastSnapshot :: "topology_update option"
  ss_watchStream :: "nat option"
  ss_streams :: "nat list"
  ss_isStopping :: bool
  ss_fetching :: "nat list"
  ss_guarded :: "nat list"
  ss_delays :: nat
  ss_next :: nat
  ss_sent :: "nat \<Rightarrow> sse_output list"

datatype sse_event =
    Sse_Request nat string
  | Snapshot_Fetched nat "topology_snapshot option"
  | Connection_Closed nat
  | Watch_Data nat "topology_update option"
  | Watch_Failed nat
  | Watch_Ended nat
  | Reconnect_Delay_Over
  | Sse_Stop

definition send_to :: "nat \<Rightarrow> sse_output \<Rightarrow> sse_proxy \<Rightarrow> sse_proxy" where
  "send_to c out s = s\<lparr>ss_sent := (ss_sent s)(c := ss_sent s c @ [out])\<rparr>"

definition sse_broadcast :: "topology_update \<Rightarrow> sse_proxy \<Rightarrow> sse_proxy" where
  "sse_broadcast update s =
     (let s = (if tu_type update = UPDATE_TYPE_SNAPSHOT then s\<lparr>ss_lastSnapshot := Some update\<rparr> else s)
      in foldl (\<lambda>s c. send_to c (Event update) s) s (ss_listeners s))"

definition startWatchStream :: "sse_proxy \<Rightarrow> sse_proxy" where
  "startWatchStream s =
     (if ss_watchStream s \<noteq> None \<or> ss_isStopping s then s
      else s\<lparr>ss_watchStream := Some (ss_next s), ss_streams := ss_streams s @ [ss_next s], ss_next := ss_next s + 1\<rparr>)"

text \<open>A failed or ended stream: the reference is dropped, and a new stream is started a second later.\<close>

definition stream_lost :: "sse_proxy \<Rightarrow> sse_proxy" where
  "stream_lost s = (if ss_isStopping s then s else s\<lparr>ss_watchStream := None, ss_delays := ss_delays s + 1\<rparr>)"

definition handleStreamData :: "topology_update option \<Rightarrow> sse_proxy \<Rightarrow> sse_proxy" where
  "handleStreamData update s =
     (if ss_isStopping s then s else (case update of None \<Rightarrow> s | Some u \<Rightarrow> sse_broadcast u s))"

definition handleSse :: "nat \<Rightarrow> sse_proxy \<Rightarrow> sse_proxy" where
  "handleSse c s =
     (let s = send_to c Retry (send_to c Head s)
      in s\<lparr>ss_listeners := ss_listeners s @ [c], ss_fetching := ss_fetching s @ [c]\<rparr>)"

definition snapshot_update :: "topology_snapshot \<Rightarrow> topology_update" where
  "snapshot_update snap =
     \<lparr>tu_type = UPDATE_TYPE_SNAPSHOT, tu_node = None, tu_edge = None, tu_snapshot = Some snap\<rparr>"

text \<open>\<open>handleSse\<close> after its \<open>await\<close>; only now the end of the connection is listened for.\<close>

definition snapshot_fetched :: "nat \<Rightarrow> topology_snapshot option \<Rightarrow> sse_proxy \<Rightarrow> sse_proxy" where
  "snapshot_fetched c reply s =
     (let s = s\<lparr>ss_fetching := remove1 c (ss_fetching s)\<rparr>;
          s = (case reply of
                 Some snap \<Rightarrow> send_to c (Event (snapshot_update snap)) (s\<lparr>ss_lastSnapshot := Some (snapshot_update snap)\<rparr>)
               | None \<Rightarrow> (case ss_lastSnapshot s of Some u \<Rightarrow> send_to c (Event u) s | None \<Rightarrow> s))
      in s\<lparr>ss_guarded := ss_guarded s @ [c]\<rparr>)"

definition connection_closed :: "nat \<Rightarrow> sse_proxy \<Rightarrow> sse_proxy" where
  "connection_closed c s = (if c \<in> set (ss_guarded s) then s\<lparr>ss_listeners := remove1 c (ss_listeners s)\<rparr> else s)"

definition sse_stop :: "sse_proxy \<Rightarrow> sse_proxy" where
  "sse_stop s =
     (let s = s\<lparr>ss_isStopping := True\<rparr>;
          s = (case ss_watchStream s of
                 None \<Rightarrow> s
               | Some n \<Rightarrow> s\<lparr>ss_streams := remove1 n (ss_streams s), ss_watchStream := None\<rparr>);
          s = foldl (\<lambda>s c. send_to c Closed s) s (ss_listeners s)
      in s\<lparr>ss_listeners := []\<rparr>)"

fun sse_step :: "sse_proxy \<Rightarrow> sse_event \<Rightarrow> sse_proxy" where
  "sse_step s (Sse_Request c url) = (if url = ''/events'' then handleSse c s else send_to c Not_Found s)"
| "sse_step s (Snapshot_Fetched c reply) = (if c \<in> set (ss_fetching s) then snapshot_fetched c reply s else s)"
| "sse_step s (Connection_Closed c) = connection_closed c s"
| "sse_step s (Watch_Data n update) = (if n \<in> set (ss_streams s) then handleStreamData update s else s)"
| "sse_step s (Watch_Failed n) = (if n \<in> set (ss_streams s) then stream_lost s else s)"
| "sse_step s (Watch_Ended n) = (if n \<in> set (ss_streams s) then stream_lost s else s)"
| "sse_step s Reconnect_Delay_Over =
     (if ss_delays s > 0 then startWatchStream (s\<lparr>ss_delays := ss_delays s - 1\<rparr>) else s)"
| "sse_step s Sse_Stop = sse_stop s"

definition new_sse :: sse_proxy where
  "new_sse = startWatchStream \<lparr>ss_listeners = [], ss_lastSnapshot = None, ss_watchStream = None, ss_streams = [],
     ss_isStopping = False, ss_fetching = [], ss_guarded = [], ss_delays = 0, ss_next = 0, ss_sent = (\<lambda>_. [])\<rparr>"

subsection \<open>What a listener is sent\<close>

lemma send_to_simps [simp]:
  "ss_listeners (send_to c out s) = ss_listeners s" "ss_isStopping (send_to c out s) = ss_isStopping s"
  "ss_fetching (send_to c out s) = ss_fetching s" "ss_guarded (send_to c out s) = ss_guarded s"
  "ss_watchStream (send_to c out s) = ss_watchStream s" "ss_delays (send_to c out s) = ss_delays s"
  "ss_streams (send_to c out s) = ss_streams s" "ss_lastSnapshot (send_to c out s) = ss_lastSnapshot s"
  "ss_sent (send_to c out s) d = (if d = c then ss_sent s c @ [out] else ss_sent s d)"
  by (simp_all add: send_to_def)

lemma send_all_simps:
  "ss_listeners (foldl (\<lambda>s c. send_to c out s) s cs) = ss_listeners s"
  "ss_isStopping (foldl (\<lambda>s c. send_to c out s) s cs) = ss_isStopping s"
  "ss_fetching (foldl (\<lambda>s c. send_to c out s) s cs) = ss_fetching s"
  "ss_guarded (foldl (\<lambda>s c. send_to c out s) s cs) = ss_guarded s"
  "ss_watchStream (foldl (\<lambda>s c. send_to c out s) s cs) = ss_watchStream s"
  "ss_delays (foldl (\<lambda>s c. send_to c out s) s cs) = ss_delays s"
  "ss_streams (foldl (\<lambda>s c. send_to c out s) s cs) = ss_streams s"
  "ss_lastSnapshot (foldl (\<lambda>s c. send_to c out s) s cs) = ss_lastSnapshot s"
  "ss_sent (foldl (\<lambda>s c. send_to c out s) s cs) d = ss_sent s d @ replicate (count_list cs d) out"
  by (induction cs arbitrary: s) simp_all

text \<open>The updates that the watch streams deliver in a run.\<close>

fun delivered :: "sse_proxy \<Rightarrow> sse_event list \<Rightarrow> topology_update list" where
  "delivered s [] = []"
| "delivered s (e # es) =
     (case e of
        Watch_Data n (Some u) \<Rightarrow> if n \<in> set (ss_streams s) then [u] else []
      | _ \<Rightarrow> []) @ delivered (sse_step s e) es"

text \<open>Events that are not about the connection itself.\<close>

fun elsewhere :: "nat \<Rightarrow> sse_event \<Rightarrow> bool" where
  "elsewhere c (Sse_Request d url) = (d \<noteq> c)"
| "elsewhere c (Snapshot_Fetched d reply) = (d \<noteq> c)"
| "elsewhere c (Connection_Closed d) = (d \<noteq> c)"
| "elsewhere c Sse_Stop = False"
| "elsewhere c e = True"

definition listening :: "nat \<Rightarrow> sse_proxy \<Rightarrow> bool" where
  "listening c s \<longleftrightarrow> count_list (ss_listeners s) c = 1 \<and> \<not> ss_isStopping s"

lemma count_remove1_other: "d \<noteq> c \<Longrightarrow> count_list (remove1 d xs) c = count_list xs c"
  by (induction xs) auto

lemma listening_step:
  assumes "listening c s" "elsewhere c e"
  shows "listening c (sse_step s e) \<and>
    ss_sent (sse_step s e) c = ss_sent s c @ map Event (delivered s [e])"
proof (cases e)
  case (Watch_Data n u)
  with assms show ?thesis
    by (cases u) (auto simp: listening_def handleStreamData_def sse_broadcast_def send_all_simps Let_def)
next
  case (Sse_Request d url)
  have "count_list (xs @ [d]) c = count_list xs c" if "d \<noteq> c" for xs :: "nat list" using that by (induction xs) auto
  with Sse_Request assms show ?thesis by (auto simp: listening_def handleSse_def Let_def)
qed (use assms in \<open>auto simp: listening_def snapshot_fetched_def connection_closed_def count_remove1_other
    stream_lost_def startWatchStream_def Let_def split: option.splits\<close>)

lemma listening_run:
  "listening c s \<Longrightarrow> \<forall>e \<in> set es. elsewhere c e \<Longrightarrow>
   listening c (foldl sse_step s es) \<and> ss_sent (foldl sse_step s es) c = ss_sent s c @ map Event (delivered s es)"
proof (induction es arbitrary: s)
  case (Cons e es)
  then show ?case using listening_step [of c s e] by simp
qed simp

text \<open>C28.
  A dashboard connected to the proxy is sent exactly the updates that the watch streams deliver, in
  their order, and once its snapshot has been fetched that snapshot in between: until then and after
  it, nothing is skipped, repeated or reordered, whatever the other connections and the
  reconnections of the watch stream do.\<close>

theorem listener_gets_every_update:
  assumes "c \<notin> set (ss_listeners s)" "\<not> ss_isStopping s" "\<forall>e \<in> set es. elsewhere c e" "\<forall>e \<in> set fs. elsewhere c e"
  shows "ss_sent (foldl sse_step s ([Sse_Request c ''/events''] @ es @ [Snapshot_Fetched c (Some snap)] @ fs)) c =
    ss_sent s c @ [Head, Retry] @ map Event (delivered (sse_step s (Sse_Request c ''/events'')) es) @
    [Event (snapshot_update snap)] @
    map Event (delivered (foldl sse_step s ([Sse_Request c ''/events''] @ es @ [Snapshot_Fetched c (Some snap)])) fs)"
proof -
  let ?s1 = "sse_step s (Sse_Request c ''/events'')"
  let ?s2 = "foldl sse_step ?s1 es"
  let ?s3 = "sse_step ?s2 (Snapshot_Fetched c (Some snap))"
  have n: "count_list (xs @ [c]) c = 1" if "c \<notin> set xs" for xs :: "nat list" using that by (induction xs) auto
  then have 1: "listening c ?s1" "c \<in> set (ss_fetching ?s1)" "ss_sent ?s1 c = ss_sent s c @ [Head, Retry]"
    using assms(1,2) by (auto simp: listening_def handleSse_def Let_def)
  note 2 = listening_run [OF 1(1) assms(3)]
  have f: "c \<in> set (ss_fetching (sse_step t e))" if "c \<in> set (ss_fetching t)" "elsewhere c e" for t e
    using that by (cases e) (auto simp: handleSse_def snapshot_fetched_def connection_closed_def handleStreamData_def
        sse_broadcast_def send_all_simps stream_lost_def startWatchStream_def Let_def split: option.splits)
  have "c \<in> set (ss_fetching (foldl sse_step t es))" if "c \<in> set (ss_fetching t)" for t
    using that assms(3) f by (induction es arbitrary: t) simp_all
  with 1(2) have "c \<in> set (ss_fetching ?s2)" by blast
  with 2 have 3: "listening c ?s3" "ss_sent ?s3 c = ss_sent ?s2 c @ [Event (snapshot_update snap)]"
    by (auto simp: listening_def snapshot_fetched_def Let_def)
  from listening_run [OF 3(1) assms(4)] 3(2) 2 1(3) show ?thesis by simp
qed

definition sample_snapshot :: topology_snapshot where
  "sample_snapshot = \<lparr>ts_nodes = [], ts_edges = [], ts_timestampMs = ''7''\<rparr>"

definition sample_node :: service_node where
  "sample_node = \<lparr>sn_serviceId = ''a'', sn_serviceName = ''A'', sn_serviceType = SERVICE_TYPE_SERVER,
     sn_language = SERVICE_LANGUAGE_TYPESCRIPT, sn_version = None, sn_address = None, sn_host = None, sn_metadata = None,
     sn_state = SERVICE_STATE_REGISTERED, sn_lastHeartbeatMs = ''1'', sn_lastActivityMs = ''0'', sn_health = HEALTH_STATE_UNKNOWN\<rparr>"

definition node_added :: topology_update where
  "node_added = \<lparr>tu_type = UPDATE_TYPE_NODE_ADDED, tu_node = Some sample_node, tu_edge = None, tu_snapshot = None\<rparr>"

theorem listener_gets_every_update_witness:
  "ss_sent (foldl sse_step new_sse [Sse_Request 3 ''/events'', Watch_Data 0 (Some node_added), Snapshot_Fetched 3 (Some sample_snapshot)]) 3 =
   [Head, Retry, Event node_added, Event (snapshot_update sample_snapshot)]"
  using listener_gets_every_update [of 3 new_sse "[Watch_Data 0 (Some node_added)]" "[]" sample_snapshot]
  by (simp add: new_sse_def startWatchStream_def handleSse_def Let_def)

text \<open>What a dashboard makes of the events it is sent.\<close>

fun dashboard_copy :: "sse_output list \<Rightarrow> topology_snapshot \<Rightarrow> topology_snapshot" where
  "dashboard_copy [] snap = snap"
| "dashboard_copy (Event u # out) snap = dashboard_copy out (applyUpdate snap u 0)"
| "dashboard_copy (x # out) snap = dashboard_copy out snap"

text \<open>The snapshot of a new connection may be older than updates it has been sent already: it then
  takes them back, and the dashboard lacks a service that the others show.\<close>

lemma late_snapshot_takes_updates_back:
  fixes es :: "sse_event list"
  shows "let s = foldl sse_step new_sse [Sse_Request 1 ''/events'', Snapshot_Fetched 1 (Some sample_snapshot),
      Sse_Request 2 ''/events'', Watch_Data 0 (Some node_added), Snapshot_Fetched 2 (Some sample_snapshot)]
    in ts_nodes (dashboard_copy (ss_sent s 1) initialSnapshot) = [sample_node]
      \<and> ts_nodes (dashboard_copy (ss_sent s 2) initialSnapshot) = []"
  by (simp add: new_sse_def startWatchStream_def handleSse_def snapshot_fetched_def handleStreamData_def sse_broadcast_def
      node_added_def snapshot_update_def applyUpdate_def upsertNode_def sample_snapshot_def initialSnapshot_def Let_def)

text \<open>A connection that closes before its snapshot has been fetched stays in the set of listeners.\<close>

lemma early_close_leaks:
  "c \<notin> set (ss_guarded s) \<Longrightarrow> c \<in> set (ss_listeners s) \<Longrightarrow>
   c \<in> set (ss_listeners (foldl sse_step s [Connection_Closed c, Snapshot_Fetched c reply]))"
  by (simp add: connection_closed_def snapshot_fetched_def Let_def split: option.split)

subsection \<open>Starting and stopping the stack\<close>

datatype part = Service | Proxy | Reporter_Proxy

text \<open>
  \<open>run\<close> and \<open>stopAll\<close>: the parts still to start, the handles that are set, and while shutting down
  the parts still to look at and the one whose \<open>stop\<close> is awaited.  The exit code is the one the
  caller of \<open>stopAll\<close> gives if no part failed to stop.
\<close>

record stack =
  tk_toStart :: "part list"
  tk_handles :: "part list"
  tk_shuttingDown :: bool
  tk_toStop :: "part list"
  tk_awaited :: "part option"
  tk_errors :: nat
  tk_exitCode :: int
  tk_stopped :: "part list"
  tk_exit :: "int option"

datatype stack_event = Part_Started bool | Signal | Part_Stopped bool

definition new_stack :: stack where
  "new_stack = \<lparr>tk_toStart = [Service, Proxy, Reporter_Proxy], tk_handles = [], tk_shuttingDown = False, tk_toStop = [],
     tk_awaited = None, tk_errors = 0, tk_exitCode = 0, tk_stopped = [], tk_exit = None\<rparr>"

text \<open>The next part with a handle is stopped; without one the process leaves.\<close>

fun stop_next :: "part list \<Rightarrow> stack \<Rightarrow> stack" where
  "stop_next [] s = s\<lparr>tk_toStop := [], tk_awaited := None, tk_exit := Some (if tk_errors s > 0 then 1 else tk_exitCode s)\<rparr>"
| "stop_next (p # ps) s =
     (if p \<in> set (tk_handles s) then s\<lparr>tk_toStop := ps, tk_awaited := Some p\<rparr> else stop_next ps s)"

definition stopAll :: "int \<Rightarrow> stack \<Rightarrow> stack" where
  "stopAll code s =
     (if tk_shuttingDown s then s
      else stop_next [Reporter_Proxy, Proxy, Service] (s\<lparr>tk_shuttingDown := True, tk_exitCode := code\<rparr>))"

definition part_stopped :: "bool \<Rightarrow> stack \<Rightarrow> stack" where
  "part_stopped ok s =
     (case tk_awaited s of
        None \<Rightarrow> s
      | Some p \<Rightarrow>
          stop_next (tk_toStop s)
            (s\<lparr>tk_errors := (if ok then tk_errors s else tk_errors s + 1), tk_handles := removeAll p (tk_handles s),
               tk_stopped := tk_stopped s @ [p]\<rparr>))"

text \<open>A part that fails to start ends the start; if a signal came first, that shutdown goes on and
  the process leaves with 1 at once.\<close>

definition part_started :: "bool \<Rightarrow> stack \<Rightarrow> stack" where
  "part_started ok s =
     (case tk_toStart s of
        [] \<Rightarrow> s
      | p # ps \<Rightarrow>
          if ok then s\<lparr>tk_handles := tk_handles s @ [p], tk_toStart := ps\<rparr>
          else (let s = s\<lparr>tk_toStart := []\<rparr> in
                if tk_shuttingDown s then s\<lparr>tk_exit := Some 1\<rparr> else stopAll 1 s))"

definition stack_step :: "stack \<Rightarrow> stack_event \<Rightarrow> stack" where
  "stack_step s e =
     (if tk_exit s \<noteq> None then s
      else (case e of
              Part_Started ok \<Rightarrow> part_started ok s
            | Signal \<Rightarrow> if tk_shuttingDown s then s else stopAll 0 s
            | Part_Stopped ok \<Rightarrow> part_stopped ok s))"

text \<open>Once all three parts run, a signal stops them in the reverse order of their start, each one even
  if another fails to stop, and the process leaves with 1 exactly when one did.\<close>

theorem stack_stops_in_reverse_order:
  "let s = foldl stack_step new_stack
      ([Part_Started True, Part_Started True, Part_Started True, Signal] @ map Part_Stopped [a, b, c])
   in tk_stopped s = [Reporter_Proxy, Proxy, Service] \<and> tk_handles s = [] \<and>
      tk_exit s = Some (if a \<and> b \<and> c then 0 else 1)"
  by (cases a; cases b; cases c) (simp_all add: new_stack_def stack_step_def part_started_def part_stopped_def stopAll_def)

text \<open>A failed start stops what had been started.\<close>

lemma failed_start_stops_the_rest:
  "let s = foldl stack_step new_stack [Part_Started True, Part_Started False, Part_Stopped ok]
   in tk_stopped s = [Service] \<and> tk_exit s = Some 1"
  by (simp add: new_stack_def stack_step_def part_started_def part_stopped_def stopAll_def)

end
