(* ===== verification/Topology_Graph.thy ===== *)
theory Topology_Graph
  imports Dashboard_Stream "HOL-Library.Char_ord" "HOL-Library.List_Lexorder"
begin

text \<open>
  What the dashboard draws: labels and colours (\<open>apps/dashboard/src/utils/topologyFormat.ts\<close>) and the
  graph (\<open>components/TopologyGraph.tsx\<close>), which joins nodes and edges by the several keys a service
  goes by, adds placeholders for unknown ends, lays the nodes out on a grid and keeps the previous
  drawing while nothing visible has changed.  The order of \<open>localeCompare\<close> depends on the browser:
  \<open>rank\<close> is the place of a name in it.
\<close>

subsection \<open>Labels and colours\<close>

fun getServiceStateLabel :: "service_state \<Rightarrow> string" where
  "getServiceStateLabel SERVICE_STATE_UNSPECIFIED = ''Unknown''"
| "getServiceStateLabel SERVICE_STATE_REGISTERED = ''Registered''"
| "getServiceStateLabel SERVICE_STATE_IDLE = ''Idle''"
| "getServiceStateLabel SERVICE_STATE_ACTIVE = ''Active''"
| "getServiceStateLabel SERVICE_STATE_STALE = ''Stale''"
| "getServiceStateLabel SERVICE_STATE_DEAD = ''Dead''"

fun getServiceStateColor :: "service_state \<Rightarrow> string" where
  "getServiceStateColor SERVICE_STATE_UNSPECIFIED = ''#64748b''"
| "getServiceStateColor SERVICE_STATE_REGISTERED = ''#38bdf8''"
| "getServiceStateColor SERVICE_STATE_IDLE = ''#94a3b8''"
| "getServiceStateColor SERVICE_STATE_ACTIVE = ''#22c55e''"
| "getServiceStateColor SERVICE_STATE_STALE = ''#f59e0b''"
| "getServiceStateColor SERVICE_STATE_DEAD = ''#ef4444''"

fun getConnectionStateLabel :: "connection_state \<Rightarrow> string" where
  "getConnectionStateLabel CONNECTION_STATE_UNSPECIFIED = ''Unknown''"
| "getConnectionStateLabel CONNECTION_STATE_IDLE = ''Idle''"
| "getConnectionStateLabel CONNECTION_STATE_ACTIVE = ''Active''"
| "getConnectionStateLabel CONNECTION_STATE_FAILED = ''Failed''"

fun getConnectionStateColor :: "connection_state \<Rightarrow> string" where
  "getConnectionStateColor CONNECTION_STATE_UNSPECIFIED = ''#64748b''"
| "getConnectionStateColor CONNECTION_STATE_IDLE = ''#94a3b8''"
| "getConnectionStateColor CONNECTION_STATE_ACTIVE = ''#38bdf8''"
| "getConnectionStateColor CONNECTION_STATE_FAILED = ''#ef4444''"

fun formatServiceLanguage :: "service_language \<Rightarrow> string" where
  "formatServiceLanguage SERVICE_LANGUAGE_UNSPECIFIED = ''Unknown''"
| "formatServiceLanguage SERVICE_LANGUAGE_TYPESCRIPT = ''TypeScript''"
| "formatServiceLanguage SERVICE_LANGUAGE_RUST = ''Rust''"
| "formatServiceLanguage SERVICE_LANGUAGE_CPP = ''C++''"
| "formatServiceLanguage SERVICE_LANGUAGE_GO = ''Go''"
| "formatServiceLanguage SERVICE_LANGUAGE_PYTHON = ''Python''"
| "formatServiceLanguage SERVICE_LANGUAGE_JAVA = ''Java''"
| "formatServiceLanguage SERVICE_LANGUAGE_CSHARP = ''C#''"

subsection \<open>The keys of a service\<close>

text \<open>\<open>node.metadata?.f?.trim()\<close> and \<open>node.address?.trim()\<close>; an empty string counts as absent wherever
  they are used.\<close>

definition metadata_text :: "(service_metadata \<Rightarrow> string option) \<Rightarrow> service_node \<Rightarrow> string" where
  "metadata_text f node = nullish (Option.bind (sn_metadata node) (\<lambda>m. map_option trim (f m))) []"

definition address_text :: "service_node \<Rightarrow> string" where
  "address_text node = nullish (map_option trim (sn_address node)) []"

definition createMissingNode :: "string \<Rightarrow> string \<Rightarrow> service_node" where
  "createMissingNode serviceId serviceName =
     \<lparr>sn_serviceId = serviceId, sn_serviceName = serviceName, sn_serviceType = SERVICE_TYPE_UNSPECIFIED,
      sn_language = SERVICE_LANGUAGE_UNSPECIFIED, sn_version = None, sn_address = None, sn_host = None,
      sn_metadata = None, sn_state = SERVICE_STATE_UNSPECIFIED, sn_lastHeartbeatMs = ''0'',
      sn_lastActivityMs = ''0'', sn_health = HEALTH_STATE_UNKNOWN\<rparr>"

definition getServiceKey :: "service_node \<Rightarrow> string" where
  "getServiceKey node =
     (let serviceInterface = metadata_text meta_serviceInterface node;
          serviceRole = metadata_text meta_serviceRole node
      in if serviceInterface \<noteq> []
         then (if serviceRole \<noteq> [] then serviceInterface @ ''::'' @ serviceRole else serviceInterface)
         else sn_serviceName node)"

definition set_add :: "string \<Rightarrow> string list \<Rightarrow> string list" where
  "set_add k ks = (if k \<in> set ks then ks else ks @ [k])"

definition getServiceKeyVariants :: "service_node \<Rightarrow> string list" where
  "getServiceKeyVariants node =
     (let keys = set_add (sn_serviceName node) [];
          serviceKey = getServiceKey node;
          keys = set_add serviceKey keys;
          address = address_text node
      in if address \<noteq> [] then set_add (serviceKey @ ''@'' @ address) (set_add address keys) else keys)"

text \<open>\<open>split('::')\<close>.\<close>

fun split_colons :: "string \<Rightarrow> string list" where
  "split_colons [] = [[]]"
| "split_colons [c] = [[c]]"
| "split_colons (c # d # s) =
     (if c = CHR '':'' \<and> d = CHR '':'' then [] # split_colons s
      else (case split_colons (d # s) of [] \<Rightarrow> [[c]] | w # ws \<Rightarrow> (c # w) # ws))"

text \<open>\<open>x || undefined\<close>.\<close>

definition or_undefined :: "string option \<Rightarrow> string option" where
  "or_undefined x = (if x = Some [] then None else x)"

definition nth_part :: "'a list \<Rightarrow> nat \<Rightarrow> 'a option" where
  "nth_part xs i = (if i < length xs then Some (xs ! i) else None)"

record target_key =
  tg_serviceInterface :: "string option"
  tg_serviceRole :: "string option"
  tg_address :: "string option"

definition parseTargetKey :: "string \<Rightarrow> target_key" where
  "parseTargetKey v =
     (let parts = split_on CHR ''@'' v; servicePart = nth_part parts 0; addressPart = nth_part parts 1 in
      if nullish servicePart [] = [] then \<lparr>tg_serviceInterface = None, tg_serviceRole = None, tg_address = None\<rparr>
      else (let names = split_colons (nullish servicePart []) in
            \<lparr>tg_serviceInterface = or_undefined (nth_part names 0),
             tg_serviceRole = or_undefined (nth_part names 1), tg_address = or_undefined addressPart\<rparr>))"

definition formatServiceTitle :: "service_node \<Rightarrow> string" where
  "formatServiceTitle node =
     (let serviceInterface = metadata_text meta_serviceInterface node;
          serviceRole = metadata_text meta_serviceRole node
      in if serviceInterface = [] then sn_serviceName node
         else if serviceRole \<noteq> [] then serviceInterface @ '' ('' @ serviceRole @ '')'' else serviceInterface)"

definition formatProgramName :: "service_node \<Rightarrow> string" where
  "formatProgramName node =
     (if metadata_text meta_programName node \<noteq> [] then metadata_text meta_programName node
      else if address_text node \<noteq> [] then address_text node else sn_serviceName node)"

definition formatInstanceId :: "service_node \<Rightarrow> string option" where
  "formatInstanceId node =
     (if startsWith (sn_serviceId node) ''missing:'' then None else Some (take 8 (sn_serviceId node)))"

definition buildEdgeId :: "service_edge \<Rightarrow> string" where
  "buildEdgeId edge = se_sourceServiceId edge @ ''::'' @ se_targetService edge"

subsection \<open>Nodes and their index\<close>

text \<open>\<open>enrichedNodes\<close> and \<open>serviceIdByKey\<close> while the edges are visited.\<close>

record graph_index =
  gi_serviceIdByKey :: "(string, string) js_map"
  gi_missingByName :: "(string, service_node) js_map"
  gi_missingById :: "(string, service_node) js_map"

definition index_node :: "service_node \<Rightarrow> (string, string) js_map \<Rightarrow> (string, string) js_map" where
  "index_node node m = foldl (\<lambda>m key. map_set key (sn_serviceId node) m) m (getServiceKeyVariants node)"

definition index_nodes :: "service_node list \<Rightarrow> (string, string) js_map" where
  "index_nodes nodes = foldl (\<lambda>m node. index_node node m) [] nodes"

definition missing_target :: "string \<Rightarrow> service_node" where
  "missing_target targetService =
     (let missingNode = createMissingNode (''missing:'' @ targetService) targetService;
          parsed = parseTargetKey targetService
      in if tg_serviceInterface parsed \<noteq> None \<or> tg_serviceRole parsed \<noteq> None \<or> tg_address parsed \<noteq> None
         then missingNode\<lparr>sn_metadata := Some \<lparr>meta_region = None, meta_environment = None, meta_team = None,
                meta_versionHash = None, meta_serviceInterface = tg_serviceInterface parsed,
                meta_serviceRole = tg_serviceRole parsed, meta_programName = tg_address parsed\<rparr>\<rparr>
         else missingNode)"

definition index_target :: "string \<Rightarrow> graph_index \<Rightarrow> graph_index" where
  "index_target target g =
     (if map_get (gi_serviceIdByKey g) target = None
      then g\<lparr>gi_missingByName := (if map_get (gi_missingByName g) target = None
                                   then map_set target (missing_target target) (gi_missingByName g)
                                   else gi_missingByName g),
             gi_serviceIdByKey := map_set target (''missing:'' @ target) (gi_serviceIdByKey g)\<rparr>
      else g)"

definition index_source :: "string set \<Rightarrow> string \<Rightarrow> graph_index \<Rightarrow> graph_index" where
  "index_source serviceIds source g =
     (if source \<notin> serviceIds \<and> map_get (gi_missingById g) source = None
      then g\<lparr>gi_missingById := map_set source (createMissingNode source source) (gi_missingById g)\<rparr>
      else g)"

definition index_edge :: "string set \<Rightarrow> graph_index \<Rightarrow> service_edge \<Rightarrow> graph_index" where
  "index_edge serviceIds g edge =
     index_source serviceIds (se_sourceServiceId edge) (index_target (se_targetService edge) g)"

definition graph_index_of :: "topology_snapshot \<Rightarrow> graph_index" where
  "graph_index_of snap =
     foldl (index_edge (set (map sn_serviceId (ts_nodes snap))))
       \<lparr>gi_serviceIdByKey = index_nodes (ts_nodes snap), gi_missingByName = [], gi_missingById = []\<rparr> (ts_edges snap)"

definition enrichedNodes :: "topology_snapshot \<Rightarrow> service_node list" where
  "enrichedNodes snap =
     (let g = graph_index_of snap
      in ts_nodes snap @ map_values (gi_missingByName g) @ map_values (gi_missingById g))"

subsection \<open>The layout\<close>

text \<open>\<open>Math.ceil(Math.sqrt(n))\<close>: the least \<open>c\<close> with \<open>n \<le> c * c\<close>.\<close>

definition ceil_sqrt :: "nat \<Rightarrow> nat" where
  "ceil_sqrt n = length (takeWhile (\<lambda>c. c * c < n) [0..<n])"

definition graph_columns :: "nat \<Rightarrow> nat" where
  "graph_columns count = max 3 (ceil_sqrt (if count = 0 then 1 else count))"

fun place_nodes :: "nat \<Rightarrow> nat \<Rightarrow> service_node list \<Rightarrow> (string, nat \<times> nat) js_map \<Rightarrow> (string, nat \<times> nat) js_map" where
  "place_nodes columns index [] m = m"
| "place_nodes columns index (node # nodes) m =
     place_nodes columns (index + 1) nodes
       (map_set (sn_serviceId node) ((index mod columns) * 240, (index div columns) * 160) m)"

definition positions :: "(string \<Rightarrow> nat) \<Rightarrow> service_node list \<Rightarrow> (string, nat \<times> nat) js_map" where
  "positions rank nodes =
     place_nodes (graph_columns (length nodes)) 0 (sort_key (rank \<circ> sn_serviceName) nodes) []"

subsection \<open>The drawing\<close>

record drawn_node =
  dn_id :: string
  dn_position :: "nat \<times> nat"
  dn_title :: string
  dn_meta :: string
  dn_background :: string
  dn_dashed :: bool

record drawn_edge =
  de_id :: string
  de_source :: string
  de_target :: string
  de_animated :: bool
  de_stroke :: string
  de_strokeWidth :: nat

record graph_elements =
  el_nodes :: "drawn_node list"
  el_edges :: "drawn_edge list"

definition node_meta :: "service_node \<Rightarrow> string" where
  "node_meta node =
     join_with ('' '' @ [CHR 0xB7] @ '' '')
       (filter (\<lambda>s. s \<noteq> [])
         [formatProgramName node,
          (case formatInstanceId node of Some i \<Rightarrow> if i \<noteq> [] then ''#'' @ i else [] | None \<Rightarrow> []),
          formatServiceLanguage (sn_language node), getServiceStateLabel (sn_state node)])"

definition draw_node :: "(string, nat \<times> nat) js_map \<Rightarrow> service_node \<Rightarrow> drawn_node" where
  "draw_node ps node =
     \<lparr>dn_id = sn_serviceId node, dn_position = nullish (map_get ps (sn_serviceId node)) (0, 0),
      dn_title = formatServiceTitle node, dn_meta = node_meta node,
      dn_background = getServiceStateColor (sn_state node), dn_dashed = (sn_state node = SERVICE_STATE_STALE)\<rparr>"

definition draw_edge :: "(string, string) js_map \<Rightarrow> service_edge \<Rightarrow> drawn_edge" where
  "draw_edge serviceIdByKey edge =
     (let isActive = (se_state edge = CONNECTION_STATE_ACTIVE) in
      \<lparr>de_id = buildEdgeId edge, de_source = se_sourceServiceId edge,
       de_target = nullish (map_get serviceIdByKey (se_targetService edge)) (se_targetService edge),
       de_animated = isActive, de_stroke = getConnectionStateColor (se_state edge),
       de_strokeWidth = (if isActive then 3 else 2)\<rparr>)"

definition fresh_elements :: "(string \<Rightarrow> nat) \<Rightarrow> topology_snapshot \<Rightarrow> graph_elements" where
  "fresh_elements rank snap =
     \<lparr>el_nodes = map (draw_node (positions rank (enrichedNodes snap))) (enrichedNodes snap),
      el_edges = map (draw_edge (gi_serviceIdByKey (graph_index_of snap))) (ts_edges snap)\<rparr>"

text \<open>
  What \<open>visualSignature\<close> compares: the printed nodes and edges, sorted by code units and joined.
\<close>

fun language_number :: "service_language \<Rightarrow> nat" where
  "language_number SERVICE_LANGUAGE_UNSPECIFIED = 0"
| "language_number SERVICE_LANGUAGE_TYPESCRIPT = 1"
| "language_number SERVICE_LANGUAGE_RUST = 2"
| "language_number SERVICE_LANGUAGE_CPP = 3"
| "language_number SERVICE_LANGUAGE_GO = 4"
| "language_number SERVICE_LANGUAGE_PYTHON = 5"
| "language_number SERVICE_LANGUAGE_JAVA = 6"
| "language_number SERVICE_LANGUAGE_CSHARP = 7"

fun state_number :: "service_state \<Rightarrow> nat" where
  "state_number SERVICE_STATE_UNSPECIFIED = 0"
| "state_number SERVICE_STATE_REGISTERED = 1"
| "state_number SERVICE_STATE_IDLE = 2"
| "state_number SERVICE_STATE_ACTIVE = 3"
| "state_number SERVICE_STATE_STALE = 4"
| "state_number SERVICE_STATE_DEAD = 5"

fun connection_number :: "connection_state \<Rightarrow> nat" where
  "connection_number CONNECTION_STATE_UNSPECIFIED = 0"
| "connection_number CONNECTION_STATE_IDLE = 1"
| "connection_number CONNECTION_STATE_ACTIVE = 2"
| "connection_number CONNECTION_STATE_FAILED = 3"

definition node_signature :: "service_node \<Rightarrow> string" where
  "node_signature node = sn_serviceId node @ ''|'' @ sn_serviceName node @ ''|'' @
     string_of_nat (language_number (sn_language node)) @ ''|'' @ string_of_nat (state_number (sn_state node))"

definition edge_signature :: "service_edge \<Rightarrow> string" where
  "edge_signature edge = se_sourceServiceId edge @ ''|'' @ se_targetService edge @ ''|'' @
     string_of_nat (connection_number (se_state edge))"

definition visualSignature :: "topology_snapshot \<Rightarrow> string" where
  "visualSignature snap =
     join_with ''||'' (sort (map node_signature (enrichedNodes snap))) @ ''@@'' @
     join_with ''||'' (sort (map edge_signature (ts_edges snap)))"

text \<open>\<open>stableElements\<close>: a rendering keeps the previous elements while the signature is the same.\<close>

type_synonym stable_elements = "(string \<times> graph_elements) option"

definition drawn_elements :: "(string \<Rightarrow> nat) \<Rightarrow> stable_elements \<Rightarrow> topology_snapshot \<Rightarrow> graph_elements" where
  "drawn_elements rank previous snap =
     (case previous of
        Some (sig, els) \<Rightarrow> if sig = visualSignature snap then els else fresh_elements rank snap
      | None \<Rightarrow> fresh_elements rank snap)"

definition render_graph :: "(string \<Rightarrow> nat) \<Rightarrow> stable_elements \<Rightarrow> topology_snapshot \<Rightarrow> stable_elements" where
  "render_graph rank previous snap = Some (visualSignature snap, drawn_elements rank previous snap)"

subsection \<open>Every edge joins two drawn nodes\<close>

text \<open>The ids that the nodes drawn so far have.\<close>

definition known_ids :: "string set \<Rightarrow> graph_index \<Rightarrow> string set" where
  "known_ids serviceIds g = serviceIds \<union> sn_serviceId ` snd ` set (gi_missingByName g)
     \<union> sn_serviceId ` snd ` set (gi_missingById g)"

text \<open>
  Every key leads to a known id, and the placeholders are filed under the target and the source they
  stand for.
\<close>

definition index_ok :: "string set \<Rightarrow> graph_index \<Rightarrow> bool" where
  "index_ok serviceIds g \<longleftrightarrow>
     (\<forall>k i. map_get (gi_serviceIdByKey g) k = Some i \<longrightarrow> i \<in> known_ids serviceIds g) \<and>
     distinct (map_keys (gi_missingByName g)) \<and> distinct (map_keys (gi_missingById g)) \<and>
     (\<forall>(k, n) \<in> set (gi_missingByName g). sn_serviceId n = ''missing:'' @ k) \<and>
     (\<forall>(k, n) \<in> set (gi_missingById g). sn_serviceId n = k)"

lemma missing_ids [simp]:
  "sn_serviceId (createMissingNode i n) = i" "sn_serviceId (missing_target t) = ''missing:'' @ t"
  by (simp_all add: createMissingNode_def missing_target_def Let_def)

lemma map_set_other: "map_get (map_set k v m) k' = (if k' = k then Some v else map_get m k')"
  by (simp add: update_conv')

lemma index_node_get:
  "map_get (index_node node m) k = (if k \<in> set (getServiceKeyVariants node) then Some (sn_serviceId node) else map_get m k)"
proof -
  have "map_get (foldl (\<lambda>m key. map_set key i m) m keys) k = (if k \<in> set keys then Some i else map_get m k)" for keys i
    by (induction keys arbitrary: m) (simp_all add: map_set_other)
  then show ?thesis by (simp add: index_node_def)
qed

text \<open>The last node that goes by a key gets it.\<close>

lemma index_nodes_get:
  "map_get (index_nodes nodes) k =
   map_option sn_serviceId (List.find (\<lambda>node. k \<in> set (getServiceKeyVariants node)) (rev nodes))"
proof -
  have "map_get (index_nodes nodes) k =
    (case List.find (\<lambda>node. k \<in> set (getServiceKeyVariants node)) (rev nodes) of
       Some node \<Rightarrow> Some (sn_serviceId node) | None \<Rightarrow> None)"
    unfolding index_nodes_def by (induction nodes rule: rev_induct) (simp_all add: index_node_get)
  then show ?thesis by (simp split: option.split)
qed

lemma index_nodes_values: "map_get (index_nodes nodes) k = Some i \<Longrightarrow> i \<in> sn_serviceId ` set nodes"
  using find_Some_mem [of _ "rev nodes"] by (auto simp: index_nodes_get)

lemma index_target_ok:
  assumes "index_ok ids g"
  shows "index_ok ids (index_target t g) \<and> known_ids ids g \<subseteq> known_ids ids (index_target t g)
    \<and> map_get (gi_serviceIdByKey (index_target t g)) t \<noteq> None
    \<and> (\<forall>k i. map_get (gi_serviceIdByKey g) k = Some i \<longrightarrow> map_get (gi_serviceIdByKey (index_target t g)) k = Some i)"
proof (cases "map_get (gi_serviceIdByKey g) t")
  case (Some i)
  with assms show ?thesis by (simp add: index_target_def)
next
  case None
  have v: "\<exists>n. (t, n) \<in> set m \<and> sn_serviceId n = ''missing:'' @ t"
    if "m = (if map_get (gi_missingByName g) t = None then map_set t (missing_target t) (gi_missingByName g) else gi_missingByName g)" for m
  proof (cases "map_get (gi_missingByName g) t")
    case None
    with that show ?thesis by (auto simp: set_update_fresh)
  next
    case (Some n)
    with that assms show ?thesis by (auto simp: index_ok_def dest!: map_of_SomeD)
  qed
  define m where "m = (if map_get (gi_missingByName g) t = None then map_set t (missing_target t) (gi_missingByName g) else gi_missingByName g)"
  obtain n where n: "(t, n) \<in> set m" "sn_serviceId n = ''missing:'' @ t" using v [OF m_def] by blast
  have sub: "set (gi_missingByName g) \<subseteq> set m" "distinct (map_keys m)" "\<forall>(k, n) \<in> set m. sn_serviceId n = ''missing:'' @ k"
    using assms by (auto simp: m_def index_ok_def set_update_fresh distinct_update)
  have i: "gi_missingByName (index_target t g) = m" "gi_missingById (index_target t g) = gi_missingById g"
    "gi_serviceIdByKey (index_target t g) = map_set t (''missing:'' @ t) (gi_serviceIdByKey g)"
    using None by (simp_all add: index_target_def m_def)
  have "sn_serviceId ` snd ` set (gi_missingByName g) \<subseteq> sn_serviceId ` snd ` set m" by (intro image_mono sub(1))
  then have k: "known_ids ids g \<subseteq> known_ids ids (index_target t g)" unfolding known_ids_def i by blast
  have "sn_serviceId n \<in> known_ids ids (index_target t g)" using n(1) unfolding known_ids_def i by force
  then have b: "''missing:'' @ t \<in> known_ids ids (index_target t g)" using n(2) by simp
  have "j \<in> known_ids ids (index_target t g)" if "map_get (gi_serviceIdByKey (index_target t g)) k = Some j" for k j
  proof (cases "k = t")
    case False
    with that have "map_get (gi_serviceIdByKey g) k = Some j" by (simp add: i map_set_other)
    with assms k show ?thesis unfolding index_ok_def by blast
  qed (use that b in \<open>simp add: i map_set_other\<close>)
  with sub assms have "index_ok ids (index_target t g)" unfolding index_ok_def i by simp
  moreover have "map_get (gi_serviceIdByKey (index_target t g)) k = Some j" if "map_get (gi_serviceIdByKey g) k = Some j" for k j
    using that None by (cases "k = t") (simp_all add: i map_set_other)
  ultimately show ?thesis using k by (simp add: i map_set_other)
qed

lemma index_source_ok:
  assumes "index_ok ids g"
  shows "index_ok ids (index_source ids s g) \<and> known_ids ids g \<subseteq> known_ids ids (index_source ids s g)
    \<and> s \<in> known_ids ids (index_source ids s g) \<and> gi_serviceIdByKey (index_source ids s g) = gi_serviceIdByKey g"
proof (cases "s \<notin> ids \<and> map_get (gi_missingById g) s = None")
  case True
  let ?m = "map_set s (createMissingNode s s) (gi_missingById g)"
  have i: "index_source ids s g = g\<lparr>gi_missingById := ?m\<rparr>" using True by (simp add: index_source_def)
  have m: "set ?m = insert (s, createMissingNode s s) (set (gi_missingById g))" using True by (simp add: set_update_fresh)
  then have k: "known_ids ids g \<subseteq> known_ids ids (index_source ids s g)" "s \<in> known_ids ids (index_source ids s g)"
    by (auto simp: known_ids_def i)
  have "index_ok ids (index_source ids s g)"
    using assms k(1) m by (auto simp: index_ok_def i distinct_update)
  with k show ?thesis by (simp add: i)
next
  case False
  then have i: "index_source ids s g = g" by (auto simp: index_source_def)
  have "s \<in> known_ids ids g"
  proof (cases "s \<in> ids")
    case outside: False
    with False obtain n where "map_get (gi_missingById g) s = Some n" by auto
    then have "(s, n) \<in> set (gi_missingById g)" by (rule map_of_SomeD)
    with assms have "sn_serviceId n = s" by (auto simp: index_ok_def)
    with \<open>(s, n) \<in> set (gi_missingById g)\<close> show ?thesis by (force simp: known_ids_def)
  qed (simp add: known_ids_def)
  with assms show ?thesis by (simp add: i)
qed

lemma index_edges_ok:
  "index_ok ids g \<Longrightarrow>
   index_ok ids (foldl (index_edge ids) g es) \<and> known_ids ids g \<subseteq> known_ids ids (foldl (index_edge ids) g es) \<and>
   (\<forall>k i. map_get (gi_serviceIdByKey g) k = Some i \<longrightarrow>
      map_get (gi_serviceIdByKey (foldl (index_edge ids) g es)) k = Some i) \<and>
   (\<forall>e \<in> set es. se_sourceServiceId e \<in> known_ids ids (foldl (index_edge ids) g es) \<and>
      map_get (gi_serviceIdByKey (foldl (index_edge ids) g es)) (se_targetService e) \<noteq> None)"
proof (induction es arbitrary: g)
  case (Cons e es)
  note t = index_target_ok [OF Cons.prems, of "se_targetService e"]
  note s = index_source_ok [OF conjunct1 [OF t], of "se_sourceServiceId e"]
  note r = Cons.IH [OF conjunct1 [OF s]]
  show ?case unfolding foldl_Cons index_edge_def
    using t s r by (auto simp: index_edge_def)
qed simp

lemma graph_index_ok:
  "index_ok (set (map sn_serviceId (ts_nodes snap))) (graph_index_of snap) \<and>
   (\<forall>e \<in> set (ts_edges snap). se_sourceServiceId e \<in> sn_serviceId ` set (enrichedNodes snap) \<and>
     nullish (map_get (gi_serviceIdByKey (graph_index_of snap)) (se_targetService e)) (se_targetService e)
       \<in> sn_serviceId ` set (enrichedNodes snap))"
proof -
  let ?ids = "set (map sn_serviceId (ts_nodes snap))"
  let ?g = "\<lparr>gi_serviceIdByKey = index_nodes (ts_nodes snap), gi_missingByName = [], gi_missingById = []\<rparr>"
  have "index_ok ?ids ?g" using index_nodes_values by (auto simp: index_ok_def known_ids_def)
  note r = index_edges_ok [OF this, of "ts_edges snap"]
  have k: "known_ids ?ids (graph_index_of snap) = sn_serviceId ` set (enrichedNodes snap)"
    by (simp add: known_ids_def enrichedNodes_def Let_def image_Un image_image Un_assoc)
  have "nullish (map_get (gi_serviceIdByKey (graph_index_of snap)) (se_targetService e)) (se_targetService e)
      \<in> known_ids ?ids (graph_index_of snap)" if "e \<in> set (ts_edges snap)" for e
    using r that by (auto simp: graph_index_of_def index_ok_def)
  with r show ?thesis unfolding k [symmetric] by (simp add: graph_index_of_def)
qed

text \<open>The last service that goes by the target's key, or a placeholder.\<close>

lemma index_edges_missing:
  "(\<forall>k i. map_get (gi_serviceIdByKey g) k = Some i \<longrightarrow> map_get m k = Some i \<or> (map_get m k = None \<and> i = ''missing:'' @ k)) \<Longrightarrow>
   map_get (gi_serviceIdByKey (foldl (index_edge ids) g es)) k = Some i \<Longrightarrow>
   (\<forall>k. map_get m k \<noteq> None \<longrightarrow> map_get (gi_serviceIdByKey g) k \<noteq> None) \<Longrightarrow>
   map_get m k = Some i \<or> (map_get m k = None \<and> i = ''missing:'' @ k)"
proof (induction es arbitrary: g)
  case (Cons e es)
  let ?g = "index_edge ids g e" and ?t = "se_targetService e"
  have i: "gi_serviceIdByKey ?g = (if map_get (gi_serviceIdByKey g) ?t = None
      then map_set ?t (''missing:'' @ ?t) (gi_serviceIdByKey g) else gi_serviceIdByKey g)"
  proof -
    have "gi_serviceIdByKey (index_source ids s h) = gi_serviceIdByKey h" for s h by (simp add: index_source_def)
    then show ?thesis by (simp add: index_edge_def index_target_def)
  qed
  show ?case
  proof (rule Cons.IH [of ?g])
    show "map_get (gi_serviceIdByKey (foldl (index_edge ids) ?g es)) k = Some i" using Cons.prems(2) by simp
    show "\<forall>k. map_get m k \<noteq> None \<longrightarrow> map_get (gi_serviceIdByKey ?g) k \<noteq> None"
      using Cons.prems(3) unfolding i by (auto simp: map_set_other)
    show "\<forall>k i. map_get (gi_serviceIdByKey ?g) k = Some i \<longrightarrow> map_get m k = Some i \<or> (map_get m k = None \<and> i = ''missing:'' @ k)"
    proof (intro allI impI)
      fix k' j
      assume j: "map_get (gi_serviceIdByKey ?g) k' = Some j"
      show "map_get m k' = Some j \<or> (map_get m k' = None \<and> j = ''missing:'' @ k')"
      proof (cases "map_get (gi_serviceIdByKey g) ?t = None \<and> k' = ?t")
        case True
        then have "map_get m k' = None" using Cons.prems(3) by metis
        moreover have "j = ''missing:'' @ k'" using j True unfolding i by (simp add: map_set_other)
        ultimately show ?thesis by simp
      next
        case False
        then have "map_get (gi_serviceIdByKey g) k' = Some j" using j unfolding i by (auto simp: map_set_other split: if_splits)
        with Cons.prems(1) show ?thesis by metis
      qed
    qed
  qed
qed simp

definition target_of :: "service_node list \<Rightarrow> string \<Rightarrow> string" where
  "target_of nodes key =
     (case List.find (\<lambda>node. key \<in> set (getServiceKeyVariants node)) (rev nodes) of
        Some node \<Rightarrow> sn_serviceId node | None \<Rightarrow> ''missing:'' @ key)"

lemma drawn_target:
  assumes "e \<in> set (ts_edges snap)"
  shows "de_target (draw_edge (gi_serviceIdByKey (graph_index_of snap)) e) = target_of (ts_nodes snap) (se_targetService e)"
proof -
  let ?ids = "set (map sn_serviceId (ts_nodes snap))" and ?m = "index_nodes (ts_nodes snap)" and ?k = "se_targetService e"
  let ?g = "\<lparr>gi_serviceIdByKey = ?m, gi_missingByName = [], gi_missingById = []\<rparr>"
  have ok: "index_ok ?ids ?g" using index_nodes_values by (auto simp: index_ok_def known_ids_def)
  have "map_get (gi_serviceIdByKey (graph_index_of snap)) ?k \<noteq> None"
    using index_edges_ok [OF ok, of "ts_edges snap"] assms by (simp add: graph_index_of_def)
  then obtain i where i: "map_get (gi_serviceIdByKey (graph_index_of snap)) ?k = Some i" by blast
  then have "map_get ?m ?k = Some i \<or> (map_get ?m ?k = None \<and> i = ''missing:'' @ ?k)"
    unfolding graph_index_of_def by (rule index_edges_missing [rotated]) simp_all
  with i show ?thesis
    by (auto simp: draw_edge_def Let_def index_nodes_get target_of_def split: option.splits)
qed

subsection \<open>No two nodes overlap\<close>

definition cell :: "nat \<Rightarrow> nat \<Rightarrow> nat \<times> nat" where
  "cell columns index = ((index mod columns) * 240, (index div columns) * 160)"

text \<open>Two places that are a cell apart.\<close>

definition apart :: "nat \<times> nat \<Rightarrow> nat \<times> nat \<Rightarrow> bool" where
  "apart p q \<longleftrightarrow> fst p + 240 \<le> fst q \<or> fst q + 240 \<le> fst p \<or> snd p + 160 \<le> snd q \<or> snd q + 160 \<le> snd p"

lemma gap: "a \<noteq> b \<Longrightarrow> a * d + d \<le> b * d \<or> b * d + d \<le> a * (d::nat)"
proof -
  assume "a \<noteq> b"
  then have "Suc a \<le> b \<or> Suc b \<le> a" by linarith
  then show ?thesis
  proof
    assume "Suc a \<le> b"
    from mult_le_mono1 [OF this, of d] show ?thesis by simp
  next
    assume "Suc b \<le> a"
    from mult_le_mono1 [OF this, of d] show ?thesis by simp
  qed
qed

lemma cells_apart: "0 < c \<Longrightarrow> i \<noteq> j \<Longrightarrow> apart (cell c i) (cell c j)"
proof -
  assume "0 < c" "i \<noteq> j"
  then have "i mod c \<noteq> j mod c \<or> i div c \<noteq> j div c" by (metis div_mult_mod_eq)
  then show ?thesis
    using gap [of "i mod c" "j mod c" 240] gap [of "i div c" "j div c" 160] by (auto simp: apart_def cell_def)
qed

lemma place_nodes_get:
  "map_get (place_nodes c i nodes m) x = Some p \<Longrightarrow>
   (\<exists>j < length nodes. sn_serviceId (nodes ! j) = x \<and> p = cell c (i + j)) \<or>
   (x \<notin> sn_serviceId ` set nodes \<and> map_get m x = Some p)"
proof (induction nodes arbitrary: i m)
  case (Cons n nodes)
  let ?m = "map_set (sn_serviceId n) (cell c i) m"
  from Cons.prems have "map_get (place_nodes c (i + 1) nodes ?m) x = Some p" by (simp add: cell_def)
  then consider j where "j < length nodes" "sn_serviceId (nodes ! j) = x" "p = cell c (i + 1 + j)"
    | "x \<notin> sn_serviceId ` set nodes" "map_get ?m x = Some p" using Cons.IH by metis
  then show ?case
  proof cases
    case (1 j)
    then have "Suc j < length (n # nodes) \<and> sn_serviceId ((n # nodes) ! Suc j) = x \<and> p = cell c (i + Suc j)" by simp
    then show ?thesis by blast
  next
    case 2
    then show ?thesis
      by (cases "x = sn_serviceId n") (auto simp: map_set_other intro!: exI [of _ 0])
  qed
qed simp

lemma place_nodes_some: "x \<in> sn_serviceId ` set nodes \<or> map_get m x \<noteq> None \<Longrightarrow> map_get (place_nodes c i nodes m) x \<noteq> None"
  by (induction nodes arbitrary: i m) (auto simp: map_set_other)

lemma positions_apart:
  assumes "a \<in> set nodes" "b \<in> set nodes" "sn_serviceId a \<noteq> sn_serviceId b"
  shows "apart (nullish (map_get (positions rank nodes) (sn_serviceId a)) (0, 0))
    (nullish (map_get (positions rank nodes) (sn_serviceId b)) (0, 0))"
proof -
  let ?ns = "sort_key (rank \<circ> sn_serviceName) nodes" and ?c = "graph_columns (length nodes)"
  have at: "\<exists>j p. map_get (positions rank nodes) (sn_serviceId n) = Some p \<and> sn_serviceId (?ns ! j) = sn_serviceId n \<and> p = cell ?c j"
    if "n \<in> set nodes" for n
  proof -
    have "map_get (positions rank nodes) (sn_serviceId n) \<noteq> None"
      unfolding positions_def using that by (intro place_nodes_some) simp
    then obtain p where p: "map_get (positions rank nodes) (sn_serviceId n) = Some p" by blast
    with place_nodes_get [of ?c 0 ?ns "[]" "sn_serviceId n" p] show ?thesis by (auto simp: positions_def)
  qed
  obtain j p where a: "map_get (positions rank nodes) (sn_serviceId a) = Some p" "sn_serviceId (?ns ! j) = sn_serviceId a" "p = cell ?c j"
    using at [OF assms(1)] by blast
  obtain k q where b: "map_get (positions rank nodes) (sn_serviceId b) = Some q" "sn_serviceId (?ns ! k) = sn_serviceId b" "q = cell ?c k"
    using at [OF assms(2)] by blast
  have "0 < ?c" by (simp add: graph_columns_def)
  moreover have "j \<noteq> k" using a(2) b(2) assms(3) by metis
  ultimately have "apart (cell ?c j) (cell ?c k)" by (rule cells_apart)
  with a b show ?thesis by simp
qed

subsection \<open>The promises of the drawing\<close>

definition well_drawn :: "graph_elements \<Rightarrow> bool" where
  "well_drawn els \<longleftrightarrow>
     (\<forall>e \<in> set (el_edges els). de_source e \<in> dn_id ` set (el_nodes els) \<and> de_target e \<in> dn_id ` set (el_nodes els)) \<and>
     (\<forall>a \<in> set (el_nodes els). \<forall>b \<in> set (el_nodes els). dn_id a \<noteq> dn_id b \<longrightarrow> apart (dn_position a) (dn_position b))"

lemma draw_simps [simp]:
  "dn_id (draw_node ps n) = sn_serviceId n" "de_source (draw_edge m e) = se_sourceServiceId e"
  "dn_position (draw_node ps n) = nullish (map_get ps (sn_serviceId n)) (0, 0)"
  "de_target (draw_edge m e) = nullish (map_get m (se_targetService e)) (se_targetService e)"
  by (simp_all add: draw_node_def draw_edge_def Let_def)

lemma fresh_well_drawn: "well_drawn (fresh_elements rank snap)"
  using graph_index_ok [of snap] positions_apart [of _ "enrichedNodes snap" _ rank]
  by (simp add: well_drawn_def fresh_elements_def image_image)

text \<open>What is kept was drawn from an earlier snapshot.\<close>

definition shows_well :: "stable_elements \<Rightarrow> bool" where
  "shows_well previous = (case previous of None \<Rightarrow> True | Some (sig, els) \<Rightarrow> well_drawn els)"

interpretation drawing: reactive "render_graph rank" shows_well for rank
  by unfold_locales (auto simp: shows_well_def render_graph_def drawn_elements_def fresh_well_drawn split: option.splits)

text \<open>C22.
  After any sequence of renderings the drawing is well formed: every edge joins two nodes that are
  drawn, placeholders included, and two nodes with different ids are at least one cell of the grid
  apart.\<close>

theorem drawing_is_well_formed:
  assumes "foldl (render_graph rank) None snaps = Some (sig, els)"
  shows "(\<forall>e \<in> set (el_edges els). de_source e \<in> dn_id ` set (el_nodes els) \<and> de_target e \<in> dn_id ` set (el_nodes els))
    \<and> (\<forall>a \<in> set (el_nodes els). \<forall>b \<in> set (el_nodes els). dn_id a \<noteq> dn_id b \<longrightarrow> apart (dn_position a) (dn_position b))"
  using drawing.inv_run [of None rank snaps] assms by (simp add: shows_well_def well_drawn_def)

definition lone_edge :: service_edge where
  "lone_edge = \<lparr>se_sourceServiceId = ''x'', se_targetService = ''Y'', se_state = CONNECTION_STATE_ACTIVE,
     se_lastActivityMs = ''0'', se_totalRequests = ''1'', se_totalErrors = ''0'', se_avgLatencyMs = 0, se_rps = 0\<rparr>"

definition lone_snapshot :: topology_snapshot where
  "lone_snapshot = \<lparr>ts_nodes = [], ts_edges = [lone_edge], ts_timestampMs = ''0''\<rparr>"

theorem drawing_is_well_formed_witness:
  "\<exists>els. foldl (render_graph (\<lambda>s. 0)) None [lone_snapshot] = Some (visualSignature lone_snapshot, els)
    \<and> length (el_edges els) = 1 \<and> (\<forall>e \<in> set (el_edges els). de_source e \<in> dn_id ` set (el_nodes els))"
proof -
  let ?els = "fresh_elements (\<lambda>s. 0) lone_snapshot"
  have r: "foldl (render_graph (\<lambda>s. 0)) None [lone_snapshot] = Some (visualSignature lone_snapshot, ?els)"
    by (simp add: render_graph_def drawn_elements_def)
  moreover have "length (el_edges ?els) = 1" by (simp add: fresh_elements_def lone_snapshot_def)
  ultimately show ?thesis using drawing_is_well_formed [OF r] by blast
qed

end
