(* ===== verification/Js_Arith.thy ===== *)
theory Js_Arith
  imports Js_Numeric Js_Number
begin

text \<open>
  The operators of JavaScript on all numbers: not-a-number, the two infinities and the finite
  doubles.  The sign of zero is not represented, so a division by zero is one by positive zero.
\<close>

definition js_sign :: "js_number \<Rightarrow> int" where
  "js_sign x =
     (case x of NaN \<Rightarrow> 0 | Infinite positive \<Rightarrow> if positive then 1 else - 1
      | Finite q \<Rightarrow> if 0 < q then 1 else if q < 0 then - 1 else 0)"

fun js_add :: "js_number \<Rightarrow> js_number \<Rightarrow> js_number" where
  "js_add (Finite a) (Finite b) = to_double (a + b)"
| "js_add NaN y = NaN"
| "js_add x NaN = NaN"
| "js_add (Infinite p) (Infinite q) = (if p = q then Infinite p else NaN)"
| "js_add (Infinite p) (Finite b) = Infinite p"
| "js_add (Finite a) (Infinite q) = Infinite q"

fun js_neg :: "js_number \<Rightarrow> js_number" where
  "js_neg NaN = NaN"
| "js_neg (Infinite p) = Infinite (\<not> p)"
| "js_neg (Finite a) = Finite (- a)"

definition js_sub :: "js_number \<Rightarrow> js_number \<Rightarrow> js_number" where
  "js_sub x y = js_add x (js_neg y)"

text \<open>An infinity times something: not a number for zero, else an infinity by the signs.\<close>

definition js_mul :: "js_number \<Rightarrow> js_number \<Rightarrow> js_number" where
  "js_mul x y =
     (case (x, y) of
        (Finite a, Finite b) \<Rightarrow> to_double (a * b)
      | _ \<Rightarrow> if x = NaN \<or> y = NaN \<or> js_sign x * js_sign y = 0 then NaN else Infinite (js_sign x * js_sign y = 1))"

definition js_div :: "js_number \<Rightarrow> js_number \<Rightarrow> js_number" where
  "js_div x y =
     (case (x, y) of
        (Finite a, Finite b) \<Rightarrow> if b \<noteq> 0 then to_double (a / b) else if a = 0 then NaN else Infinite (0 < a)
      | (Finite a, Infinite q) \<Rightarrow> Finite 0
      | (Infinite p, Finite b) \<Rightarrow> Infinite (p = (0 \<le> b))
      | _ \<Rightarrow> NaN)"

fun js_abs :: "js_number \<Rightarrow> js_number" where
  "js_abs NaN = NaN"
| "js_abs (Infinite p) = Infinite True"
| "js_abs (Finite a) = Finite \<bar>a\<bar>"

definition js_sum :: "js_number list \<Rightarrow> js_number" where
  "js_sum xs = foldl js_add (Finite 0) xs"

text \<open>Integers that doubles hold exactly are added and multiplied exactly.\<close>

lemma js_add_int: "\<bar>i + j\<bar> \<le> 2 ^ 53 \<Longrightarrow> js_add (Finite (of_int i)) (Finite (of_int j)) = Finite (of_int (i + j))"
  using to_double_int [of "i + j"] by simp

lemma js_sub_int: "\<bar>i - j\<bar> \<le> 2 ^ 53 \<Longrightarrow> js_sub (Finite (of_int i)) (Finite (of_int j)) = Finite (of_int (i - j))"
  using to_double_int [of "i - j"] by (simp add: js_sub_def)

lemma js_mul_int: "\<bar>i * j\<bar> \<le> 2 ^ 53 \<Longrightarrow> js_mul (Finite (of_int i)) (Finite (of_int j)) = Finite (of_int (i * j))"
  using to_double_int [of "i * j"] by (simp add: js_mul_def)

lemma js_add_NaN [simp]: "js_add x NaN = NaN" "js_add NaN x = NaN"
  by (cases x; simp)+

lemma js_sub_NaN [simp]: "js_sub x NaN = NaN" "js_sub NaN x = NaN"
  by (simp_all add: js_sub_def)

lemma js_mul_NaN [simp]: "js_mul x NaN = NaN" "js_mul NaN x = NaN"
  by (simp_all add: js_mul_def split: js_number.split)

lemma js_div_NaN [simp]: "js_div x NaN = NaN" "js_div NaN x = NaN"
  by (simp_all add: js_div_def split: js_number.split)

subsection \<open>Printing with a fixed number of decimals\<close>

text \<open>\<open>toFixed\<close> of a number below \<open>10 ^ 21\<close>: the nearest decimal, the larger one if two are equally near.\<close>

definition fixed_digits :: "nat \<Rightarrow> rat \<Rightarrow> nat" where
  "fixed_digits f x = nat \<lfloor>x * 10 ^ f + 1 / 2\<rfloor>"

definition fixed_text :: "nat \<Rightarrow> rat \<Rightarrow> string" where
  "fixed_text f x =
     (let m = string_of_nat (fixed_digits f x);
          m = replicate (f + 1 - length m) (CHR ''0'') @ m
      in if f = 0 then m else take (length m - f) m @ ''.'' @ drop (length m - f) m)"

fun toFixed :: "nat \<Rightarrow> js_number \<Rightarrow> string" where
  "toFixed f NaN = ''NaN''"
| "toFixed f (Infinite positive) = (if positive then ''Infinity'' else ''-Infinity'')"
| "toFixed f (Finite x) = (if x < 0 then CHR ''-'' # fixed_text f (- x) else fixed_text f x)"

lemma fixed_digits_near: "0 \<le> x \<Longrightarrow> \<bar>of_nat (fixed_digits f x) / 10 ^ f - x\<bar> \<le> 1 / (2 * 10 ^ f)"
proof -
  assume x: "0 \<le> x"
  let ?y = "x * 10 ^ f + 1 / 2" and ?p = "10 ^ f :: rat"
  have "0 \<le> x * ?p" using x by simp
  then have y: "0 \<le> ?y" by (simp only: add_nonneg_nonneg zero_le_divide_1_iff zero_le_numeral)
  then have "0 \<le> \<lfloor>?y\<rfloor>" by (simp only: zero_le_floor)
  then have n: "of_nat (fixed_digits f x) = (of_int \<lfloor>?y\<rfloor> :: rat)" by (simp add: fixed_digits_def)
  have "\<bar>of_int \<lfloor>?y\<rfloor> - x * ?p\<bar> \<le> 1 / 2"
    using of_int_floor_le [of ?y] floor_correct [of ?y] by linarith
  then have "\<bar>of_int \<lfloor>?y\<rfloor> - x * ?p\<bar> / ?p \<le> 1 / 2 / ?p" by (rule divide_right_mono) simp
  moreover have "\<bar>of_int \<lfloor>?y\<rfloor> / ?p - x\<bar> = \<bar>of_int \<lfloor>?y\<rfloor> - x * ?p\<bar> / ?p"
  proof -
    have "of_int \<lfloor>?y\<rfloor> / ?p - x = (of_int \<lfloor>?y\<rfloor> - x * ?p) / ?p" by (simp add: diff_divide_distrib)
    then show ?thesis by (simp add: abs_divide)
  qed
  ultimately show ?thesis by (simp add: n)
qed

end
