(* ===== verification/Dashboard_View.thy ===== *)
theory Dashboard_View
  imports Topology_Graph Js_Arith
begin

text \<open>
  What the dashboard shows besides the graph (\<open>App.tsx\<close>, \<open>components/ServicesTable.tsx\<close>,
  \<open>ConnectionsTable.tsx\<close>, \<open>StatusPill.tsx\<close>, \<open>utils/formatters.ts\<close>): the contents of cards, tables and
  navigation, without the markup around them.  What depends on the browser's locale is an argument:
  the time of day of a timestamp, a number with its separators, and the place of a string in the order
  of \<open>localeCompare\<close>.
\<close>

definition formatTimestamp :: "(int \<Rightarrow> string) \<Rightarrow> string \<Rightarrow> string" where
  "formatTimestamp localTime v = (case parseInt v of None \<Rightarrow> ''-'' | Some ms \<Rightarrow> localTime ms)"

fun status_text :: "connection_status \<Rightarrow> string" where
  "status_text Connecting = ''connecting''"
| "status_text Live = ''live''"
| "status_text Error_Status = ''error''"

fun status_color :: "connection_status \<Rightarrow> string" where
  "status_color Live = ''#14b8a6''"
| "status_color Error_Status = ''#f97316''"
| "status_color Connecting = ''#38bdf8''"

subsection \<open>The tables\<close>

record service_row =
  sw_key :: string
  sw_service :: string
  sw_role :: "string option"
  sw_program :: string
  sw_instance :: "string option"
  sw_stateColor :: string
  sw_state :: string
  sw_lastHeartbeat :: string
  sw_lastActivity :: string
  sw_address :: string

definition meta_field :: "(service_metadata \<Rightarrow> string option) \<Rightarrow> service_node \<Rightarrow> string option" where
  "meta_field f node = Option.bind (sn_metadata node) f"

definition service_row :: "(int \<Rightarrow> string) \<Rightarrow> service_node \<Rightarrow> service_row" where
  "service_row localTime node =
     \<lparr>sw_key = sn_serviceId node, sw_service = nullish (meta_field meta_serviceInterface node) (sn_serviceName node),
      sw_role = or_undefined (meta_field meta_serviceRole node),
      sw_program = nullish (meta_field meta_programName node) (sn_serviceName node),
      sw_instance = or_undefined (formatInstanceId node),
      sw_stateColor = getServiceStateColor (sn_state node), sw_state = getServiceStateLabel (sn_state node),
      sw_lastHeartbeat = formatTimestamp localTime (sn_lastHeartbeatMs node),
      sw_lastActivity = formatTimestamp localTime (sn_lastActivityMs node),
      sw_address = nullish (sn_address node) ''-''\<rparr>"

definition ServicesTable :: "(int \<Rightarrow> string) \<Rightarrow> (string \<Rightarrow> nat) \<Rightarrow> service_node list \<Rightarrow> service_row list" where
  "ServicesTable localTime rank nodes = map (service_row localTime) (sort_key (rank \<circ> sn_serviceName) nodes)"

record connection_row =
  cr_key :: string
  cr_source :: string
  cr_target :: string
  cr_stateColor :: string
  cr_state :: string
  cr_rps :: string
  cr_avgLatency :: string
  cr_totalRequests :: string

definition connection_row :: "service_edge \<Rightarrow> connection_row" where
  "connection_row edge =
     \<lparr>cr_key = dashEdgeKey edge, cr_source = se_sourceServiceId edge, cr_target = se_targetService edge,
      cr_stateColor = getConnectionStateColor (se_state edge), cr_state = getConnectionStateLabel (se_state edge),
      cr_rps = toFixed 1 (Finite (se_rps edge)), cr_avgLatency = toFixed 1 (Finite (se_avgLatencyMs edge)) @ '' ms'',
      cr_totalRequests = se_totalRequests edge\<rparr>"

definition ConnectionsTable :: "(string \<Rightarrow> nat) \<Rightarrow> service_edge list \<Rightarrow> connection_row list" where
  "ConnectionsTable rank edges = map connection_row (sort_key (rank \<circ> dashEdgeKey) edges)"

subsection \<open>The shell\<close>

datatype dashboard_view = Overview | Topology_View | Services_View | Connections_View | Stream_View

record dashboard_app =
  da_activeView :: dashboard_view
  da_opened :: bool
  da_dark :: bool

datatype app_event = Navigate dashboard_view | Toggle_Burger | Toggle_Colors

definition new_app :: "bool \<Rightarrow> dashboard_app" where
  "new_app dark = \<lparr>da_activeView = Overview, da_opened = False, da_dark = dark\<rparr>"

fun app_step :: "dashboard_app \<Rightarrow> app_event \<Rightarrow> dashboard_app" where
  "app_step a (Navigate view) = a\<lparr>da_activeView := view, da_opened := False\<rparr>"
| "app_step a Toggle_Burger = a\<lparr>da_opened := \<not> da_opened a\<rparr>"
| "app_step a Toggle_Colors = a\<lparr>da_dark := \<not> da_dark a\<rparr>"

definition lastUpdate :: "stream_state \<Rightarrow> string" where
  "lastUpdate st = (if st_lastEventMs st \<noteq> ''0'' then st_lastEventMs st else ts_timestampMs (st_snapshot st))"

text \<open>Id, label and description of the navigation.\<close>

definition NAV_ITEMS :: "(string \<times> string \<times> string) list" where
  "NAV_ITEMS =
     [(''overview'', ''Overview'', ''Snapshot highlights and health signals.''),
      (''topology'', ''Topology'', ''Interactive service graph view.''),
      (''services'', ''Services'', ''Registered services and runtime status.''),
      (''connections'', ''Connections'', ''Live connections and traffic levels.''),
      (''stream'', ''Stream'', ''Topology stream and connection details.'')]"

definition navItems :: "topology_snapshot \<Rightarrow> (string \<times> string \<times> string) list" where
  "navItems snap =
     map (\<lambda>(i, label, description).
       if i = ''services'' then (i, label, string_of_nat (length (ts_nodes snap)) @ '' services registered.'')
       else if i = ''connections'' then (i, label, string_of_nat (length (ts_edges snap)) @ '' active connections.'')
       else (i, label, description)) NAV_ITEMS"

definition upper :: "char \<Rightarrow> char" where
  "upper c = (if 97 \<le> (of_char c :: nat) \<and> (of_char c :: nat) \<le> 122 then char_of ((of_char c :: nat) - 32) else c)"

text \<open>Label, value and hint of the cards.\<close>

definition overviewStats :: "(int \<Rightarrow> string) \<Rightarrow> (nat \<Rightarrow> string) \<Rightarrow> stream_state \<Rightarrow> (string \<times> string \<times> string) list" where
  "overviewStats localTime localNumber st =
     [(''Services'', localNumber (length (ts_nodes (st_snapshot st))), ''Registered in the runtime.''),
      (''Connections'', localNumber (length (ts_edges (st_snapshot st))), ''Active routing edges.''),
      (''Last Update'', formatTimestamp localTime (lastUpdate st), ''Most recent snapshot.''),
      (''Stream'', map upper (status_text (st_status st)), ''Topology feed status.'')]"

subsection \<open>Nothing is left out\<close>

lemma tables_show_everything:
  "set (map sw_key (ServicesTable localTime rank (ts_nodes snap))) = sn_serviceId ` set (ts_nodes snap)"
  "length (ServicesTable localTime rank (ts_nodes snap)) = length (ts_nodes snap)"
  "set (map cr_key (ConnectionsTable rank (ts_edges snap))) = dashEdgeKey ` set (ts_edges snap)"
  "length (ConnectionsTable rank (ts_edges snap)) = length (ts_edges snap)"
  by (simp_all add: ServicesTable_def ConnectionsTable_def service_row_def connection_row_def image_image)

text \<open>Edges in any state are announced as active connections.\<close>

lemma idle_edges_count_as_active:
  "snd (snd (navItems snap ! 3)) = string_of_nat (length (ts_edges snap)) @ '' active connections.''"
  by (simp add: navItems_def NAV_ITEMS_def)

end
