(* ===== verification/Work_Items.thy ===== *)
theory Work_Items
  imports Pipeline_Services Js_Arith
begin

text \<open>
  The numerical work on a work item, in the three services: \<open>workitem-processor.ts\<close> of the parse,
  rules and aggregate service.  The items travel between the services as JSON.  \<open>Math.sqrt\<close>, which
  the language leaves approximate, is an argument, and so is what a processor makes of JSON that does
  not have the declared types (\<open>untyped\<close>).
\<close>

subsection \<open>Vectors in JSON\<close>

text \<open>A number or null, which counts as zero in arithmetic.\<close>

definition is_numeric :: "json \<Rightarrow> bool" where
  "is_numeric v = (case v of JNum _ \<Rightarrow> True | JNull \<Rightarrow> True | _ \<Rightarrow> False)"

definition number_of_json :: "json \<Rightarrow> js_number" where
  "number_of_json v = (case v of JNum q \<Rightarrow> Finite q | _ \<Rightarrow> Finite 0)"

text \<open>
  The numbers of \<open>v.values\<close>.  The rules service takes a missing list as empty and accepts null for a
  number; the parse service does not (\<open>strict\<close>).
\<close>

definition values_of :: "bool \<Rightarrow> json \<Rightarrow> json list option" where
  "values_of strict v =
     (case v of
        JObj fs \<Rightarrow>
          (case nullish (map_of fs ''values'') JNull of
             JNull \<Rightarrow> if strict then None else Some []
           | JArr xs \<Rightarrow> if list_all (\<lambda>x. is_numeric x \<and> (strict \<longrightarrow> x \<noteq> JNull)) xs then Some xs else None
           | _ \<Rightarrow> None)
      | _ \<Rightarrow> None)"

definition vectors_of :: "bool \<Rightarrow> json \<Rightarrow> json list list option" where
  "vectors_of strict v = (case v of JArr xs \<Rightarrow> those (map (values_of strict) xs) | _ \<Rightarrow> None)"

definition rows_of :: "bool \<Rightarrow> json \<Rightarrow> json list list option" where
  "rows_of strict v =
     (case v of
        JObj fs \<Rightarrow> (case nullish (map_of fs ''rows'') JNull of
            JNull \<Rightarrow> if strict then None else Some []
          | rows \<Rightarrow> vectors_of strict rows)
      | _ \<Rightarrow> None)"

definition vector_json :: "js_number list \<Rightarrow> json" where
  "vector_json xs = JObj [(''values'', JArr (map finite_json xs))]"

subsection \<open>The parse service\<close>

record work_item =
  wi_id :: string
  wi_vectors :: "js_number list list"
  wi_matrix :: "js_number list list"
  wi_iterations :: "rat option"

record processed_item =
  pi_id :: string
  pi_normalizedVectors :: "js_number list list"
  pi_transposedMatrix :: "js_number list list"
  pi_checksum :: js_number

definition decode_work_item :: "json \<Rightarrow> work_item option" where
  "decode_work_item data =
     (case (field_of data ''id'', field_of data ''vectors'', field_of data ''matrix'', field_of data ''iterations'') of
        (Some (JStr i), Some vectors, Some matrix, iterations) \<Rightarrow>
          (case (vectors_of True vectors, rows_of True matrix) of
             (Some vs, Some rows) \<Rightarrow>
               (case iterations of
                  Some (JNum q) \<Rightarrow> Some \<lparr>wi_id = i, wi_vectors = map (map number_of_json) vs,
                    wi_matrix = map (map number_of_json) rows, wi_iterations = Some q\<rparr>
                | None \<Rightarrow> Some \<lparr>wi_id = i, wi_vectors = map (map number_of_json) vs,
                    wi_matrix = map (map number_of_json) rows, wi_iterations = None\<rparr>
                | _ \<Rightarrow> None)
           | _ \<Rightarrow> None)
      | _ \<Rightarrow> None)"

definition normalizeVector :: "(js_number \<Rightarrow> js_number) \<Rightarrow> js_number list \<Rightarrow> js_number list" where
  "normalizeVector sqroot values =
     (let magnitude = sqroot (foldl (\<lambda>sum v. js_add sum (js_mul v v)) (Finite 0) values)
      in if magnitude = Finite 0 then values else map (\<lambda>v. js_div v magnitude) values)"

text \<open>A row may be shorter than the first one: its missing values become zero.\<close>

definition transposeMatrix :: "js_number list list \<Rightarrow> js_number list list" where
  "transposeMatrix rows =
     (if rows = [] then []
      else map (\<lambda>col. map (\<lambda>row. if col < length row then row ! col else Finite 0) rows) [0..<length (hd rows)])"

definition thousandth :: js_number where
  "thousandth = Finite (fl (1 / 1000))"

definition computeChecksum :: "js_number list list \<Rightarrow> nat \<Rightarrow> js_number" where
  "computeChecksum vectors iteration =
     foldl (\<lambda>sum v. js_add sum (js_mul (js_mul v (Finite (of_nat (iteration + 1)))) thousandth)) (Finite 0) (concat vectors)"

text \<open>\<open>i < item.iterations\<close>, which is false from the start when there are none.\<close>

definition loop_count :: "rat option \<Rightarrow> nat" where
  "loop_count iterations = (case iterations of None \<Rightarrow> 0 | Some q \<Rightarrow> nat \<lceil>q\<rceil>)"

definition processWorkItem :: "(js_number \<Rightarrow> js_number) \<Rightarrow> work_item \<Rightarrow> processed_item" where
  "processWorkItem sqroot item =
     (let normalizedVectors = map (normalizeVector sqroot) (wi_vectors item)
      in \<lparr>pi_id = wi_id item, pi_normalizedVectors = normalizedVectors,
          pi_transposedMatrix = transposeMatrix (wi_matrix item),
          pi_checksum = foldl (\<lambda>checksum i. js_add checksum (computeChecksum normalizedVectors i)) (Finite 0)
            [0..<loop_count (wi_iterations item)]\<rparr>)"

definition processed_json :: "processed_item \<Rightarrow> json" where
  "processed_json p =
     JObj [(''id'', JStr (pi_id p)), (''normalizedVectors'', JArr (map vector_json (pi_normalizedVectors p))),
           (''transposedMatrix'', JObj [(''rows'', JArr (map vector_json (pi_transposedMatrix p)))]),
           (''checksum'', finite_json (pi_checksum p))]"

definition parse_work :: "(js_number \<Rightarrow> js_number) \<Rightarrow> (json \<Rightarrow> json option) \<Rightarrow> json \<Rightarrow> json option" where
  "parse_work sqroot untyped data =
     (case decode_work_item data of
        Some item \<Rightarrow> Some (processed_json (processWorkItem sqroot item))
      | None \<Rightarrow> untyped data)"

subsection \<open>The rules service\<close>

text \<open>\<open>f(x) * (i + 1) * 0.001\<close> summed up \<open>n\<close> times.\<close>

definition repeated_sum :: "nat \<Rightarrow> js_number \<Rightarrow> js_number" where
  "repeated_sum n x =
     foldl (\<lambda>sum i. js_add sum (js_mul (js_mul x (Finite (of_nat (i + 1)))) thousandth)) (Finite 0) [0..<n]"

text \<open>What the rules service reads of an item; the names are those the other languages write.\<close>

record rules_input =
  ri_id :: "json option"
  ri_normalized_vectors :: "json list list"
  ri_transposed_matrix :: "json list list"
  ri_checksum :: js_number

definition decode_processed :: "json \<Rightarrow> rules_input option" where
  "decode_processed data =
     (let vectors = (case field_of data ''normalized_vectors'' of
            None \<Rightarrow> Some [] | Some JNull \<Rightarrow> Some [] | Some v \<Rightarrow> vectors_of False v);
          rows = (case field_of data ''transposed_matrix'' of
            None \<Rightarrow> Some [] | Some JNull \<Rightarrow> Some [] | Some v \<Rightarrow> rows_of False v);
          checksum = (case field_of data ''checksum'' of
            None \<Rightarrow> Some (Finite 0) | Some v \<Rightarrow> if is_numeric v then Some (number_of_json v) else None)
      in case (vectors, rows, checksum) of
           (Some vs, Some rs, Some c) \<Rightarrow>
             Some \<lparr>ri_id = field_of data ''id'', ri_normalized_vectors = vs, ri_transposed_matrix = rs, ri_checksum = c\<rparr>
         | _ \<Rightarrow> None)"

text \<open>The variance and its root are computed but not used.  \<open>elapsed\<close> is the time it took.\<close>

definition enrich_item :: "int \<Rightarrow> rules_input \<Rightarrow> json" where
  "enrich_item elapsed p =
     (let allValues = concat (ri_normalized_vectors p);
          mean = (if length allValues > 0
                  then js_div (js_sum (map number_of_json allValues)) (Finite (of_nat (length allValues))) else Finite 0);
          eigenvalues = take 5 allValues;
          matrixScore = foldl (\<lambda>sum row. js_add sum (js_sum (map number_of_json row))) (Finite 0) (ri_transposed_matrix p);
          enrichedScore = repeated_sum 500 (js_add (js_add (ri_checksum p) matrixScore) mean)
      in JObj ((case ri_id p of Some i \<Rightarrow> [(''id'', i)] | None \<Rightarrow> []) @
           [(''eigenvalues'', JArr eigenvalues), (''score'', finite_json enrichedScore),
            (''processing_time_ms'', JNum (of_int elapsed))]))"

definition rules_work :: "int \<Rightarrow> (json \<Rightarrow> json option) \<Rightarrow> json \<Rightarrow> json option" where
  "rules_work elapsed untyped data =
     (if data = JNull then None
      else (case decode_processed data of Some p \<Rightarrow> Some (enrich_item elapsed p) | None \<Rightarrow> untyped data))"

subsection \<open>The aggregate service\<close>

definition dot_products :: "js_number list \<Rightarrow> js_number list" where
  "dot_products xs = map (\<lambda>i. js_mul (xs ! i) (xs ! (i + 1))) [0..<length xs - 1]"

definition final_score :: "js_number \<Rightarrow> js_number list \<Rightarrow> js_number" where
  "final_score score eigenvalues =
     (let finalScore = repeated_sum 50 (js_add score (js_sum eigenvalues));
          finalScore = foldl (\<lambda>sum dp. js_add sum (js_mul (js_abs dp) (Finite (fl (1 / 10))))) finalScore (dot_products eigenvalues)
      in case finalScore of Finite q \<Rightarrow> Finite q | _ \<Rightarrow> Finite 0)"

definition processEnrichedWorkItem ::
  "js_library \<Rightarrow> (json \<Rightarrow> work_result option) \<Rightarrow> string \<Rightarrow> work_result option" where
  "processEnrichedWorkItem lib untyped enrichedJSON =
     (case lib_parse lib enrichedJSON of
        None \<Rightarrow> None
      | Some item \<Rightarrow>
          if item = JNull then None
          else (case (field_of item ''eigenvalues'', field_of item ''id'') of
                  (Some (JArr xs), Some (JStr i)) \<Rightarrow>
                    (case field_of item ''score'' of
                       None \<Rightarrow> if list_all is_numeric xs
                         then Some \<lparr>wr_id = i, wr_finalScore = final_score NaN (map number_of_json xs)\<rparr> else untyped item
                     | Some v \<Rightarrow> if is_numeric v \<and> list_all is_numeric xs
                         then Some \<lparr>wr_id = i, wr_finalScore = final_score (number_of_json v) (map number_of_json xs)\<rparr>
                         else untyped item)
                | (Some (JArr xs), _) \<Rightarrow> untyped item
                | (_, Some (JStr i)) \<Rightarrow> Some \<lparr>wr_id = (if i \<noteq> [] then i else ''unknown''), wr_finalScore = Finite 0\<rparr>
                | (_, i) \<Rightarrow> if js_truthy i then untyped item else Some \<lparr>wr_id = ''unknown'', wr_finalScore = Finite 0\<rparr>))"

subsection \<open>Transposing\<close>

text \<open>
  Transposing a rectangular matrix with at least one column turns element (i, j) into element
  (j, i), and transposing twice gives the matrix back.\<close>

theorem transpose_twice:
  assumes "rows \<noteq> []" "0 < n" "\<forall>row \<in> set rows. length row = n"
  shows "length (transposeMatrix rows) = n \<and> transposeMatrix (transposeMatrix rows) = rows
    \<and> (\<forall>i < length rows. \<forall>j < n. transposeMatrix rows ! j ! i = rows ! i ! j)"
proof -
  have h: "length (hd rows) = n" using assms(1,3) by simp
  then have t: "transposeMatrix rows = map (\<lambda>j. map (\<lambda>row. row ! j) rows) [0..<n]"
    using assms by (auto simp: transposeMatrix_def intro!: map_cong)
  then have e: "transposeMatrix rows ! j ! i = rows ! i ! j" if "i < length rows" "j < n" for i j
    using that by simp
  have "hd (transposeMatrix rows) = map (\<lambda>row. row ! 0) rows" using assms(2) unfolding t by (simp add: upt_conv_Cons)
  then have "transposeMatrix (transposeMatrix rows) = map (\<lambda>i. map (\<lambda>j. rows ! i ! j) [0..<n]) [0..<length rows]"
    using assms(2) unfolding transposeMatrix_def [of "transposeMatrix rows"] by (simp add: t)
  also have "\<dots> = map (\<lambda>i. rows ! i) [0..<length rows]"
  proof (rule map_cong)
    fix i assume "i \<in> set [0..<length rows]"
    then have "length (rows ! i) = n" using assms(3) by simp
    then show "map (\<lambda>j. rows ! i ! j) [0..<n] = rows ! i" using map_nth [of "rows ! i"] by simp
  qed simp
  finally have "transposeMatrix (transposeMatrix rows) = rows" by (simp add: map_nth)
  with e show ?thesis by (simp add: t)
qed

theorem transpose_twice_witness:
  "transposeMatrix (transposeMatrix [[Finite 1, Finite 2, Finite 3], [Finite 4, Finite 5, Finite 6]]) =
     [[Finite 1, Finite 2, Finite 3], [Finite 4, Finite 5, Finite 6]]"
  using transpose_twice [of "[[Finite 1, Finite 2, Finite 3], [Finite 4, Finite 5, Finite 6]]" 3] by simp

subsection \<open>A work item on its way through the services\<close>

text \<open>A number after a trip through JSON, where what is not finite becomes null.\<close>

definition through_json :: "js_number \<Rightarrow> js_number" where
  "through_json x = number_of_json (finite_json x)"

text \<open>The score that the checksum alone gives.\<close>

definition score_of_checksum :: "js_number \<Rightarrow> js_number" where
  "score_of_checksum c =
     final_score (through_json (repeated_sum 500 (js_add (js_add (through_json c) (Finite 0)) (Finite 0)))) []"

lemma is_numeric_finite [simp]: "is_numeric (finite_json x)"
  by (simp add: is_numeric_def finite_json_def split: js_number.split)

lemma decode_processed_json:
  "decode_processed (processed_json p) =
     Some \<lparr>ri_id = Some (JStr (pi_id p)), ri_normalized_vectors = [], ri_transposed_matrix = [],
           ri_checksum = through_json (pi_checksum p)\<rparr>"
  by (simp add: decode_processed_def processed_json_def field_of_def through_json_def)

definition work_enriched :: "int \<Rightarrow> processed_item \<Rightarrow> json" where
  "work_enriched elapsed p =
     JObj [(''id'', JStr (pi_id p)), (''eigenvalues'', JArr []),
       (''score'', finite_json (repeated_sum 500 (js_add (js_add (through_json (pi_checksum p)) (Finite 0)) (Finite 0)))),
       (''processing_time_ms'', JNum (of_int elapsed))]"

lemma rules_work_processed: "rules_work elapsed untyped (processed_json p) = Some (work_enriched elapsed p)"
proof -
  have "processed_json p \<noteq> JNull" by (simp add: processed_json_def)
  then show ?thesis by (simp add: rules_work_def decode_processed_json enrich_item_def work_enriched_def js_sum_def)
qed

text \<open>JSON text that is read back as what was written.\<close>

definition reads_back :: "js_library \<Rightarrow> json \<Rightarrow> bool" where
  "reads_back lib v \<longleftrightarrow> lib_parse lib (lib_stringify lib v) = Some v"

lemma process_enriched:
  assumes "reads_back lib (work_enriched elapsed p)"
  shows "processEnrichedWorkItem lib untyped (lib_stringify lib (work_enriched elapsed p)) =
    Some \<lparr>wr_id = pi_id p, wr_finalScore = score_of_checksum (pi_checksum p)\<rparr>"
  using assms unfolding reads_back_def
  by (simp add: processEnrichedWorkItem_def work_enriched_def field_of_def score_of_checksum_def through_json_def)

text \<open>C24.
  What the single-event calls of parse, rules and aggregate service make of a work item: a result with
  the item's id and a score that depends on the checksum of its normalised vectors only.  Neither the
  matrix nor any feature contributes, because the rules service reads the items under names the
  parse service does not write.\<close>

theorem work_item_result_ignores_the_matrix:
  assumes "work_item_of lib raw = Some data" "decode_work_item data = Some item"
    and "p = processWorkItem sqroot item" "reads_back lib (processed_json p)" "reads_back lib (work_enriched elapsed p)"
  shows "\<exists>parsed enriched. parseEvents lib (parse_work sqroot u1) now (Some raw) = [parsed]
    \<and> applyRules lib (rules_work elapsed u2) (Some parsed) = [enriched]
    \<and> an_workItems (aggregation_data (processEnrichedWorkItem lib u3) (Some enriched) a) =
        an_workItems a @ [\<lparr>wr_id = wi_id item, wr_finalScore = score_of_checksum (pi_checksum p)\<rparr>]"
proof -
  have i: "pi_id p = wi_id item" by (simp add: assms(3) processWorkItem_def Let_def)
  define parsed where "parsed = \<lparr>pv_type = ''work-item'', pv_user = lib_stringify lib (processed_json p), pv_value = ''0'',
      pv_timestamp = string_of_int now, pv_sequence = ev_sequence raw\<rparr>"
  have 1: "parseEvents lib (parse_work sqroot u1) now (Some raw) = [parsed]"
    using assms(1,2) by (simp add: parseEvents_def parse_one_def parse_work_def assms(3) parsed_def)
  define enriched where "enriched = \<lparr>en_event = Some (parsed\<lparr>pv_user := lib_stringify lib (work_enriched elapsed p)\<rparr>),
      en_metadata = [(''workload'', ''compute-heavy'')], en_passedRules = True\<rparr>"
  have 2: "applyRules lib (rules_work elapsed u2) (Some parsed) = [enriched]"
    using assms(4) by (simp add: applyRules_def rules_one_def parsed_def reads_back_def rules_work_processed enriched_def)
  have "aggregation_data (processEnrichedWorkItem lib u3) (Some enriched) a =
      a\<lparr>an_workItems := an_workItems a @ [\<lparr>wr_id = wi_id item, wr_finalScore = score_of_checksum (pi_checksum p)\<rparr>]\<rparr>"
    using process_enriched [OF assms(5), of u3]
    by (simp add: aggregation_data_def aggregate_event_def enriched_def parsed_def i)
  with 1 2 show ?thesis by auto
qed

definition sample_item :: work_item where
  "sample_item = \<lparr>wi_id = ''w-1'', wi_vectors = [[Finite 3, Finite 4]], wi_matrix = [[Finite 1]], wi_iterations = Some 2\<rparr>"

definition sample_item_json :: json where
  "sample_item_json = JObj [(''id'', JStr ''w-1''),
     (''vectors'', JArr [JObj [(''values'', JArr [JNum 3, JNum 4])]]),
     (''matrix'', JObj [(''rows'', JArr [JObj [(''values'', JArr [JNum 1])]])]), (''iterations'', JNum 2)]"

definition sample_processed :: processed_item where
  "sample_processed = processWorkItem (\<lambda>x. Finite 5) sample_item"

definition sample_json_library :: js_library where
  "sample_json_library = \<lparr>
     lib_parse = (\<lambda>s. if s = ''p'' then Some (processed_json sample_processed)
        else if s = ''e'' then Some (work_enriched 1 sample_processed) else Some sample_item_json),
     lib_stringify = (\<lambda>v. if v = processed_json sample_processed then ''p'' else ''e''),
     lib_date = (\<lambda>s. None), lib_print = (\<lambda>q. [])\<rparr>"

lemma sample_json_facts:
  "reads_back sample_json_library (processed_json sample_processed)"
  "reads_back sample_json_library (work_enriched 1 sample_processed)"
  "decode_work_item sample_item_json = Some sample_item"
proof -
  have "work_enriched 1 sample_processed \<noteq> processed_json sample_processed" by (simp add: work_enriched_def processed_json_def)
  then show "reads_back sample_json_library (processed_json sample_processed)"
    "reads_back sample_json_library (work_enriched 1 sample_processed)"
    by (simp_all add: reads_back_def sample_json_library_def)
  show "decode_work_item sample_item_json = Some sample_item"
    by (simp add: decode_work_item_def sample_item_json_def sample_item_def field_of_def vectors_of_def rows_of_def
        values_of_def is_numeric_def number_of_json_def)
qed

theorem work_item_result_ignores_the_matrix_witness:
  "\<exists>parsed enriched. parseEvents sample_json_library (parse_work (\<lambda>x. Finite 5) (\<lambda>v. None)) 7
      (Some \<lparr>ev_rawJson = ''w'', ev_sequence = ''0''\<rparr>) = [parsed]
    \<and> applyRules sample_json_library (rules_work 1 (\<lambda>v. None)) (Some parsed) = [enriched]
    \<and> an_workItems (aggregation_data (processEnrichedWorkItem sample_json_library (\<lambda>v. None)) (Some enriched) new_aggregation) =
        [\<lparr>wr_id = ''w-1'', wr_finalScore = score_of_checksum (pi_checksum sample_processed)\<rparr>]"
proof -
  have "work_item_of sample_json_library \<lparr>ev_rawJson = ''w'', ev_sequence = ''0''\<rparr> = Some sample_item_json"
    by (simp add: work_item_of_def sample_json_library_def sample_item_json_def field_of_def)
  from work_item_result_ignores_the_matrix [OF this sample_json_facts(3) sample_processed_def sample_json_facts(1,2),
      of "\<lambda>v. None" 7 "\<lambda>v. None" "\<lambda>v. None" new_aggregation]
  show ?thesis by (simp add: new_aggregation_def sample_item_def)
qed

end
