(* ===== verification/Calculator.thy ===== *)
theory Calculator
  imports Broker Reporter Topology_Store Topology_Graph Js_Arith
begin

text \<open>
  The calculator (\<open>apps/calculator-server/src/calculator-server.ts\<close>, \<open>apps/calculator-client/src/
  calculator-client.ts\<close>): a server that binds, registers with the broker whenever the broker is
  reached, and reports to the topology; and a client that looks it up.  Broker, broker client and
  reporter are the models of those components; a call of the broker and its answer are one step.
\<close>

definition CALCULATOR_SERVICE_INTERFACE :: string where
  "CALCULATOR_SERVICE_INTERFACE = ''calculator.v1.CalculatorService''"

definition CALCULATOR_SERVICE_ROLE :: string where
  "CALCULATOR_SERVICE_ROLE = ''default''"

subsection \<open>Command lines\<close>

record calculator_config =
  ca_address :: string
  ca_brokerAddress :: string
  ca_topologyAddress :: string
  ca_topologyEnabled :: bool

text \<open>The loop of both programs; only the server has \<open>--address\<close>.  A flag without a value and what is
  not known are passed over.\<close>

fun calculator_args :: "bool \<Rightarrow> string list \<Rightarrow> calculator_config \<Rightarrow> calculator_config" where
  "calculator_args server [] c = c"
| "calculator_args server [a] c = (if a = ''--no-topology'' then c\<lparr>ca_topologyEnabled := False\<rparr> else c)"
| "calculator_args server (a # v # args) c =
     (if server \<and> a = ''--address'' then calculator_args server args (c\<lparr>ca_address := v\<rparr>)
      else if a = ''--broker-address'' then calculator_args server args (c\<lparr>ca_brokerAddress := v\<rparr>)
      else if a = ''--topology-address'' then calculator_args server args (c\<lparr>ca_topologyAddress := v\<rparr>)
      else if a = ''--no-topology'' then calculator_args server (v # args) (c\<lparr>ca_topologyEnabled := False\<rparr>)
      else calculator_args server (v # args) c)"

definition calculator_config :: "bool \<Rightarrow> string option \<Rightarrow> string option \<Rightarrow> string list \<Rightarrow> calculator_config" where
  "calculator_config server topologyAddress topologyEnabled args =
     calculator_args server args
       \<lparr>ca_address = ''127.0.0.1:5555'', ca_brokerAddress = ''127.0.0.1:50051'',
        ca_topologyAddress = nullish topologyAddress ''127.0.0.1:50053'',
        ca_topologyEnabled = (topologyEnabled \<noteq> Some ''false'')\<rparr>"

definition calculator_client_config :: "string option \<Rightarrow> string option \<Rightarrow> string list \<Rightarrow> calculator_config" where
  "calculator_client_config topologyAddress topologyEnabled args = calculator_config False topologyAddress topologyEnabled args"

text \<open>\<open>const [url, portStr] = address.split(':')\<close>, and the port, if it is a number.\<close>

definition endpoint_of :: "string \<Rightarrow> string \<times> int option" where
  "endpoint_of address =
     (let parts = split_on CHR '':'' address in (hd parts, Option.bind (nth_part parts 1) parseInt))"

subsection \<open>Calculating\<close>

datatype operation = OPERATION_UNSPECIFIED | OPERATION_ADD | OPERATION_SUBTRACT | OPERATION_MULTIPLY | OPERATION_DIVIDE

fun calculate :: "js_number \<Rightarrow> js_number \<Rightarrow> operation \<Rightarrow> string + js_number" where
  "calculate x y OPERATION_ADD = Inr (js_add x y)"
| "calculate x y OPERATION_SUBTRACT = Inr (js_sub x y)"
| "calculate x y OPERATION_MULTIPLY = Inr (js_mul x y)"
| "calculate x y OPERATION_DIVIDE = Inr (js_div x y)"
| "calculate x y OPERATION_UNSPECIFIED = Inl ''Invalid operation''"

text \<open>The handler: the response, whose error is always empty, or the exception.\<close>

definition calculate_call :: "js_number \<Rightarrow> js_number \<Rightarrow> operation \<Rightarrow> string + js_number \<times> string" where
  "calculate_call x y op = (case calculate x y op of Inl e \<Rightarrow> Inl e | Inr result \<Rightarrow> Inr (result, []))"

subsection \<open>The server\<close>

text \<open>
  Where \<open>startServer\<close> is, and where each running \<open>handleShutdown\<close> is: at the broker it waits for the
  promises of its calls.
\<close>

datatype start_phase = Binding | Bind_Delay nat | Started | Abandoned

datatype shutdown_stage = At_Broker "unregistering list" | At_Reporter | At_Server

record calculator_server =
  cs_url :: string
  cs_port :: int
  cs_topologyEnabled :: bool
  cs_host :: string
  cs_phase :: start_phase
  cs_retryDelayMs :: nat
  cs_serverInstance :: bool
  cs_shuttingDown :: bool
  cs_manager :: "broker_client option"
  cs_reporter :: "reporter option"
  cs_stages :: "shutdown_stage list"
  cs_exited :: bool

datatype calculator_event =
    Bind_Result "string option"
  | Bind_Delay_Over
  | Broker_Connected
  | Broker_Lost
  | Broker_Restarted
  | Broker_Settled
  | Reporter_Event reporter_event
  | Server_Stopped
  | Shutdown_Signal

definition endpoint_text :: "string \<Rightarrow> int \<Rightarrow> string" where
  "endpoint_text url port = url @ '':'' @ string_of_int port"

definition server_reporter_options :: "string \<Rightarrow> int \<Rightarrow> string \<Rightarrow> reporter_options" where
  "server_reporter_options url port host =
     \<lparr>ro_serviceName = ''calculator-server'', ro_serviceType = SERVICE_TYPE_SERVER,
      ro_language = SERVICE_LANGUAGE_TYPESCRIPT, ro_version = None, ro_address = Some (endpoint_text url port),
      ro_host = Some host,
      ro_metadata = Some \<lparr>meta_region = None, meta_environment = None, meta_team = None, meta_versionHash = None,
        meta_serviceInterface = Some CALCULATOR_SERVICE_INTERFACE, meta_serviceRole = Some CALCULATOR_SERVICE_ROLE,
        meta_programName = Some ''calculator-server''\<rparr>,
      ro_enableActivity = Some True\<rparr>"


definition startTopologyReporter :: "calculator_server \<Rightarrow> calculator_server" where
  "startTopologyReporter s =
     (if \<not> cs_topologyEnabled s \<or> cs_reporter s \<noteq> None then s
      else s\<lparr>cs_reporter := Some (start (new_reporter (server_reporter_options (cs_url s) (cs_port s) (cs_host s))))\<rparr>)"

definition brokerManagerInstance :: "calculator_server \<Rightarrow> calculator_server" where
  "brokerManagerInstance s = s\<lparr>cs_manager := Some \<lparr>bc_connected = False, bc_registered = []\<rparr>\<rparr>"

text \<open>\<open>main\<close> after \<open>startServer\<close>.\<close>

definition main_resumes :: "calculator_server \<Rightarrow> calculator_server" where
  "main_resumes s =
     (if cs_shuttingDown s then s\<lparr>cs_phase := Abandoned\<rparr>
      else startTopologyReporter (brokerManagerInstance (s\<lparr>cs_phase := Started\<rparr>)))"

text \<open>The outcome of a \<open>bindAsync\<close>, and the end of the delay after a failure.\<close>

definition bind_result :: "string option \<Rightarrow> calculator_server \<Rightarrow> calculator_server" where
  "bind_result err s =
     (if cs_phase s \<noteq> Binding then s
      else (case err of
              None \<Rightarrow> main_resumes (s\<lparr>cs_serverInstance := True\<rparr>)
            | Some _ \<Rightarrow> s\<lparr>cs_phase := Bind_Delay (cs_retryDelayMs s)\<rparr>))"

definition bind_delay_over :: "calculator_server \<Rightarrow> calculator_server" where
  "bind_delay_over s =
     (case cs_phase s of
        Bind_Delay _ \<Rightarrow>
          (let s = s\<lparr>cs_retryDelayMs := min (cs_retryDelayMs s * 2) 15000\<rparr>
           in if cs_shuttingDown s then main_resumes s else s\<lparr>cs_phase := Binding\<rparr>)
      | _ \<Rightarrow> s)"

text \<open>\<open>onConnected\<close>: the service is registered again each time.\<close>

definition broker_connected :: "calculator_server \<times> broker \<Rightarrow> calculator_server \<times> broker" where
  "broker_connected sb =
     (let (s, b) = sb in
      case cs_manager s of
        None \<Rightarrow> (s, b)
      | Some c \<Rightarrow>
          (let (c, b) = client_register (c\<lparr>bc_connected := True\<rparr>) b CALCULATOR_SERVICE_INTERFACE (cs_url s) (cs_port s)
           in (s\<lparr>cs_manager := Some c\<rparr>, b)))"

text \<open>
  The connection to the broker is lost: the manager drops its client, and the calls of
  \<open>unregisterService\<close> that are still open fail.
\<close>

definition manager_lost :: "broker_client option \<Rightarrow> broker_client option" where
  "manager_lost m = map_option (\<lambda>c. c\<lparr>bc_connected := False\<rparr>) m"

definition calls_lost :: "shutdown_stage \<Rightarrow> shutdown_stage" where
  "calls_lost st = (case st of At_Broker promises \<Rightarrow> At_Broker (map unregister_lost promises) | st \<Rightarrow> st)"

definition broker_lost :: "calculator_server \<Rightarrow> calculator_server" where
  "broker_lost s = s\<lparr>cs_manager := manager_lost (cs_manager s), cs_stages := map calls_lost (cs_stages s)\<rparr>"

text \<open>\<open>handleShutdown\<close>, from its last await backwards.\<close>

definition shutdown_server :: "calculator_server \<Rightarrow> calculator_server" where
  "shutdown_server s =
     (if cs_serverInstance s then s\<lparr>cs_stages := cs_stages s @ [At_Server]\<rparr> else s\<lparr>cs_exited := True\<rparr>)"

definition shutdown_reporter :: "calculator_server \<Rightarrow> calculator_server" where
  "shutdown_reporter s =
     (case cs_reporter s of
        None \<Rightarrow> shutdown_server s
      | Some r \<Rightarrow>
          if rp_isShuttingDown r then shutdown_server s
          else (let r = shutdown r; s = s\<lparr>cs_reporter := Some r\<rparr>
                in if rp_unregistering r then s\<lparr>cs_stages := cs_stages s @ [At_Reporter]\<rparr> else shutdown_server s))"

definition handleShutdown :: "calculator_server \<times> broker \<Rightarrow> calculator_server \<times> broker" where
  "handleShutdown sb =
     (let (s, b) = sb; s = s\<lparr>cs_shuttingDown := True\<rparr> in
      case cs_manager s of
        None \<Rightarrow> (shutdown_reporter s, b)
      | Some c \<Rightarrow>
          (let (promises, c, b) = client_shutdown c b
           in (s\<lparr>cs_manager := Some c, cs_stages := cs_stages s @ [At_Broker promises]\<rparr>, b)))"

text \<open>\<open>await brokerManager?.shutdown()\<close> is over for a handler all of whose promises are settled.\<close>

definition settled_stage :: "shutdown_stage \<Rightarrow> bool" where
  "settled_stage st = (case st of At_Broker promises \<Rightarrow> all_settled promises | _ \<Rightarrow> False)"

definition broker_settled :: "calculator_server \<Rightarrow> calculator_server" where
  "broker_settled s =
     (case List.find settled_stage (cs_stages s) of
        Some st \<Rightarrow> shutdown_reporter (s\<lparr>cs_stages := remove1 st (cs_stages s)\<rparr>)
      | None \<Rightarrow> s)"

text \<open>What the environment does to a reporter.\<close>

definition from_outside :: "reporter_event \<Rightarrow> bool" where
  "from_outside e =
     (case e of Do_Start \<Rightarrow> False | Do_Register \<Rightarrow> False | Do_Report _ _ _ \<Rightarrow> False | Do_Set_Health _ \<Rightarrow> False
      | Do_Set_Metrics _ \<Rightarrow> False | Do_Shutdown \<Rightarrow> False | _ \<Rightarrow> True)"

definition reporter_event :: "reporter_event \<Rightarrow> calculator_server \<Rightarrow> calculator_server" where
  "reporter_event e s =
     (case cs_reporter s of
        None \<Rightarrow> s
      | Some r \<Rightarrow>
          if \<not> from_outside e then s
          else (let s = s\<lparr>cs_reporter := Some (reporter_step r e)\<rparr> in
                if e = Unregister_Reply \<and> rp_unregistering r \<and> At_Reporter \<in> set (cs_stages s)
                then shutdown_server (s\<lparr>cs_stages := remove1 At_Reporter (cs_stages s)\<rparr>) else s))"

fun calculator_event_step :: "calculator_server \<times> broker \<Rightarrow> calculator_event \<Rightarrow> calculator_server \<times> broker" where
  "calculator_event_step (s, b) (Bind_Result err) = (bind_result err s, b)"
| "calculator_event_step (s, b) Bind_Delay_Over = (bind_delay_over s, b)"
| "calculator_event_step (s, b) Broker_Connected = broker_connected (s, b)"
| "calculator_event_step (s, b) Broker_Lost = (broker_lost s, b)"
| "calculator_event_step (s, b) Broker_Restarted = (broker_lost s, initial_broker)"
| "calculator_event_step (s, b) Broker_Settled = (broker_settled s, b)"
| "calculator_event_step (s, b) (Reporter_Event e) = (reporter_event e s, b)"
| "calculator_event_step (s, b) Server_Stopped =
     (if At_Server \<in> set (cs_stages s) then (s\<lparr>cs_exited := True\<rparr>, b) else (s, b))"
| "calculator_event_step (s, b) Shutdown_Signal = handleShutdown (s, b)"

definition calculator_step :: "calculator_server \<times> broker \<Rightarrow> calculator_event \<Rightarrow> calculator_server \<times> broker" where
  "calculator_step sb e = (if cs_exited (fst sb) then sb else calculator_event_step sb e)"

subsection \<open>The client\<close>

definition client_service_key :: "string option \<Rightarrow> string" where
  "client_service_key address =
     (let key = CALCULATOR_SERVICE_INTERFACE @ ''::'' @ CALCULATOR_SERVICE_ROLE in
      case or_undefined address of Some a \<Rightarrow> key @ ''@'' @ a | None \<Rightarrow> key)"

record calculator_client =
  ck_calculatorClient :: "string option"
  ck_targetServiceKey :: string

definition new_calculator_client :: calculator_client where
  "new_calculator_client = \<lparr>ck_calculatorClient = None, ck_targetServiceKey = client_service_key None\<rparr>"

definition prepareClient :: "broker_client \<Rightarrow> broker \<Rightarrow> calculator_client \<Rightarrow> calculator_client" where
  "prepareClient c b k =
     (if ck_calculatorClient k \<noteq> None then k
      else (case getService c b CALCULATOR_SERVICE_INTERFACE ''default'' of
              Resolved (Some (url, port)) \<Rightarrow>
                (let address = endpoint_text url port
                 in \<lparr>ck_calculatorClient = Some address, ck_targetServiceKey = client_service_key (Some address)\<rparr>)
            | _ \<Rightarrow> k))"

text \<open>\<open>onDisconnected\<close>.\<close>

definition client_disconnected :: "calculator_client \<Rightarrow> calculator_client" where
  "client_disconnected k = new_calculator_client"

text \<open>The report of an answered call.\<close>

definition call_report :: "calculator_client \<Rightarrow> int \<Rightarrow> string option \<Rightarrow> activity_report" where
  "call_report k latencyMs err =
     \<lparr>rt_targetService = ck_targetServiceKey k, rt_type = ACTIVITY_TYPE_RESPONSE_RECEIVED, rt_timestampMs = None,
      rt_latencyMs = Some latencyMs, rt_method = Some ''CalculatorService/Calculate'', rt_success = Some (err = None),
      rt_batchSize = None, rt_errorMessage = err\<rparr>"

subsection \<open>Leaving\<close>

lemma run_exited: "cs_exited (fst sb) \<Longrightarrow> foldl calculator_step sb es = sb"
  by (induction es) (simp_all add: calculator_step_def)

text \<open>
  A handler that waits for the broker, and nothing else that could end the process: until the connection
  is lost, or, if it waits for a call that was never sent, for ever.
\<close>

definition stuck :: "calculator_server \<times> broker \<Rightarrow> bool" where
  "stuck sb \<longleftrightarrow> \<not> cs_exited (fst sb) \<and> (\<exists>ps. cs_stages (fst sb) = [At_Broker ps] \<and> \<not> all_settled ps)"

definition stuck_for_ever :: "calculator_server \<times> broker \<Rightarrow> bool" where
  "stuck_for_ever sb \<longleftrightarrow> \<not> cs_exited (fst sb) \<and> (\<exists>ps. cs_stages (fst sb) = [At_Broker ps] \<and> Not_Sent \<in> set ps)"

lemma start_keeps [simp]:
  "cs_stages (main_resumes s) = cs_stages s" "cs_exited (main_resumes s) = cs_exited s"
  by (simp_all add: main_resumes_def startTopologyReporter_def brokerManagerInstance_def)

lemmas stage_defs = calculator_step_def bind_result_def bind_delay_over_def broker_connected_def broker_lost_def
  calls_lost_def broker_settled_def settled_stage_def reporter_event_def

lemma stuck_step: "stuck sb \<Longrightarrow> e \<notin> {Shutdown_Signal, Broker_Lost, Broker_Restarted} \<Longrightarrow> stuck (calculator_step sb e)"
  by (cases sb; cases e)
     (auto simp: stuck_def stage_defs Let_def case_prod_beta split: option.splits start_phase.splits)

lemma unsent_unsettled: "Not_Sent \<in> set ps \<Longrightarrow> \<not> all_settled ps" "Not_Sent \<in> set ps \<Longrightarrow> Not_Sent \<in> set (map unregister_lost ps)"
  by (auto simp: all_settled_def list_all_iff unregister_lost_def image_iff)

lemma stuck_for_ever_step: "stuck_for_ever sb \<Longrightarrow> e \<noteq> Shutdown_Signal \<Longrightarrow> stuck_for_ever (calculator_step sb e)"
  by (cases sb; cases e)
     (auto simp: stuck_for_ever_def stage_defs unsent_unsettled Let_def case_prod_beta
       simp del: set_map split: option.splits start_phase.splits)

interpretation stuck: reactive
  "\<lambda>sb e. if e \<in> {Shutdown_Signal, Broker_Lost, Broker_Restarted} then sb else calculator_step sb e" stuck
  by unfold_locales (simp add: stuck_step)

interpretation stuck_for_ever: reactive "\<lambda>sb e. if e \<in> {Shutdown_Signal} then sb else calculator_step sb e" stuck_for_ever
  by unfold_locales (simp add: stuck_for_ever_step)















subsection \<open>Binding\<close>

lemma bind_delay_doubles:
  "cs_phase s = Binding \<Longrightarrow> \<not> cs_shuttingDown s \<Longrightarrow> \<not> cs_exited s \<Longrightarrow> cs_retryDelayMs s = min (1000 * 2 ^ k) 15000 \<Longrightarrow>
   cs_phase (fst (calculator_step (s, b) (Bind_Result (Some err)))) = Bind_Delay (min (1000 * 2 ^ k) 15000) \<and>
   cs_retryDelayMs (fst (foldl calculator_step (s, b) [Bind_Result (Some err), Bind_Delay_Over])) = min (1000 * 2 ^ Suc k) 15000"
  by (simp add: calculator_step_def bind_result_def bind_delay_over_def Let_def)

subsection \<open>The client's calls in the topology\<close>

lemma interface_text: "trim CALCULATOR_SERVICE_INTERFACE = CALCULATOR_SERVICE_INTERFACE" "trim CALCULATOR_SERVICE_ROLE = CALCULATOR_SERVICE_ROLE"
  "CALCULATOR_SERVICE_INTERFACE \<noteq> []" "CALCULATOR_SERVICE_ROLE \<noteq> []"
  by code_simp+

lemma in_set_add [simp]: "set (set_add k ks) = insert k (set ks)"
  by (auto simp: set_add_def)

lemma string_of_int_no_space: "\<forall>c \<in> set (string_of_int i). \<not> js_space c"
  using string_of_nat_digits is_digit_facts by (auto simp: string_of_int_def js_space_def)

lemma endpoint_no_space: "\<forall>c \<in> set url. \<not> js_space c \<Longrightarrow> trim (endpoint_text url port) = endpoint_text url port"
  by (rule trim_no_space) (use string_of_int_no_space in \<open>auto simp: endpoint_text_def js_space_def\<close>)

lemma endpoint_text_nonempty [simp]: "endpoint_text url port \<noteq> []"
  by (simp add: endpoint_text_def)

text \<open>C23.
  Once the server has registered with an empty broker, a client that looks it up reports its calls
  under a key that the dashboard resolves to the server's node: in every snapshot that has the
  server's node as the last one with that key, the edge of a call is drawn to that node.\<close>

theorem calls_are_drawn_to_the_server:
  assumes "b = snd (client_register c initial_broker CALCULATOR_SERVICE_INTERFACE url port)" "bc_connected c" "bc_connected d"
    and "report = call_report (prepareClient d b new_calculator_client) latency err"
    and "node = registered_node (register_request_of (server_reporter_options url port host)) serviceId now"
    and "\<forall>c \<in> set url. \<not> js_space c"
    and "ts_nodes snap = before @ node # after" "\<forall>n \<in> set after. rt_targetService report \<notin> set (getServiceKeyVariants n)"
    and "e \<in> set (ts_edges snap)" "se_targetService e = rt_targetService report"
  shows "de_target (draw_edge (gi_serviceIdByKey (graph_index_of snap)) e) = serviceId"
proof -
  have b: "bk_services b = [\<lparr>bs_name = CALCULATOR_SERVICE_INTERFACE, bs_role = ''default'', bs_url = url, bs_port = port\<rparr>]"
    using assms(1,2) by (simp add: client_register_def initial_broker_def Let_def)
  have key: "rt_targetService report =
      CALCULATOR_SERVICE_INTERFACE @ ''::'' @ CALCULATOR_SERVICE_ROLE @ ''@'' @ endpoint_text url port"
    using assms(3) by (simp add: assms(4) call_report_def prepareClient_def getService_def available_services_def b
        new_calculator_client_def client_service_key_def or_undefined_def Let_def)
  have "getServiceKey node = CALCULATOR_SERVICE_INTERFACE @ ''::'' @ CALCULATOR_SERVICE_ROLE"
    by (simp add: getServiceKey_def metadata_text_def assms(5) registered_node_def register_request_of_def
        server_reporter_options_def interface_text)
  moreover have "address_text node = endpoint_text url port"
    using endpoint_no_space [OF assms(6)]
    by (simp add: address_text_def assms(5) registered_node_def register_request_of_def server_reporter_options_def)
  ultimately have mem: "rt_targetService report \<in> set (getServiceKeyVariants node)"
    by (simp add: getServiceKeyVariants_def key Let_def)
  have "List.find (\<lambda>n. rt_targetService report \<in> set (getServiceKeyVariants n)) (rev (ts_nodes snap)) = Some node"
  proof -
    have "List.find (\<lambda>n. rt_targetService report \<in> set (getServiceKeyVariants n)) (rev after @ xs) =
      List.find (\<lambda>n. rt_targetService report \<in> set (getServiceKeyVariants n)) xs" for xs
      using assms(8) by (induction "after" rule: rev_induct) auto
    from this [of "node # rev before"] mem show ?thesis by (simp add: assms(7))
  qed
  then have "target_of (ts_nodes snap) (rt_targetService report) = serviceId"
    by (simp add: target_of_def assms(5) registered_node_def)
  with drawn_target [OF assms(9)] assms(10) show ?thesis by simp
qed

definition sample_server_node :: service_node where
  "sample_server_node = registered_node (register_request_of (server_reporter_options ''h'' 1 ''box'')) ''id7'' 3"

definition sample_call_report :: activity_report where
  "sample_call_report = call_report (prepareClient \<lparr>bc_connected = True, bc_registered = []\<rparr>
     (snd (client_register \<lparr>bc_connected = True, bc_registered = []\<rparr> initial_broker CALCULATOR_SERVICE_INTERFACE ''h'' 1))
     new_calculator_client) 4 None"

definition sample_call_edge :: service_edge where
  "sample_call_edge = \<lparr>se_sourceServiceId = ''id9'', se_targetService = rt_targetService sample_call_report,
     se_state = CONNECTION_STATE_ACTIVE, se_lastActivityMs = ''4'', se_totalRequests = ''1'', se_totalErrors = ''0'',
     se_avgLatencyMs = 4, se_rps = 1\<rparr>"

theorem calls_are_drawn_to_the_server_witness:
  "de_target (draw_edge (gi_serviceIdByKey (graph_index_of
     \<lparr>ts_nodes = [sample_server_node], ts_edges = [sample_call_edge], ts_timestampMs = ''5''\<rparr>)) sample_call_edge) = ''id7''"
  by (rule calls_are_drawn_to_the_server [OF refl _ _ sample_call_report_def sample_server_node_def, of _ "[]" "[]"])
     (simp_all add: sample_call_edge_def js_space_def)

end
