(* ===== verification/Calculator_Client.thy ===== *)
theory Calculator_Client
  imports Calculator
begin

text \<open>
  The client program (\<open>apps/calculator-client/src/calculator-client.ts\<close>): every 700 ms a test
  calculation with random operands, its report to the topology, and the end on a signal.  Looking up
  the server is in \<open>Calculator\<close>.  A random number of \<open>Math.random()\<close> is an argument.
\<close>

subsection \<open>Test calculations\<close>

text \<open>\<open>Math.random()\<close> returns doubles from 0 up to the largest one below 1.\<close>

definition random_number :: "rat \<Rightarrow> bool" where
  "random_number r \<longleftrightarrow> 0 \<le> r \<and> r \<le> 1 - 1 / 2 ^ 53"

definition random_value :: "rat \<Rightarrow> js_number" where
  "random_value r = js_mul (Finite r) (Finite 10)"

definition operation_number :: "rat \<Rightarrow> int" where
  "operation_number r = (case js_mul (Finite r) (Finite 4) of Finite q \<Rightarrow> \<lfloor>q\<rfloor> + 1 | _ \<Rightarrow> 0)"

text \<open>The enumeration of the protocol.\<close>

definition operation_of :: "int \<Rightarrow> operation" where
  "operation_of n =
     (if n = 1 then OPERATION_ADD else if n = 2 then OPERATION_SUBTRACT else if n = 3 then OPERATION_MULTIPLY
      else if n = 4 then OPERATION_DIVIDE else OPERATION_UNSPECIFIED)"

definition operationSymbol :: "operation \<Rightarrow> string" where
  "operationSymbol op =
     (case op of OPERATION_ADD \<Rightarrow> ''+'' | OPERATION_SUBTRACT \<Rightarrow> ''-'' | OPERATION_MULTIPLY \<Rightarrow> ''*''
      | OPERATION_DIVIDE \<Rightarrow> ''/'' | OPERATION_UNSPECIFIED \<Rightarrow> ''?'')"

record calculate_request =
  tq_operand1 :: js_number
  tq_operand2 :: js_number
  tq_operation :: operation

definition test_request :: "rat \<Rightarrow> rat \<Rightarrow> rat \<Rightarrow> calculate_request" where
  "test_request r1 r2 r3 =
     \<lparr>tq_operand1 = random_value r1, tq_operand2 = random_value r2, tq_operation = operation_of (operation_number r3)\<rparr>"

definition calculation_line :: "calculate_request \<Rightarrow> js_number \<Rightarrow> string" where
  "calculation_line q result =
     ''calculate('' @ toFixed 6 (tq_operand1 q) @ '' '' @ operationSymbol (tq_operation q) @ '' '' @
     toFixed 6 (tq_operand2 q) @ '') => '' @ toFixed 6 result"

subsection \<open>The program\<close>

text \<open>Calls that wait for an answer, with the time they were made; \<open>cl_leaving\<close> counts the handlers of
  a signal that wait for the reporter.\<close>

record client_program =
  cl_client :: calculator_client
  cl_manager :: broker_client
  cl_reporter :: "reporter option"
  cl_pending :: "(calculate_request \<times> int) list"
  cl_output :: "string list"
  cl_leaving :: nat
  cl_exited :: bool

definition client_reporter_options :: "string \<Rightarrow> reporter_options" where
  "client_reporter_options host =
     \<lparr>ro_serviceName = ''calculator-client'', ro_serviceType = SERVICE_TYPE_CLIENT,
      ro_language = SERVICE_LANGUAGE_TYPESCRIPT, ro_version = None, ro_address = None, ro_host = Some host,
      ro_metadata = Some \<lparr>meta_region = None, meta_environment = None, meta_team = None, meta_versionHash = None,
        meta_serviceInterface = None, meta_serviceRole = None, meta_programName = Some ''calculator-client''\<rparr>,
      ro_enableActivity = Some True\<rparr>"

text \<open>\<open>main\<close>.\<close>

definition start_client :: "bool \<Rightarrow> string \<Rightarrow> client_program" where
  "start_client topologyEnabled host =
     \<lparr>cl_client = new_calculator_client, cl_manager = \<lparr>bc_connected = False, bc_registered = []\<rparr>,
      cl_reporter = (if topologyEnabled then Some (start (new_reporter (client_reporter_options host))) else None),
      cl_pending = [], cl_output = [''Starting client...'', ''Lookup calculator service''], cl_leaving = 0, cl_exited = False\<rparr>"

definition say :: "string \<Rightarrow> client_program \<Rightarrow> client_program" where
  "say line p = p\<lparr>cl_output := cl_output p @ [line]\<rparr>"

definition someTestCalculations :: "rat \<Rightarrow> rat \<Rightarrow> rat \<Rightarrow> int \<Rightarrow> client_program \<Rightarrow> client_program" where
  "someTestCalculations r1 r2 r3 now p =
     (if ck_calculatorClient (cl_client p) = None then say ''Error: Client not existing'' p
      else p\<lparr>cl_pending := cl_pending p @ [(test_request r1 r2 r3, now)]\<rparr>)"

text \<open>The answer to call \<open>i\<close>: an error or the result.  The report goes to whatever the key is now.\<close>

definition call_answered :: "nat \<Rightarrow> string + js_number \<Rightarrow> int \<Rightarrow> bool \<Rightarrow> client_program \<Rightarrow> client_program" where
  "call_answered i answer now throws p =
     (if i < length (cl_pending p)
      then (let (request, startedAt) = cl_pending p ! i;
                report = call_report (cl_client p) (now - startedAt) (case answer of Inl e \<Rightarrow> Some e | Inr _ \<Rightarrow> None);
                p = p\<lparr>cl_pending := take i (cl_pending p) @ drop (Suc i) (cl_pending p),
                      cl_reporter := map_option (reportActivity report now throws) (cl_reporter p)\<rparr>
            in case answer of
                 Inl e \<Rightarrow> say (''Error: '' @ e) (say (''Error: '' @ e) p)
               | Inr result \<Rightarrow> say (calculation_line request result) p)
      else p)"

text \<open>The signal handler, up to its await and after it.\<close>

definition client_signal :: "client_program \<Rightarrow> client_program" where
  "client_signal p =
     (let p = say ''Shutdown signal received'' p in
      case cl_reporter p of
        None \<Rightarrow> p\<lparr>cl_exited := True\<rparr>
      | Some r \<Rightarrow>
          if rp_isShuttingDown r then p\<lparr>cl_exited := True\<rparr>
          else (let r = shutdown r; p = p\<lparr>cl_reporter := Some r\<rparr>
                in if rp_unregistering r then p\<lparr>cl_leaving := cl_leaving p + 1\<rparr> else p\<lparr>cl_exited := True\<rparr>))"

definition client_reporter_event :: "reporter_event \<Rightarrow> client_program \<Rightarrow> client_program" where
  "client_reporter_event e p =
     (case cl_reporter p of
        None \<Rightarrow> p
      | Some r \<Rightarrow>
          if \<not> from_outside e then p
          else (let p = p\<lparr>cl_reporter := Some (reporter_step r e)\<rparr> in
                if e = Unregister_Reply \<and> rp_unregistering r \<and> cl_leaving p > 0 then p\<lparr>cl_exited := True\<rparr> else p))"

datatype client_event =
    Client_Connected
  | Client_Changes
  | Client_Timer rat rat rat int
  | Client_Answer nat "string + js_number" int bool
  | Client_Reporter reporter_event
  | Client_Signal

fun client_event_step :: "broker \<Rightarrow> client_program \<Rightarrow> client_event \<Rightarrow> client_program" where
  "client_event_step b p Client_Connected =
     (let c = (cl_manager p)\<lparr>bc_connected := True\<rparr>
      in say ''Broker connected'' (p\<lparr>cl_manager := c, cl_client := prepareClient c b (cl_client p)\<rparr>))"
| "client_event_step b p Client_Changes = p\<lparr>cl_client := prepareClient (cl_manager p) b (cl_client p)\<rparr>"
| "client_event_step b p (Client_Timer r1 r2 r3 now) = someTestCalculations r1 r2 r3 now p"
| "client_event_step b p (Client_Answer i answer now throws) = call_answered i answer now throws p"
| "client_event_step b p (Client_Reporter e) = client_reporter_event e p"
| "client_event_step b p Client_Signal = client_signal p"

text \<open>An event comes with what the broker knows at that time.\<close>

definition client_step :: "client_program \<Rightarrow> broker \<times> client_event \<Rightarrow> client_program" where
  "client_step p be = (if cl_exited p then p else client_event_step (fst be) p (snd be))"

subsection \<open>What is asked and answered\<close>

lemma js_mul_range:
  assumes "0 \<le> q" "q \<le> of_int n" "n \<le> 2 ^ 53"
  shows "to_double q = Finite (fl q) \<and> 0 \<le> fl q \<and> fl q \<le> of_int n"
proof -
  have n: "0 \<le> n" using assms(1,2) of_int_0_le_iff [of n, where ?'a = rat] by linarith
  have r: "0 \<le> fl q" "fl q \<le> of_int n" using assms fl_nonneg fl_le_int [of n q] n by simp_all
  have "(of_int n :: rat) \<le> 2 ^ 53" using assms(3) of_int_le_iff [of n "2 ^ 53", where ?'a = rat] by simp
  also have "\<dots> < 2 ^ 1024" by (rule power_strict_increasing) simp_all
  finally show ?thesis using r by (simp add: to_double_def)
qed

lemma random_value_range: "random_number r \<Longrightarrow> \<exists>q. random_value r = Finite q \<and> 0 \<le> q \<and> q \<le> 10"
  using js_mul_range [of "r * 10" 10] by (simp add: random_number_def random_value_def js_mul_def)

lemma operation_number_range:
  assumes "random_number r"
  shows "operation_number r \<in> {1, 2, 3, 4}"
proof -
  have r: "0 \<le> r * 4" "r * 4 \<le> of_int (2 ^ 53 - 1) * 2 powi (- 51)"
    using assms by (simp_all add: random_number_def power_int_minus)
  then have "r * 4 \<le> of_int 4" by (simp add: power_int_minus)
  then have d: "to_double (r * 4) = Finite (fl (r * 4))" "0 \<le> fl (r * 4)" using js_mul_range [OF r(1), of 4] by simp_all
  have "fl (r * 4) \<le> fl (of_int (2 ^ 53 - 1) * 2 powi (- 51))" by (rule fl_mono) (rule r(2))
  also have "\<dots> = of_int (2 ^ 53 - 1) * 2 powi (- 51)" by (rule fl_dyadic) simp_all
  also have "\<dots> < 4" by (simp add: power_int_minus)
  finally have "\<lfloor>fl (r * 4)\<rfloor> < 4" by (simp add: floor_less_iff)
  moreover have "0 \<le> \<lfloor>fl (r * 4)\<rfloor>" using d(2) by simp
  ultimately have "\<lfloor>fl (r * 4)\<rfloor> = 0 \<or> \<lfloor>fl (r * 4)\<rfloor> = 1 \<or> \<lfloor>fl (r * 4)\<rfloor> = 2 \<or> \<lfloor>fl (r * 4)\<rfloor> = 3"
    by presburger
  then show ?thesis using d(1) by (auto simp: operation_number_def js_mul_def)
qed

text \<open>C20.
  Whatever the random numbers, a test calculation of the client has operands from 0 to 10 and one of the
  four operations, so the server answers it with a result and never with an error; when the answer
  arrives, the client prints it, the call is no longer pending, and the report goes to the key of its server.\<close>

theorem test_calculations_succeed:
  assumes "random_number r1" "random_number r2" "random_number r3" "request = test_request r1 r2 r3"
    and "ck_calculatorClient (cl_client p) \<noteq> None" "cl_pending p = []" "cl_reporter p = Some r"
  shows "\<exists>x y result. tq_operand1 request = Finite x \<and> tq_operand2 request = Finite y \<and> 0 \<le> x \<and> x \<le> 10 \<and> 0 \<le> y \<and> y \<le> 10
    \<and> operationSymbol (tq_operation request) \<noteq> ''?''
    \<and> calculate_call (Finite x) (Finite y) (tq_operation request) = Inr (result, [])
    \<and> call_answered 0 (Inr result) later throws (someTestCalculations r1 r2 r3 now p) =
        p\<lparr>cl_pending := [], cl_output := cl_output p @ [calculation_line request result],
          cl_reporter := Some (reportActivity (call_report (cl_client p) (later - now) None) later throws r)\<rparr>"
proof -
  obtain x y where v: "random_value r1 = Finite x" "random_value r2 = Finite y" "0 \<le> x" "x \<le> 10" "0 \<le> y" "y \<le> 10"
    using random_value_range [OF assms(1)] random_value_range [OF assms(2)] by blast
  have op: "tq_operation request \<noteq> OPERATION_UNSPECIFIED"
    using operation_number_range [OF assms(3)] by (auto simp: assms(4) test_request_def operation_of_def)
  then have "\<exists>result. calculate_call (Finite x) (Finite y) (tq_operation request) = Inr (result, [])"
    by (cases "tq_operation request") (simp_all add: calculate_call_def)
  moreover have "operationSymbol (tq_operation request) \<noteq> ''?''"
    using op by (cases "tq_operation request") (simp_all add: operationSymbol_def)
  moreover have "call_answered 0 (Inr result) later throws (someTestCalculations r1 r2 r3 now p) =
        p\<lparr>cl_pending := [], cl_output := cl_output p @ [calculation_line request result],
          cl_reporter := Some (reportActivity (call_report (cl_client p) (later - now) None) later throws r)\<rparr>" for result
    using assms(4-7) by (auto simp: call_answered_def someTestCalculations_def say_def)
  ultimately show ?thesis using v by (auto simp: assms(4) test_request_def)
qed

definition ready_client :: client_program where
  "ready_client = foldl client_step (start_client True ''box'')
     [(snd (client_register \<lparr>bc_connected = True, bc_registered = []\<rparr> initial_broker CALCULATOR_SERVICE_INTERFACE ''h'' 1),
       Client_Connected)]"

theorem test_calculations_succeed_witness:
  "\<exists>result. cl_output (call_answered 0 (Inr result) 9 False (someTestCalculations (1 / 2) (1 / 4) (3 / 4) 5 ready_client)) =
     cl_output ready_client @ [calculation_line (test_request (1 / 2) (1 / 4) (3 / 4)) result]"
proof -
  have c: "ck_calculatorClient (cl_client ready_client) \<noteq> None" "cl_pending ready_client = []"
    "\<exists>r. cl_reporter ready_client = Some r"
    by (simp_all add: ready_client_def client_step_def start_client_def prepareClient_def getService_def available_services_def
        client_register_def initial_broker_def new_calculator_client_def say_def Let_def)
  then obtain r where r: "cl_reporter ready_client = Some r" by blast
  have n: "random_number (1 / 2)" "random_number (1 / 4)" "random_number (3 / 4)" by (simp_all add: random_number_def)
  obtain result where "call_answered 0 (Inr result) 9 False (someTestCalculations (1 / 2) (1 / 4) (3 / 4) 5 ready_client) =
      ready_client\<lparr>cl_pending := [],
        cl_output := cl_output ready_client @ [calculation_line (test_request (1 / 2) (1 / 4) (3 / 4)) result],
        cl_reporter := Some (reportActivity (call_report (cl_client ready_client) (9 - 5) None) 9 False r)\<rparr>"
    using test_calculations_succeed [OF n refl c(1,2) r, of 9 False 5] by blast
  then show ?thesis by (intro exI [of _ result]) simp
qed

end
