(* ===== verification/Pipeline_Metrics.thy ===== *)
theory Pipeline_Metrics
  imports Runtime_Prelude Js_Arith
begin

text \<open>
  Timing in the pipeline (\<open>packages/pipeline-common/src/metrics.ts\<close>): a collector adds up the time a
  service spends on processing and on sending and receiving, and the sums of several services are
  combined.  The two readings of \<open>performance.now()\<close> around a call are arguments; a call that throws
  records nothing.
\<close>

record service_times =
  mt_serviceName :: string
  mt_eventsProcessed :: int
  mt_processingTimeMs :: rat
  mt_ipcSendTimeMs :: rat
  mt_ipcRecvTimeMs :: rat

definition new_collector :: "string \<Rightarrow> service_times" where
  "new_collector serviceName =
     \<lparr>mt_serviceName = serviceName, mt_eventsProcessed = 0, mt_processingTimeMs = 0, mt_ipcSendTimeMs = 0, mt_ipcRecvTimeMs = 0\<rparr>"

text \<open>\<open>total += later - start\<close>.\<close>

definition add_time :: "rat \<Rightarrow> rat \<Rightarrow> rat \<Rightarrow> rat" where
  "add_time acc begun later = fl (acc + fl (later - begun))"

definition recordProcessing :: "rat \<Rightarrow> rat \<Rightarrow> service_times \<Rightarrow> service_times" where
  "recordProcessing begun later m =
     m\<lparr>mt_processingTimeMs := add_time (mt_processingTimeMs m) begun later, mt_eventsProcessed := mt_eventsProcessed m + 1\<rparr>"

definition recordSend :: "rat \<Rightarrow> rat \<Rightarrow> service_times \<Rightarrow> service_times" where
  "recordSend begun later m = m\<lparr>mt_ipcSendTimeMs := add_time (mt_ipcSendTimeMs m) begun later\<rparr>"

definition recordRecvEnd :: "rat \<Rightarrow> rat \<Rightarrow> service_times \<Rightarrow> service_times" where
  "recordRecvEnd begun later m = m\<lparr>mt_ipcRecvTimeMs := add_time (mt_ipcRecvTimeMs m) begun later\<rparr>"

definition reset_collector :: "service_times \<Rightarrow> service_times" where
  "reset_collector m =
     m\<lparr>mt_eventsProcessed := 0, mt_processingTimeMs := 0, mt_ipcSendTimeMs := 0, mt_ipcRecvTimeMs := 0\<rparr>"

text \<open>The same around a call that is awaited, and the snapshot of the sums.\<close>

definition recordProcessingAsync :: "rat \<Rightarrow> rat \<Rightarrow> service_times \<Rightarrow> service_times" where
  "recordProcessingAsync begun settled m =
     m\<lparr>mt_processingTimeMs := add_time (mt_processingTimeMs m) begun settled, mt_eventsProcessed := mt_eventsProcessed m + 1\<rparr>"

record metrics_snapshot =
  ms_serviceName :: string
  ms_eventsProcessed :: int
  ms_processingTimeMs :: rat
  ms_ipcSendTimeMs :: rat
  ms_ipcRecvTimeMs :: rat
  ms_otherTimeMs :: rat

definition getMetrics :: "service_times \<Rightarrow> metrics_snapshot" where
  "getMetrics m =
     \<lparr>ms_serviceName = mt_serviceName m, ms_eventsProcessed = mt_eventsProcessed m, ms_processingTimeMs = mt_processingTimeMs m,
      ms_ipcSendTimeMs = mt_ipcSendTimeMs m, ms_ipcRecvTimeMs = mt_ipcRecvTimeMs m, ms_otherTimeMs = 0\<rparr>"

datatype metrics_event = Processed rat rat | Sent rat rat | Received rat rat | Reset

fun metrics_step :: "service_times \<Rightarrow> metrics_event \<Rightarrow> service_times" where
  "metrics_step m (Processed begun later) = recordProcessing begun later m"
| "metrics_step m (Sent begun later) = recordSend begun later m"
| "metrics_step m (Received begun later) = recordRecvEnd begun later m"
| "metrics_step m Reset = reset_collector m"

subsection \<open>Several services\<close>

record pipeline_times =
  pm_totalEvents :: int
  pm_totalProcessingMs :: js_number
  pm_totalIpcMs :: js_number
  pm_totalTimeMs :: js_number
  pm_ipcOverheadPercent :: js_number
  pm_services :: "service_times list"

definition total_of :: "(service_times \<Rightarrow> rat) \<Rightarrow> service_times list \<Rightarrow> js_number" where
  "total_of f ms = foldl (\<lambda>sum m. js_add sum (Finite (f m))) (Finite 0) ms"

definition aggregatePipelineMetrics :: "service_times list \<Rightarrow> js_number \<Rightarrow> pipeline_times" where
  "aggregatePipelineMetrics serviceMetrics totalWallClockMs =
     (let totalIpc = js_add (total_of mt_ipcSendTimeMs serviceMetrics) (total_of mt_ipcRecvTimeMs serviceMetrics)
      in \<lparr>pm_totalEvents = (case serviceMetrics of [] \<Rightarrow> 0 | m # _ \<Rightarrow> mt_eventsProcessed m),
          pm_totalProcessingMs = total_of mt_processingTimeMs serviceMetrics, pm_totalIpcMs = totalIpc,
          pm_totalTimeMs = totalWallClockMs,
          pm_ipcOverheadPercent = js_mul (js_div totalIpc totalWallClockMs) (Finite 100),
          pm_services = serviceMetrics\<rparr>)"

subsection \<open>The printed summaries\<close>

text \<open>A share of a whole in percent.\<close>

definition percent :: "js_number \<Rightarrow> js_number \<Rightarrow> js_number" where
  "percent x y = js_mul (js_div x y) (Finite 100)"

definition printSummary :: "service_times \<Rightarrow> string list" where
  "printSummary m =
     (let processing = Finite (mt_processingTimeMs m); send = Finite (mt_ipcSendTimeMs m); recv = Finite (mt_ipcRecvTimeMs m);
          events = Finite (of_int (mt_eventsProcessed m));
          totalTime = js_add (js_add processing send) recv
      in [CHR 10 # ''=== '' @ mt_serviceName m @ '' Metrics ==='',
          ''Events processed: '' @ string_of_int (mt_eventsProcessed m),
          ''Processing time: '' @ toFixed 2 processing @ ''ms ('' @ toFixed 1 (percent processing totalTime) @ ''%)'',
          ''IPC Send time: '' @ toFixed 2 send @ ''ms ('' @ toFixed 1 (percent send totalTime) @ ''%)'',
          ''IPC Recv time: '' @ toFixed 2 recv @ ''ms ('' @ toFixed 1 (percent recv totalTime) @ ''%)'',
          ''Avg per event:'',
          ''  Processing: '' @ toFixed 4 (js_div processing events) @ ''ms'',
          ''  IPC Send: '' @ toFixed 4 (js_div send events) @ ''ms'',
          ''  IPC Recv: '' @ toFixed 4 (js_div recv events) @ ''ms''])"

definition seconds :: "js_number \<Rightarrow> string" where
  "seconds ms = toFixed 2 (js_div ms (Finite 1000)) @ ''s''"

definition printPipelineMetrics :: "pipeline_times \<Rightarrow> string list" where
  "printPipelineMetrics m =
     (let events = Finite (of_int (pm_totalEvents m));
          optimizedIpc = js_mul (pm_totalIpcMs m) (js_sub (Finite 1) (Finite (fl (95 / 100))));
          optimizedTotal = js_add (pm_totalProcessingMs m) optimizedIpc;
          optimizedThroughput = js_mul (js_div events optimizedTotal) (Finite 1000);
          currentThroughput = js_mul (js_div events (pm_totalTimeMs m)) (Finite 1000)
      in [CHR 10 # ''=== Pipeline Metrics Summary ==='',
          ''Total events: '' @ string_of_int (pm_totalEvents m),
          ''Total time: '' @ seconds (pm_totalTimeMs m),
          ''Processing time: '' @ seconds (pm_totalProcessingMs m) @ '' ('' @
            toFixed 1 (percent (pm_totalProcessingMs m) (pm_totalTimeMs m)) @ ''%)'',
          ''IPC time: '' @ seconds (pm_totalIpcMs m) @ '' ('' @ toFixed 1 (pm_ipcOverheadPercent m) @ ''%)'',
          ''Other (GC, scheduling): '' @
            seconds (js_sub (js_sub (pm_totalTimeMs m) (pm_totalProcessingMs m)) (pm_totalIpcMs m)),
          CHR 10 # ''=== Batching Impact Estimate ==='',
          ''Current IPC overhead: '' @ seconds (pm_totalIpcMs m),
          ''With batching (95% reduction): '' @ seconds optimizedIpc,
          ''Estimated optimized total: '' @ seconds optimizedTotal,
          ''Current throughput: '' @ toFixed 0 currentThroughput @ '' events/sec'',
          ''Estimated optimized throughput: '' @ toFixed 0 optimizedThroughput @ '' events/sec'',
          ''Improvement factor: '' @ toFixed 1 (js_div optimizedThroughput currentThroughput) @ ''x''])"

text \<open>Without an event the averages are not numbers.\<close>

lemma summary_without_events: "''  Processing: NaNms'' \<in> set (printSummary (new_collector name))"
  by (simp add: printSummary_def new_collector_def js_div_def Let_def)

subsection \<open>Times are not negative\<close>

fun forward :: "metrics_event \<Rightarrow> bool" where
  "forward (Processed begun later) = (begun \<le> later)"
| "forward (Sent begun later) = (begun \<le> later)"
| "forward (Received begun later) = (begun \<le> later)"
| "forward Reset = True"

definition counted_well :: "service_times \<Rightarrow> bool" where
  "counted_well m \<longleftrightarrow> 0 \<le> mt_eventsProcessed m \<and> 0 \<le> mt_processingTimeMs m \<and> 0 \<le> mt_ipcSendTimeMs m \<and> 0 \<le> mt_ipcRecvTimeMs m"

lemma add_time_grows: "0 \<le> acc \<Longrightarrow> begun \<le> later \<Longrightarrow> 0 \<le> add_time acc begun later"
  unfolding add_time_def by (intro fl_nonneg add_nonneg_nonneg) simp_all

interpretation timing: reactive "\<lambda>m e. if forward e then metrics_step m e else m" counted_well
proof unfold_locales
  fix m e
  show "counted_well m \<Longrightarrow> counted_well (if forward e then metrics_step m e else m)"
    by (cases e) (simp_all add: counted_well_def recordProcessing_def recordSend_def recordRecvEnd_def reset_collector_def add_time_grows)
qed

lemma times_stay_positive:
  assumes "\<forall>e \<in> set es. forward e"
  shows "counted_well (foldl metrics_step (new_collector name) es)"
proof -
  have "\<forall>e \<in> set es. forward e \<Longrightarrow> foldl (\<lambda>m e. if forward e then metrics_step m e else m) m es = foldl metrics_step m es" for m
    by (induction es arbitrary: m) auto
  from this [OF assms] show ?thesis
    using timing.inv_run [of "new_collector name" es] by (simp add: counted_well_def new_collector_def)
qed

end
