(* ===== verification/Demo_Scripts.thy ===== *)
theory Demo_Scripts
  imports Pipeline_Services Utf8_Text
begin

text \<open>
  The scripts that run the demo (\<open>examples/demo-scenarios/run-split-pipeline.mjs\<close> and
  \<open>run-monolith.mjs\<close>): their command lines, the command lines they build for the programs they
  start, the lines they make of a child's output, and how they stop what they started.  Numbers are
  printed by \<open>String\<close>, which is \<open>number_text\<close>; the system is taken to be one with process groups.
  A child's output comes in chunks of bytes, each of which is decoded by itself.
\<close>

subsection \<open>Lines of output\<close>

text \<open>\<open>split(/\r?\n/)\<close>.\<close>

fun split_newlines :: "string \<Rightarrow> string list" where
  "split_newlines [] = [[]]"
| "split_newlines [c] = (if c = CHR 10 then [[], []] else [[c]])"
| "split_newlines (c # d # s) =
     (if c = CHR 10 then [] # split_newlines (d # s)
      else if c = CHR 13 \<and> d = CHR 10 then [] # split_newlines s
      else (case split_newlines (d # s) of [] \<Rightarrow> [[c]] | w # ws \<Rightarrow> (c # w) # ws))"

text \<open>\<open>streamLines\<close>: the buffer and the lines handed on so far; \<open>data\<close> is a chunk of bytes.\<close>

definition stream_data :: "string \<Rightarrow> string \<times> string list \<Rightarrow> string \<times> string list" where
  "stream_data data st =
     (case st of (buffer, out) \<Rightarrow> (let lines = split_newlines (buffer @ utf8_text data) in (last lines, out @ butlast lines)))"

definition stream_end :: "string \<times> string list \<Rightarrow> string list" where
  "stream_end st = (case st of (buffer, out) \<Rightarrow> if length buffer > 0 then out @ [buffer] else out)"

definition stream_lines :: "string list \<Rightarrow> string list" where
  "stream_lines chunks = stream_end (foldl (\<lambda>st data. stream_data data st) ([], []) chunks)"

text \<open>\<open>colorizePrefix\<close>: each new name takes the next of six colours.\<close>

definition ansi_colors :: "string list" where
  "ansi_colors = map (\<lambda>code. CHR 27 # ''['' @ code @ ''m'') [''36'', ''32'', ''33'', ''34'', ''35'', ''31'']"

definition colorizePrefix :: "string \<Rightarrow> (string, string) js_map \<Rightarrow> string \<times> (string, string) js_map" where
  "colorizePrefix name colors =
     (let (color, colors) = (case map_get colors name of
            Some color \<Rightarrow> (color, colors)
          | None \<Rightarrow> (let color = ansi_colors ! (length colors mod length ansi_colors) in (color, map_set name color colors)))
      in (color @ ''['' @ name @ '']'' @ CHR 27 # ''[0m'', colors))"

subsection \<open>The command line of the split pipeline\<close>

datatype implementation = Ts | Polyglot

record runner_config =
  rc_count :: js_number
  rc_users :: js_number
  rc_seed :: js_number
  rc_types :: string
  rc_input :: string
  rc_output :: string
  rc_build :: bool
  rc_generate :: bool
  rc_enableBatching :: bool
  rc_batchSize :: js_number
  rc_workload :: string
  rc_payloadSize :: string
  rc_iterations :: js_number
  rc_implementation :: implementation

text \<open>\<open>getValue\<close> also refuses an empty value.\<close>

definition nonempty :: "(string \<Rightarrow> 'c \<Rightarrow> string + 'c) \<Rightarrow> 'c cli_option" where
  "nonempty f = Valued (\<lambda>v c. if v = [] then Inl ''Missing value for argument'' else f v c)"

definition runner_options :: "string \<Rightarrow> runner_config cli_option option" where
  "runner_options a =
     (if a = ''--count'' then Some (nonempty (\<lambda>v c. Inr (c\<lparr>rc_count := Number_of v\<rparr>)))
      else if a = ''--users'' then Some (nonempty (\<lambda>v c. Inr (c\<lparr>rc_users := Number_of v\<rparr>)))
      else if a = ''--seed'' then Some (nonempty (\<lambda>v c. Inr (c\<lparr>rc_seed := Number_of v\<rparr>)))
      else if a = ''--types'' then Some (nonempty (\<lambda>v c. Inr (c\<lparr>rc_types := v\<rparr>)))
      else if a = ''--input'' then Some (nonempty (\<lambda>v c. Inr (c\<lparr>rc_input := v\<rparr>)))
      else if a = ''--output'' then Some (nonempty (\<lambda>v c. Inr (c\<lparr>rc_output := v\<rparr>)))
      else if a = ''--no-build'' then Some (Flag (\<lambda>c. c\<lparr>rc_build := False\<rparr>))
      else if a = ''--no-generate'' then Some (Flag (\<lambda>c. c\<lparr>rc_generate := False\<rparr>))
      else if a = ''--enable-batching'' then Some (Flag (\<lambda>c. c\<lparr>rc_enableBatching := True\<rparr>))
      else if a = ''--batch-size'' then Some (nonempty (\<lambda>v c. Inr (c\<lparr>rc_batchSize := Number_of v\<rparr>)))
      else if a = ''--workload'' then Some (nonempty (\<lambda>v c. Inr (c\<lparr>rc_workload := v\<rparr>)))
      else if a = ''--payload-size'' then Some (nonempty (\<lambda>v c. Inr (c\<lparr>rc_payloadSize := v\<rparr>)))
      else if a = ''--iterations'' then Some (nonempty (\<lambda>v c. Inr (c\<lparr>rc_iterations := Number_of v\<rparr>)))
      else if a = ''--impl'' then Some (nonempty (\<lambda>v c.
        if v = ''ts'' then Inr (c\<lparr>rc_implementation := Ts\<rparr>)
        else if v = ''polyglot'' then Inr (c\<lparr>rc_implementation := Polyglot\<rparr>)
        else Inl (''Invalid implementation: '' @ v)))
      else None)"

definition default_runner :: "string \<Rightarrow> runner_config" where
  "default_runner repoRoot =
     \<lparr>rc_count = Finite 100000, rc_users = Finite 10000, rc_seed = Finite 42, rc_types = ''click,view,purchase'',
      rc_input = repoRoot @ ''/examples/demo-scenarios/events.ndjson'',
      rc_output = repoRoot @ ''/examples/demo-scenarios/aggregate-results-split.ndjson'', rc_build = True,
      rc_generate = True, rc_enableBatching = False, rc_batchSize = Finite 100, rc_workload = ''events'',
      rc_payloadSize = ''medium'', rc_iterations = Finite 500, rc_implementation = Ts\<rparr>"

definition runner_args :: "string \<Rightarrow> string list \<Rightarrow> runner_config cli_result" where
  "runner_args repoRoot argv = cli_loop False runner_options argv (default_runner repoRoot)"

subsection \<open>The command lines it builds\<close>

text \<open>The arguments of the generator and of the orchestrator, without the script.\<close>

definition generator_command :: "js_library \<Rightarrow> runner_config \<Rightarrow> string list" where
  "generator_command lib c =
     [''--count'', number_text lib (rc_count c), ''--users'', number_text lib (rc_users c),
      ''--seed'', number_text lib (rc_seed c), ''--types'', rc_types c, ''--output'', rc_input c]"

definition orchestratorArgs :: "js_library \<Rightarrow> runner_config \<Rightarrow> string list" where
  "orchestratorArgs lib c =
     [''--input'', rc_input c, ''--output'', rc_output c] @
     (if rc_enableBatching c then [''--enable-batching'', ''--batch-size'', number_text lib (rc_batchSize c)] else []) @
     (if rc_workload c \<noteq> ''events''
      then [''--workload'', rc_workload c] @ [''--max-events'', number_text lib (rc_count c)] else []) @
     (if rc_payloadSize c \<noteq> ''medium'' then [''--payload-size'', rc_payloadSize c] else []) @
     (if rc_iterations c \<noteq> Finite 500 then [''--iterations'', number_text lib (rc_iterations c)] else [])"

record service_command =
  sv_command :: string
  sv_args :: "string list"
  sv_cwd :: "string option"
  sv_env :: "(string \<times> string) list"

definition node_service :: "string \<Rightarrow> service_command" where
  "node_service script = \<lparr>sv_command = ''node'', sv_args = [script], sv_cwd = None, sv_env = []\<rparr>"

text \<open>The commands for the parse, rules and aggregate service.\<close>

definition resolveServiceCommands :: "runner_config \<Rightarrow> service_command \<times> service_command \<times> service_command" where
  "resolveServiceCommands c =
     (case rc_implementation c of
        Polyglot \<Rightarrow>
          (\<lparr>sv_command = ''cargo'', sv_args = [''run'', ''--release'', ''--manifest-path'',
             ''apps/demo-domain/parse-service-rust/Cargo.toml''], sv_cwd = None, sv_env = []\<rparr>,
           \<lparr>sv_command = ''python3'', sv_args = [''src/rules_service.py''],
             sv_cwd = Some ''apps/demo-domain/rules-service-python'', sv_env = [(''PYTHONUNBUFFERED'', ''1'')]\<rparr>,
           \<lparr>sv_command = ''go'', sv_args = [''run'', ''.''], sv_cwd = Some ''apps/demo-domain/aggregate-service-go'', sv_env = []\<rparr>)
      | Ts \<Rightarrow>
          (node_service ''apps/demo-domain/parse-service/dist/parse-service.js'',
           node_service ''apps/demo-domain/rules-service/dist/rules-service.js'',
           node_service ''apps/demo-domain/aggregate-service/dist/aggregate-service.js''))"

subsection \<open>Stopping what was started\<close>

text \<open>
  The services in the order of their start, the signals that were sent to them, the two timers that
  \<open>cleanup\<close> sets, and the exit code.  \<open>main\<close> goes on starting services while a cleanup is under way.
\<close>

record runner =
  rn_services :: "nat list"
  rn_cleaning :: bool
  rn_failed :: bool
  rn_terminated :: "nat list"
  rn_killed :: "nat list"
  rn_killTimer :: bool
  rn_exitTimer :: bool
  rn_exit :: "int option"

datatype runner_event = Service_Started nat | Cleanup bool | Kill_Timer | Exit_Timer

definition new_runner :: runner where
  "new_runner = \<lparr>rn_services = [], rn_cleaning = False, rn_failed = False, rn_terminated = [], rn_killed = [],
     rn_killTimer = False, rn_exitTimer = False, rn_exit = None\<rparr>"

text \<open>The argument says whether there was an error.\<close>

definition cleanup :: "bool \<Rightarrow> runner \<Rightarrow> runner" where
  "cleanup failed r =
     (if rn_cleaning r then r
      else r\<lparr>rn_cleaning := True, rn_failed := failed, rn_terminated := rn_terminated r @ rn_services r,
             rn_killTimer := True, rn_exitTimer := True\<rparr>)"

fun runner_event_step :: "runner \<Rightarrow> runner_event \<Rightarrow> runner" where
  "runner_event_step r (Service_Started p) = r\<lparr>rn_services := rn_services r @ [p]\<rparr>"
| "runner_event_step r (Cleanup failed) = cleanup failed r"
| "runner_event_step r Kill_Timer =
     (if rn_killTimer r then r\<lparr>rn_killTimer := False, rn_killed := rn_killed r @ rn_services r\<rparr> else r)"
| "runner_event_step r Exit_Timer =
     (if rn_exitTimer r \<and> \<not> rn_killTimer r
      then r\<lparr>rn_exitTimer := False, rn_exit := Some (if rn_failed r then 1 else 0)\<rparr> else r)"

definition runner_step :: "runner \<Rightarrow> runner_event \<Rightarrow> runner" where
  "runner_step r e = (if rn_exit r \<noteq> None then r else runner_event_step r e)"

subsection \<open>The monolith\<close>

record monolith_config =
  mo_count :: js_number
  mo_users :: js_number
  mo_seed :: js_number
  mo_types :: string
  mo_input :: string
  mo_output :: string
  mo_workers :: js_number
  mo_queueSize :: js_number
  mo_build :: bool
  mo_generate :: bool
  mo_checksum :: bool
  mo_verify :: bool

definition monolith_options :: "string \<Rightarrow> monolith_config cli_option option" where
  "monolith_options a =
     (if a = ''--count'' then Some (stores (\<lambda>v c. c\<lparr>mo_count := Number_of v\<rparr>))
      else if a = ''--users'' then Some (stores (\<lambda>v c. c\<lparr>mo_users := Number_of v\<rparr>))
      else if a = ''--seed'' then Some (stores (\<lambda>v c. c\<lparr>mo_seed := Number_of v\<rparr>))
      else if a = ''--types'' then Some (stores (\<lambda>v c. c\<lparr>mo_types := v\<rparr>))
      else if a = ''--input'' then Some (stores (\<lambda>v c. c\<lparr>mo_input := v\<rparr>))
      else if a = ''--output'' then Some (stores (\<lambda>v c. c\<lparr>mo_output := v\<rparr>))
      else if a = ''--workers'' then Some (stores (\<lambda>v c. c\<lparr>mo_workers := Number_of v\<rparr>))
      else if a = ''--queue-size'' then Some (stores (\<lambda>v c. c\<lparr>mo_queueSize := Number_of v\<rparr>))
      else if a = ''--no-build'' then Some (Flag (\<lambda>c. c\<lparr>mo_build := False\<rparr>))
      else if a = ''--no-generate'' then Some (Flag (\<lambda>c. c\<lparr>mo_generate := False\<rparr>))
      else if a = ''--no-checksum'' then Some (Flag (\<lambda>c. c\<lparr>mo_checksum := False\<rparr>))
      else if a = ''--verify'' then Some (Flag (\<lambda>c. c\<lparr>mo_verify := True\<rparr>))
      else None)"

definition default_monolith :: "string \<Rightarrow> monolith_config" where
  "default_monolith repoRoot =
     \<lparr>mo_count = Finite 100000, mo_users = Finite 10000, mo_seed = Finite 42, mo_types = ''click,view,purchase'',
      mo_input = repoRoot @ ''/examples/demo-scenarios/events.ndjson'',
      mo_output = repoRoot @ ''/examples/demo-scenarios/aggregate-results.ndjson'', mo_workers = Finite 0,
      mo_queueSize = Finite 10000, mo_build = True, mo_generate = True, mo_checksum = True, mo_verify = False\<rparr>"

definition monolith_args :: "string \<Rightarrow> string list \<Rightarrow> monolith_config cli_result" where
  "monolith_args repoRoot argv =
     cli_loop True monolith_options (case argv of a # rest \<Rightarrow> if a = ''--'' then rest else argv | [] \<Rightarrow> [])
       (default_monolith repoRoot)"

definition ends_with :: "string \<Rightarrow> string \<Rightarrow> bool" where
  "ends_with suffix s \<longleftrightarrow> length suffix \<le> length s \<and> drop (length s - length suffix) s = suffix"

definition deriveVerifyOutput :: "string \<Rightarrow> string" where
  "deriveVerifyOutput outputPath =
     (if ends_with ''.ndjson'' outputPath
      then take (length outputPath - 7) outputPath @ ''.verify'' @ ''.ndjson'' else outputPath @ ''.verify'')"

fun is_positive :: "js_number \<Rightarrow> bool" where
  "is_positive NaN = False"
| "is_positive (Infinite p) = p"
| "is_positive (Finite q) = (0 < q)"

definition monolith_generator :: "js_library \<Rightarrow> monolith_config \<Rightarrow> string list" where
  "monolith_generator lib c =
     [''--'', ''--count'', number_text lib (mo_count c), ''--users'', number_text lib (mo_users c),
      ''--seed'', number_text lib (mo_seed c), ''--types'', mo_types c, ''--output'', mo_input c]"

definition runMonolith :: "js_library \<Rightarrow> monolith_config \<Rightarrow> string \<Rightarrow> string list" where
  "runMonolith lib c outputPath =
     [''--input'', mo_input c] @ (if outputPath \<noteq> [] then [''--output'', outputPath] else []) @
     (if is_positive (mo_workers c) then [''--workers'', number_text lib (mo_workers c)] else []) @
     (if is_positive (mo_queueSize c) then [''--queue-size'', number_text lib (mo_queueSize c)] else [])"

datatype monolith_command = Build_Generator | Build_Monolith | Run_Generator "string list" | Run_Monolith "string list"

text \<open>The commands in order; \<open>main\<close> stops at the first one that fails, or before the run when there is
  no input and none is generated.\<close>

definition monolith_commands :: "js_library \<Rightarrow> monolith_config \<Rightarrow> bool \<Rightarrow> monolith_command list \<times> bool" where
  "monolith_commands lib c input_exists =
     (let building = (if mo_build c then [Build_Generator, Build_Monolith] else []);
          runs = Run_Monolith (runMonolith lib c (mo_output c)) #
            (if mo_verify c then [Run_Monolith (runMonolith lib c (deriveVerifyOutput (mo_output c)))] else [])
      in if mo_generate c then (building @ [Run_Generator (monolith_generator lib c)] @ runs, True)
         else if input_exists then (building @ runs, True) else (building, False))"

text \<open>Whether the script succeeds: every command does, and a verification finds equal checksums.\<close>

definition monolith_succeeds ::
  "js_library \<Rightarrow> monolith_config \<Rightarrow> bool \<Rightarrow> (monolith_command \<Rightarrow> bool) \<Rightarrow> (string \<Rightarrow> string) \<Rightarrow> bool" where
  "monolith_succeeds lib c input_exists succeeds hashFile =
     (let (commands, complete) = monolith_commands lib c input_exists
      in list_all succeeds commands \<and> complete \<and>
         (mo_verify c \<longrightarrow> hashFile (mo_output c) = hashFile (deriveVerifyOutput (mo_output c))))"

subsection \<open>Chunks do not matter\<close>

lemma split_newlines_nonempty [simp]: "split_newlines s \<noteq> []"
  by (induction s rule: split_newlines.induct) (auto split: list.split)

lemma split_newlines_single: "split_newlines s = [w] \<Longrightarrow> w = s"
  by (induction s arbitrary: w rule: split_newlines.induct) (auto split: list.splits if_splits)

lemma split_newlines_append:
  "split_newlines (a @ b) = butlast (split_newlines a) @ split_newlines (last (split_newlines a) @ b)"
proof (induction a rule: split_newlines.induct)
  case (2 c)
  show ?case by (cases b) simp_all
next
  case step: (3 c d s)
  consider "c = CHR 10" | "c \<noteq> CHR 10" "c = CHR 13 \<and> d = CHR 10" | "c \<noteq> CHR 10" "\<not> (c = CHR 13 \<and> d = CHR 10)" by blast
  then show ?case
  proof cases
    case 1
    with step(1) show ?thesis by simp
  next
    case 2
    with step(2) show ?thesis by simp
  next
    case 3
    note ih = step(3) [OF 3]
    obtain w ws where w: "split_newlines (d # s) = w # ws" by (cases "split_newlines (d # s)") simp_all
    show ?thesis
    proof (cases ws)
      case Nil
      then have "w = d # s" using w split_newlines_single by auto
      with 3 w Nil have "split_newlines (c # d # s) = [c # d # s]" by auto
      then show ?thesis by (simp del: split_newlines.simps)
    next
      case (Cons v vs)
      with ih w have "split_newlines (d # s @ b) = w # butlast ws @ split_newlines (last ws @ b)" by simp
      with 3 w Cons show ?thesis by auto
    qed
  qed
qed simp

lemma stream_data_run:
  "foldl (\<lambda>st data. stream_data data st) (last (split_newlines t), butlast (split_newlines t)) chunks =
   (last (split_newlines (t @ concat (map utf8_text chunks))), butlast (split_newlines (t @ concat (map utf8_text chunks))))"
proof (induction chunks arbitrary: t)
  case (Cons x xs)
  have "stream_data x (last (split_newlines t), butlast (split_newlines t)) =
      (last (split_newlines (t @ utf8_text x)), butlast (split_newlines (t @ utf8_text x)))"
    using split_newlines_append [of t "utf8_text x"] by (simp add: stream_data_def Let_def butlast_append)
  with Cons.IH [of "t @ utf8_text x"] show ?case by simp
qed simp

text \<open>Whatever the chunks are: the lines are those of the texts they decode to, put together.\<close>

lemma stream_lines_decoded:
  "stream_lines chunks =
     (let lines = split_newlines (concat (map utf8_text chunks))
      in butlast lines @ (if last lines = [] then [] else [last lines]))"
  using stream_data_run [of "[]" chunks] by (simp add: stream_lines_def stream_end_def Let_def)

text \<open>C34.
  As long as no chunk ends inside a character, the lines that are taken from a child's output do not
  depend on the pieces in which it arrives: they are those of the whole output, decoded and split at its
  line ends, without an empty last one.  Line ends themselves, \<open>\r\n\<close> included, may be cut anywhere.
  Where a chunk ends inside a character the lines do depend on it: see
  \<open>cut_character_changes_the_line\<close>.\<close>

theorem lines_do_not_depend_on_chunks:
  assumes "list_all ends_between (butlast chunks)"
  shows "stream_lines chunks =
     (let lines = split_newlines (utf8_text (concat chunks))
      in butlast lines @ (if last lines = [] then [] else [last lines]))"
  unfolding stream_lines_decoded utf8_text_concat [OF assms] by (rule refl)

theorem lines_do_not_depend_on_chunks_witness:
  "stream_lines [''ab'' @ [CHR 0xC3, CHR 0xA9, CHR 13], [CHR 10], ''c'' @ [CHR 10]] = [''ab'' @ [CHR 0xC3, CHR 0xA9], ''c'']"
proof -
  let ?chunks = "[''ab'' @ [CHR 0xC3, CHR 0xA9, CHR 13], [CHR 10], ''c'' @ [CHR 10]]"
  have "list_all ends_between (butlast ?chunks)" by code_simp
  moreover have "(let lines = split_newlines (utf8_text (concat ?chunks))
      in butlast lines @ (if last lines = [] then [] else [last lines])) = [''ab'' @ [CHR 0xC3, CHR 0xA9], ''c'']" by code_simp
  ultimately show ?thesis using lines_do_not_depend_on_chunks [of ?chunks] by simp
qed

text \<open>
  The same three bytes in one chunk and cut inside the character: the second time the line has two
  replacement characters instead.\<close>

lemma cut_character_changes_the_line:
  "stream_lines [[CHR 0xC3, CHR 0xA9, CHR 10]] = [[CHR 0xC3, CHR 0xA9]]"
  "stream_lines [[CHR 0xC3], [CHR 0xA9, CHR 10]] = [replacement @ replacement]"
  by code_simp+

subsection \<open>What the programs make of their command lines\<close>

text \<open>An integer that a double holds.\<close>

definition small_int :: "js_number \<Rightarrow> int \<Rightarrow> bool" where
  "small_int x i \<longleftrightarrow> x = Finite (of_int i) \<and> \<bar>i\<bar> \<le> 2 ^ 53"

lemma printed_number: "prints_integers lib \<Longrightarrow> small_int x i \<Longrightarrow> Number_of (number_text lib x) = x"
  by (auto simp: prints_integers_def small_int_def Number_of_string_of_int)

lemma printed_finite_arg: "prints_integers lib \<Longrightarrow> small_int x i \<Longrightarrow> finite_arg name (number_text lib x) = Inr i"
  using printed_number [of lib x i] by (simp add: finite_arg_def small_int_def trunc_def)

text \<open>C18.
  The command lines that the script builds mean to the generator and to the orchestrator what the
  script's configuration says: counts, files and event types for the one, files, batching, workload,
  payload size and iterations for the other, which reads all events unless there are work items.\<close>

theorem runner_configures_the_programs:
  assumes "prints_integers lib" "small_int (rc_count c) n" "small_int (rc_users c) u" "small_int (rc_seed c) s"
    "small_int (rc_batchSize c) b" "small_int (rc_iterations c) i"
    and "workload_of (rc_workload c) = Inr w" "payload_of (rc_payloadSize c) = Inr p"
  shows "generator_args (generator_command lib c) =
      Parsed \<lparr>gc_eventCount = n, gc_outputFile = rc_input c, gc_userCount = u, gc_eventTypes = types_arg (rc_types c),
              gc_seed = Some s, gc_distribution = None\<rparr>
    \<and> orchestrator_args (orchestratorArgs lib c) =
      Parsed (default_pipeline\<lparr>pc_inputFile := rc_input c, pc_outputFile := rc_output c,
        pc_maxEvents := (if rc_workload c = ''events'' then Finite 0 else rc_count c),
        pc_enableBatching := rc_enableBatching c,
        pc_batchSize := (if rc_enableBatching c then rc_batchSize c else Finite 100),
        pc_workloadMode := w, pc_payloadSize := p, pc_computeIterations := rc_iterations c\<rparr>)"
proof -
  note num = printed_number [OF assms(1)] printed_finite_arg [OF assms(1)]
  have d: "rc_workload c = ''events'' \<Longrightarrow> w = EVENTS" "rc_payloadSize c = ''medium'' \<Longrightarrow> p = MEDIUM"
    using assms(7,8) by (simp_all add: workload_of_def payload_of_def)
  have 1: "generator_args (generator_command lib c) =
      Parsed \<lparr>gc_eventCount = n, gc_outputFile = rc_input c, gc_userCount = u, gc_eventTypes = types_arg (rc_types c),
              gc_seed = Some s, gc_distribution = None\<rparr>"
    by (simp add: generator_args_def generator_command_def generator_options_def stores_def
        num(2) [OF assms(2)] num(2) [OF assms(3)] num(2) [OF assms(4)])
  have "orchestrator_args (orchestratorArgs lib c) =
      Parsed (default_pipeline\<lparr>pc_inputFile := rc_input c, pc_outputFile := rc_output c,
        pc_maxEvents := (if rc_workload c = ''events'' then Finite 0 else rc_count c),
        pc_enableBatching := rc_enableBatching c,
        pc_batchSize := (if rc_enableBatching c then rc_batchSize c else Finite 100),
        pc_workloadMode := w, pc_payloadSize := p, pc_computeIterations := rc_iterations c\<rparr>)"
    using d assms(7,8)
    by (cases "rc_enableBatching c"; cases "rc_workload c = ''events''"; cases "rc_payloadSize c = ''medium''";
        cases "rc_iterations c = Finite 500")
      (simp_all add: orchestrator_args_def orchestratorArgs_def orchestrator_options_def stores_def default_pipeline_def
        num(1) [OF assms(2)] num(1) [OF assms(5)] num(1) [OF assms(6)])
  with 1 show ?thesis by blast
qed

subsection \<open>What a cleanup leaves behind\<close>

fun started :: "runner_event list \<Rightarrow> nat list" where
  "started [] = []"
| "started (Service_Started p # es) = p # started es"
| "started (e # es) = started es"

text \<open>Before the second round of signals, and after it.\<close>

definition undecided :: "runner \<Rightarrow> bool" where
  "undecided r \<longleftrightarrow> rn_exit r = None \<and> rn_killed r = [] \<and> rn_killTimer r = rn_cleaning r \<and> rn_exitTimer r = rn_cleaning r"

definition leaving :: "runner \<Rightarrow> bool" where
  "leaving r \<longleftrightarrow> rn_exit r = None \<and> rn_cleaning r \<and> \<not> rn_killTimer r \<and> rn_exitTimer r"

lemma undecided_step:
  assumes "undecided r" "e \<noteq> Kill_Timer"
  shows "undecided (runner_step r e) \<and> rn_services (runner_step r e) = rn_services r @ started [e]
    \<and> (rn_cleaning (runner_step r e) \<longleftrightarrow> rn_cleaning r \<or> (\<exists>failed. e = Cleanup failed))"
  using assms by (cases e) (auto simp: undecided_def runner_step_def cleanup_def)

lemma started_append [simp]: "started (es @ fs) = started es @ started fs"
  by (induction es rule: started.induct) simp_all

lemma undecided_run:
  "undecided r \<Longrightarrow> Kill_Timer \<notin> set es \<Longrightarrow>
   undecided (foldl runner_step r es) \<and> rn_services (foldl runner_step r es) = rn_services r @ started es
   \<and> (rn_cleaning (foldl runner_step r es) \<longleftrightarrow> rn_cleaning r \<or> (\<exists>failed. Cleanup failed \<in> set es))"
proof (induction es arbitrary: r)
  case (Cons e es)
  then have s: "undecided (runner_step r e) \<and> rn_services (runner_step r e) = rn_services r @ started [e]
    \<and> (rn_cleaning (runner_step r e) \<longleftrightarrow> rn_cleaning r \<or> (\<exists>failed. e = Cleanup failed))"
    by (intro undecided_step) auto
  moreover have "started (e # es) = started [e] @ started es" using started_append [of "[e]" es] by (simp del: started_append)
  moreover note Cons.IH [OF conjunct1 [OF s]]
  ultimately show ?case using Cons.prems(2) by (auto simp del: started.simps)
qed simp

lemma left_run: "rn_exit r \<noteq> None \<Longrightarrow> foldl runner_step r es = r"
  by (induction es) (auto simp: runner_step_def)

lemma leaving_run:
  "leaving r \<Longrightarrow>
   rn_killed (foldl runner_step r es) = rn_killed r \<and>
   rn_services (foldl runner_step r es) = rn_services r @ started (takeWhile (\<lambda>e. e \<noteq> Exit_Timer) es) \<and>
   (rn_exit (foldl runner_step r es) \<noteq> None \<longleftrightarrow> Exit_Timer \<in> set es)"
proof (induction es arbitrary: r)
  case (Cons e es)
  show ?case
  proof (cases "e = Exit_Timer")
    case True
    with Cons.prems have "rn_exit (runner_step r e) \<noteq> None" "rn_killed (runner_step r e) = rn_killed r"
      "rn_services (runner_step r e) = rn_services r" by (simp_all add: leaving_def runner_step_def)
    with True left_run [of "runner_step r e" es] show ?thesis by simp
  next
    case False
    have s: "leaving (runner_step r e) \<and> rn_killed (runner_step r e) = rn_killed r \<and>
      rn_services (runner_step r e) = rn_services r @ started [e]"
      using Cons.prems False by (cases e) (simp_all add: leaving_def runner_step_def cleanup_def)
    let ?xs = "takeWhile (\<lambda>e. e \<noteq> Exit_Timer) es"
    have "started (e # ?xs) = started [e] @ started ?xs" using started_append [of "[e]" ?xs] by (simp del: started_append)
    with False s Cons.IH [OF conjunct1 [OF s]] show ?thesis by (simp del: started.simps)
  qed
qed (simp add: leaving_def)

text \<open>C35.
  When the split pipeline's script leaves, exactly the services that it had started before its
  second round of signals have been killed; services it started between that round and its end,
  which nothing prevents, go on running.\<close>

theorem cleanup_spares_late_services:
  assumes "Kill_Timer \<notin> set es" "Cleanup failed \<in> set es" "Exit_Timer \<in> set fs"
    and "r = foldl runner_step new_runner (es @ [Kill_Timer] @ fs)"
  shows "rn_exit r \<noteq> None \<and> rn_killed r = started es
    \<and> rn_services r = started es @ started (takeWhile (\<lambda>e. e \<noteq> Exit_Timer) fs)"
proof -
  let ?s = "foldl runner_step new_runner es"
  have "undecided new_runner" by (simp add: undecided_def new_runner_def)
  from undecided_run [OF this assms(1)] assms(2) have u: "undecided ?s" "rn_services ?s = started es" "rn_cleaning ?s"
    by (auto simp: new_runner_def)
  then have k: "leaving (runner_step ?s Kill_Timer)" "rn_killed (runner_step ?s Kill_Timer) = started es"
    "rn_services (runner_step ?s Kill_Timer) = started es"
    by (simp_all add: undecided_def leaving_def runner_step_def)
  from leaving_run [OF k(1), of fs] k assms(3) show ?thesis by (simp add: assms(4))
qed

theorem cleanup_spares_late_services_witness:
  "rn_killed (foldl runner_step new_runner [Service_Started 1, Cleanup False, Service_Started 2, Kill_Timer,
     Service_Started 3, Exit_Timer]) = [1, 2]
   \<and> rn_services (foldl runner_step new_runner [Service_Started 1, Cleanup False, Service_Started 2, Kill_Timer,
     Service_Started 3, Exit_Timer]) = [1, 2, 3]"
  using cleanup_spares_late_services [OF _ _ _ refl, of "[Service_Started 1, Cleanup False, Service_Started 2]" False
      "[Service_Started 3, Exit_Timer]"]
  by simp

subsection \<open>The monolith's second output\<close>

lemma verify_output_differs: "deriveVerifyOutput p \<noteq> p"
proof
  assume h: "deriveVerifyOutput p = p"
  have "length (deriveVerifyOutput p) = length p + 7" by (auto simp: deriveVerifyOutput_def ends_with_def)
  with h show False by simp
qed

definition sample_printer :: js_library where
  "sample_printer = \<lparr>lib_parse = (\<lambda>s. None), lib_stringify = (\<lambda>v. []), lib_date = (\<lambda>s. None),
     lib_print = (\<lambda>q. string_of_int \<lfloor>q\<rfloor>)\<rparr>"

theorem runner_configures_the_programs_witness:
  "orchestrator_args (orchestratorArgs sample_printer (default_runner ''/r'')) =
     Parsed (default_pipeline\<lparr>pc_inputFile := ''/r/examples/demo-scenarios/events.ndjson'',
       pc_outputFile := ''/r/examples/demo-scenarios/aggregate-results-split.ndjson''\<rparr>)"
proof -
  have "prints_integers sample_printer" by (simp add: prints_integers_def sample_printer_def)
  from runner_configures_the_programs [OF this, of "default_runner ''/r''" 100000 10000 42 100 500 EVENTS MEDIUM]
  show ?thesis by (simp add: default_runner_def small_int_def workload_of_def payload_of_def default_pipeline_def)
qed

end
