(* ===== verification/Demo_Runner.thy ===== *)
theory Demo_Runner
  imports Demo_Scripts "HOL-Library.Sublist"
begin

text \<open>
  The main function of \<open>examples/demo-scenarios/run-split-pipeline.mjs\<close>: the commands it runs and the
  services it starts, in their order, with what it waits for in between.  It is an asynchronous
  function, so signals, errors and the timers of \<open>cleanup\<close> (in \<open>Demo_Scripts\<close>) can come at each wait.
\<close>

subsection \<open>What main does\<close>

text \<open>\<open>Runs\<close> is \<open>await execCommand\<close>, \<open>Starts\<close> is \<open>startService\<close>, and \<open>Sleeps\<close> the wait of a second.\<close>

datatype runner_action = Runs string string "string list" | Starts string service_command | Sleeps

definition build_command :: "runner_config \<Rightarrow> runner_action list" where
  "build_command c =
     (if rc_build c
      then [Runs ''build'' ''pnpm'' [''-r'', ''--filter'', ''./apps/demo-domain/*-service'', ''--filter'',
              ''./apps/demo-domain/pipeline-orchestrator'', ''run'', ''build'']]
      else [])"

definition generate_command :: "js_library \<Rightarrow> runner_config \<Rightarrow> runner_action list" where
  "generate_command lib c =
     (if rc_generate c
      then [Runs ''generator'' ''node'' (''apps/demo-domain/event-generator/dist/event-generator.js'' # generator_command lib c)]
      else [])"

definition service_starts :: "runner_config \<Rightarrow> runner_action list" where
  "service_starts c =
     (let (parse, rules, aggregate) = resolveServiceCommands c
      in [Starts ''ingest'' ((node_service ''apps/demo-domain/ingest-service/dist/ingest-service.js'')
            \<lparr>sv_args := [''apps/demo-domain/ingest-service/dist/ingest-service.js'', ''--input'', rc_input c]\<rparr>), Sleeps,
          Starts ''parse'' parse, Sleeps, Starts ''rules'' rules, Sleeps, Starts ''aggregate'' aggregate, Sleeps,
          Starts ''sink'' ((node_service ''apps/demo-domain/sink-service/dist/sink-service.js'')
            \<lparr>sv_args := [''apps/demo-domain/sink-service/dist/sink-service.js'', ''--output'', rc_output c]\<rparr>), Sleeps])"

definition orchestrator_command :: "js_library \<Rightarrow> runner_config \<Rightarrow> runner_action" where
  "orchestrator_command lib c =
     Runs ''orchestrator'' ''node''
       (''apps/demo-domain/pipeline-orchestrator/dist/pipeline-orchestrator.js'' # orchestratorArgs lib c)"

definition main_actions :: "js_library \<Rightarrow> runner_config \<Rightarrow> runner_action list" where
  "main_actions lib c =
     build_command c @ generate_command lib c @ service_starts c @ [orchestrator_command lib c]"

subsection \<open>The state of the script\<close>

text \<open>
  Children are numbered in the order in which they were spawned.  \<open>For_Command i\<close>: the promise of
  child \<open>i\<close> is pending; \<open>For_Nothing\<close>: \<open>main\<close> is over.
\<close>

datatype awaiting = For_Command nat | For_Sleep | For_Nothing

record demo =
  dm_todo :: "runner_action list"
  dm_await :: awaiting
  dm_spawned :: "runner_action list"
  dm_runner :: runner

datatype demo_event =
    Child_Closed nat "int option"
  | Child_Error nat
  | Sleep_Over
  | Stop_Signal
  | Uncaught
  | Kill_Fires
  | Exit_Fires

text \<open>Up to the next wait.\<close>

fun advance :: "runner_action list \<Rightarrow> demo \<Rightarrow> demo" where
  "advance [] d = d\<lparr>dm_todo := [], dm_await := For_Nothing, dm_runner := cleanup False (dm_runner d)\<rparr>"
| "advance (Runs name command args # as) d =
     d\<lparr>dm_todo := as, dm_await := For_Command (length (dm_spawned d)), dm_spawned := dm_spawned d @ [Runs name command args]\<rparr>"
| "advance (Starts name sc # as) d =
     advance as (d\<lparr>dm_spawned := dm_spawned d @ [Starts name sc],
                   dm_runner := runner_step (dm_runner d) (Service_Started (length (dm_spawned d)))\<rparr>)"
| "advance (Sleeps # as) d = d\<lparr>dm_todo := as, dm_await := For_Sleep\<rparr>"

definition start_demo :: "js_library \<Rightarrow> runner_config \<Rightarrow> demo" where
  "start_demo lib c =
     advance (main_actions lib c) \<lparr>dm_todo = [], dm_await = For_Nothing, dm_spawned = [], dm_runner = new_runner\<rparr>"

text \<open>The \<open>catch\<close> of \<open>main\<close>.\<close>

definition main_fails :: "demo \<Rightarrow> demo" where
  "main_fails d = d\<lparr>dm_todo := [], dm_await := For_Nothing, dm_runner := cleanup True (dm_runner d)\<rparr>"

text \<open>The listeners of \<open>execCommand\<close>.\<close>

definition command_closed :: "int option \<Rightarrow> demo \<Rightarrow> demo" where
  "command_closed code d = (if code \<noteq> Some 0 then main_fails d else advance (dm_todo d) d)"

text \<open>A service has no listener for \<open>error\<close>, so that event is an uncaught exception.\<close>

fun demo_event_step :: "demo \<Rightarrow> demo_event \<Rightarrow> demo" where
  "demo_event_step d (Child_Closed i code) = (if dm_await d = For_Command i then command_closed code d else d)"
| "demo_event_step d (Child_Error i) =
     (if dm_await d = For_Command i then main_fails d
      else if i \<in> set (rn_services (dm_runner d)) then d\<lparr>dm_runner := cleanup True (dm_runner d)\<rparr> else d)"
| "demo_event_step d Sleep_Over = (if dm_await d = For_Sleep then advance (dm_todo d) d else d)"
| "demo_event_step d Stop_Signal = d\<lparr>dm_runner := cleanup False (dm_runner d)\<rparr>"
| "demo_event_step d Uncaught = d\<lparr>dm_runner := cleanup True (dm_runner d)\<rparr>"
| "demo_event_step d Kill_Fires = d\<lparr>dm_runner := runner_step (dm_runner d) Kill_Timer\<rparr>"
| "demo_event_step d Exit_Fires = d\<lparr>dm_runner := runner_step (dm_runner d) Exit_Timer\<rparr>"

definition demo_step :: "demo \<Rightarrow> demo_event \<Rightarrow> demo" where
  "demo_step d e = (if rn_exit (dm_runner d) \<noteq> None then d else demo_event_step d e)"

subsection \<open>The children\<close>

text \<open>
  A service counts as ready when it has printed one of two words; \<open>main\<close> never asks for it.  The
  directory of a service is resolved by the system, that of every other command is the repository.
\<close>

fun starts_with :: "string \<Rightarrow> string \<Rightarrow> bool" where
  "starts_with [] s = True"
| "starts_with (c # w) [] = False"
| "starts_with (c # w) (d # s) = (c = d \<and> starts_with w s)"

fun has_text :: "string \<Rightarrow> string \<Rightarrow> bool" where
  "has_text w [] = (w = [])"
| "has_text w (c # s) = (starts_with w (c # s) \<or> has_text w s)"

definition service_line :: "bool \<Rightarrow> string \<Rightarrow> bool" where
  "service_line ready line = (if has_text ''listening'' line \<or> has_text ''running'' line then True else ready)"

definition isReady :: "string list \<Rightarrow> bool" where
  "isReady chunks = foldl service_line False (stream_lines chunks)"

definition service_directory :: "(string \<Rightarrow> string) \<Rightarrow> string \<Rightarrow> service_command \<Rightarrow> string" where
  "service_directory resolves repoRoot sc = (case sv_cwd sc of Some d \<Rightarrow> resolves d | None \<Rightarrow> repoRoot)"

definition service_environment :: "(string, string) js_map \<Rightarrow> service_command \<Rightarrow> (string, string) js_map" where
  "service_environment env sc = foldl (\<lambda>m (k, v). map_set k v m) env (sv_env sc)"

text \<open>A child, as Node shows it, and the signals that reached its group or itself.\<close>

datatype signal_name = SIGTERM | SIGKILL

record child_process =
  cp_pid :: "int option"
  cp_killed :: bool
  cp_signals :: "signal_name list"

text \<open>
  \<open>group_kill\<close> says whether \<open>process.kill\<close> of the group succeeds, \<open>direct\<close> what \<open>child.kill\<close> does: it
  throws, or says whether the signal was delivered, and then Node sets \<open>killed\<close>.
\<close>

definition signalProcess :: "bool \<Rightarrow> bool \<Rightarrow> bool option \<Rightarrow> signal_name \<Rightarrow> child_process \<Rightarrow> child_process" where
  "signalProcess windows group_kill direct sig child =
     (if cp_killed child then child
      else if cp_pid child \<noteq> None \<and> \<not> windows \<and> group_kill then child\<lparr>cp_signals := cp_signals child @ [sig]\<rparr>
      else (case direct of
          Some True \<Rightarrow> child\<lparr>cp_killed := True, cp_signals := cp_signals child @ [sig]\<rparr>
        | _ \<Rightarrow> child))"

subsection \<open>The order of its steps\<close>

definition is_run :: "runner_action \<Rightarrow> bool" where
  "is_run a = (case a of Runs name command args \<Rightarrow> True | _ \<Rightarrow> False)"

definition spawns :: "runner_action list \<Rightarrow> runner_action list" where
  "spawns as = filter (\<lambda>a. a \<noteq> Sleeps) as"

text \<open>Everything the script spawns when nothing goes wrong.\<close>

definition run_plan :: "js_library \<Rightarrow> runner_config \<Rightarrow> runner_action list" where
  "run_plan lib c = spawns (main_actions lib c)"

definition closed_well :: "demo_event list \<Rightarrow> nat \<Rightarrow> bool" where
  "closed_well es i \<longleftrightarrow> Child_Closed i (Some 0) \<in> set es"

definition went_wrong :: "demo_event list \<Rightarrow> nat \<Rightarrow> bool" where
  "went_wrong es i \<longleftrightarrow> Child_Error i \<in> set es \<or> (\<exists>code. code \<noteq> Some 0 \<and> Child_Closed i code \<in> set es)"

text \<open>Signals, and errors that are not those of a command.\<close>

definition disturbs :: "runner_action list \<Rightarrow> demo_event \<Rightarrow> bool" where
  "disturbs plan e \<longleftrightarrow>
     (case e of Stop_Signal \<Rightarrow> True | Uncaught \<Rightarrow> True | Child_Error i \<Rightarrow> i < length plan \<and> \<not> is_run (plan ! i) | _ \<Rightarrow> False)"

definition services_in :: "runner_action list \<Rightarrow> nat list" where
  "services_in as = filter (\<lambda>i. \<not> is_run (as ! i)) [0..<length as]"

lemma services_in_simps [simp]:
  "services_in [] = []"
  "services_in (as @ [a]) = services_in as @ (if is_run a then [] else [length as])"
  by (auto simp: services_in_def nth_append intro: filter_cong)

lemma spawns_simps [simp]:
  "spawns [] = []" "spawns (Runs n p args # as) = Runs n p args # spawns as"
  "spawns (Starts n sc # as) = Starts n sc # spawns as" "spawns (Sleeps # as) = spawns as"
  by (simp_all add: spawns_def)

lemma is_run_simps [simp]: "is_run (Runs n p args)" "\<not> is_run (Starts n sc)" "\<not> is_run Sleeps"
  by (simp_all add: is_run_def)

text \<open>Every command among these children has ended well.\<close>

definition settled_runs :: "demo_event list \<Rightarrow> runner_action list \<Rightarrow> bool" where
  "settled_runs es as \<longleftrightarrow> (\<forall>j < length as. is_run (as ! j) \<longrightarrow> closed_well es j)"

definition completed :: "runner_action list \<Rightarrow> demo_event list \<Rightarrow> demo \<Rightarrow> bool" where
  "completed plan es d \<longleftrightarrow> dm_spawned d = plan \<and> settled_runs es plan"

text \<open>It stopped at its last command, which went wrong.\<close>

definition stopped :: "runner_action list \<Rightarrow> demo_event list \<Rightarrow> demo \<Rightarrow> bool" where
  "stopped plan es d \<longleftrightarrow>
     (\<exists>before a. dm_spawned d = before @ [a] \<and> is_run a \<and> prefix (dm_spawned d) plan
        \<and> settled_runs es before \<and> went_wrong es (length before))"

definition in_order :: "runner_action list \<Rightarrow> demo_event list \<Rightarrow> demo \<Rightarrow> bool" where
  "in_order plan es d \<longleftrightarrow> rn_services (dm_runner d) = services_in (dm_spawned d) \<and>
     (case dm_await d of
        For_Command i \<Rightarrow> dm_spawned d @ spawns (dm_todo d) = plan \<and>
          (\<exists>before a. dm_spawned d = before @ [a] \<and> is_run a \<and> i = length before \<and> settled_runs es before)
      | For_Sleep \<Rightarrow> dm_spawned d @ spawns (dm_todo d) = plan \<and> settled_runs es (dm_spawned d)
      | For_Nothing \<Rightarrow> completed plan es d \<or> stopped plan es d)"

lemma settled_runs_simps [simp]:
  "settled_runs es []"
  "settled_runs es (as @ [a]) \<longleftrightarrow> settled_runs es as \<and> (is_run a \<longrightarrow> closed_well es (length as))"
  by (auto simp: settled_runs_def nth_append less_Suc_eq)

lemma settled_runs_more: "settled_runs es as \<Longrightarrow> settled_runs (es @ fs) as"
  by (auto simp: settled_runs_def closed_well_def)

lemma cleanup_services [simp]: "rn_services (cleanup f r) = rn_services r" "rn_exit (cleanup f r) = rn_exit r"
  by (simp_all add: cleanup_def)

lemma advance_in_order:
  assumes "rn_services (dm_runner d) = services_in (dm_spawned d)" "rn_exit (dm_runner d) = None"
    "dm_spawned d @ spawns as = plan" "settled_runs es (dm_spawned d)"
  shows "in_order plan es (advance as d)"
  using assms
  by (induction as d rule: advance.induct) (auto simp: in_order_def completed_def runner_step_def)

lemma in_order_more: "in_order plan es d \<Longrightarrow> in_order plan (es @ fs) d"
  by (auto simp: in_order_def completed_def stopped_def went_wrong_def settled_runs_more split: awaiting.splits)

lemma runner_timers [simp]:
  "rn_services (runner_step r Kill_Timer) = rn_services r" "rn_services (runner_step r Exit_Timer) = rn_services r"
  by (simp_all add: runner_step_def)

lemma in_order_closed:
  assumes "in_order plan es d" "rn_exit (dm_runner d) = None" "dm_await d = For_Command i" "closed_well es i"
  shows "in_order plan es (advance (dm_todo d) d)"
  using assms by (intro advance_in_order) (auto simp: in_order_def)

lemma in_order_slept:
  assumes "in_order plan es d" "rn_exit (dm_runner d) = None" "dm_await d = For_Sleep"
  shows "in_order plan es (advance (dm_todo d) d)"
  using assms by (intro advance_in_order) (auto simp: in_order_def)

lemma in_order_fails:
  assumes "in_order plan es d" "dm_await d = For_Command i" "went_wrong es i"
  shows "in_order plan es (main_fails d)" "stopped plan es (main_fails d)"
proof -
  show st: "stopped plan es (main_fails d)"
    using assms by (auto simp: in_order_def main_fails_def stopped_def)
  then show "in_order plan es (main_fails d)"
    using assms(1) by (simp add: in_order_def main_fails_def)
qed

lemma in_order_runner:
  "in_order plan es d \<Longrightarrow> rn_services r = rn_services (dm_runner d) \<Longrightarrow> in_order plan es (d\<lparr>dm_runner := r\<rparr>)"
  by (simp add: in_order_def completed_def stopped_def split: awaiting.splits)

lemma in_order_step:
  assumes "in_order plan es d"
  shows "in_order plan (es @ [e]) (demo_step d e)"
proof (cases "rn_exit (dm_runner d)")
  case None
  have more: "in_order plan (es @ [e]) d" using assms by (rule in_order_more)
  note step = demo_step_def command_closed_def None
  show ?thesis
  proof (cases e)
    case (Child_Closed i code)
    then have "code = Some 0 \<Longrightarrow> closed_well (es @ [e]) i" "code \<noteq> Some 0 \<Longrightarrow> went_wrong (es @ [e]) i"
      by (auto simp: closed_well_def went_wrong_def)
    with Child_Closed more in_order_closed [OF more None, of i] in_order_fails(1) [OF more, of i] show ?thesis
      by (auto simp: step)
  next
    case (Child_Error i)
    then have "went_wrong (es @ [e]) i" by (auto simp: went_wrong_def)
    with Child_Error more in_order_fails(1) [OF more] in_order_runner [OF more] show ?thesis by (simp add: step)
  qed (use more in_order_slept [OF more None] in_order_runner [OF more] in \<open>simp_all add: step\<close>)
qed (use assms in \<open>simp add: demo_step_def in_order_more\<close>)

lemma in_order_start: "in_order (run_plan lib c) [] (start_demo lib c)"
  unfolding start_demo_def run_plan_def by (rule advance_in_order) (simp_all add: new_runner_def)

lemma in_order_run:
  "in_order plan es d \<Longrightarrow> in_order plan (es @ fs) (foldl demo_step d fs)"
proof (induction fs arbitrary: es d)
  case (Cons e fs)
  from Cons.IH [OF in_order_step [OF Cons.prems]] show ?case by simp
qed simp

lemma demo_in_order: "in_order (run_plan lib c) es (foldl demo_step (start_demo lib c) es)"
  using in_order_run [OF in_order_start, of _ _ es] by simp

subsection \<open>Runs that nothing disturbs\<close>

text \<open>Only the end of \<open>main\<close> starts the cleanup then, and nothing is started after it.\<close>

definition quiet_runner :: "bool \<Rightarrow> runner \<Rightarrow> bool" where
  "quiet_runner over r \<longleftrightarrow>
     (if \<not> over
      then \<not> rn_cleaning r \<and> \<not> rn_killTimer r \<and> \<not> rn_exitTimer r \<and> rn_killed r = [] \<and> rn_exit r = None
      else rn_cleaning r \<and> (rn_killTimer r \<longrightarrow> rn_exit r = None \<and> rn_killed r = []) \<and>
           (\<not> rn_killTimer r \<longrightarrow> rn_killed r = rn_services r) \<and>
           (rn_exit r = None \<or> rn_exit r = Some (if rn_failed r then 1 else 0)))"

definition quiet :: "runner_action list \<Rightarrow> demo_event list \<Rightarrow> demo \<Rightarrow> bool" where
  "quiet plan es d \<longleftrightarrow> quiet_runner (dm_await d = For_Nothing) (dm_runner d) \<and>
     (dm_await d = For_Nothing \<longrightarrow> (if rn_failed (dm_runner d) then stopped plan es d else completed plan es d))"

lemma quiet_cleanup: "quiet_runner False r \<Longrightarrow> quiet_runner True (cleanup failed r)" "rn_cleaning r \<Longrightarrow> cleanup failed r = r"
  "\<not> rn_cleaning r \<Longrightarrow> rn_failed (cleanup failed r) = failed"
  by (simp_all add: quiet_runner_def cleanup_def)

lemma advance_quiet:
  assumes "rn_services (dm_runner d) = services_in (dm_spawned d)" "quiet_runner False (dm_runner d)"
    "dm_spawned d @ spawns as = plan" "settled_runs es (dm_spawned d)"
  shows "quiet plan es (advance as d)"
  using assms
  by (induction as d rule: advance.induct)
    (auto simp: quiet_def quiet_runner_def completed_def runner_step_def cleanup_def)

lemma quiet_more: "quiet plan es d \<Longrightarrow> quiet plan (es @ fs) d"
  by (auto simp: quiet_def completed_def stopped_def went_wrong_def settled_runs_more split: if_splits)

lemma spawned_prefix: "in_order plan es d \<Longrightarrow> prefix (dm_spawned d) plan"
  by (auto simp: in_order_def completed_def stopped_def prefix_def split: awaiting.splits)

lemma service_of_plan: "in_order plan es d \<Longrightarrow> i \<in> set (rn_services (dm_runner d)) \<Longrightarrow> i < length plan \<and> \<not> is_run (plan ! i)"
  using spawned_prefix [of plan es d]
  by (auto simp: in_order_def services_in_def prefix_def nth_append split: if_splits)

lemma quiet_fails:
  "in_order plan es d \<Longrightarrow> quiet plan es d \<Longrightarrow> dm_await d = For_Command i \<Longrightarrow> went_wrong es i \<Longrightarrow> quiet plan es (main_fails d)"
  using in_order_fails(2) [of plan es d i] by (auto simp: quiet_def main_fails_def quiet_runner_def cleanup_def)

lemma quiet_advance:
  assumes "in_order plan es d" "quiet plan es d" "dm_await d = For_Sleep \<or> dm_await d = For_Command i \<and> closed_well es i"
  shows "quiet plan es (advance (dm_todo d) d)"
proof (rule advance_quiet)
  show "quiet_runner False (dm_runner d)" using assms(2,3) by (auto simp: quiet_def)
qed (use assms in \<open>auto simp: in_order_def\<close>)

lemma quiet_runner_timer:
  "quiet_runner over r \<Longrightarrow> rn_exit r = None \<Longrightarrow> e = Kill_Timer \<or> e = Exit_Timer \<Longrightarrow> quiet_runner over (runner_step r e)"
  by (cases over; cases "rn_killTimer r"; cases "rn_exitTimer r") (auto simp: quiet_runner_def runner_step_def)

lemma runner_fields [simp]:
  "rn_failed (runner_step r Kill_Timer) = rn_failed r" "rn_failed (runner_step r Exit_Timer) = rn_failed r"
  "stopped plan es (d\<lparr>dm_runner := r\<rparr>) = stopped plan es d" "completed plan es (d\<lparr>dm_runner := r\<rparr>) = completed plan es d"
  by (simp_all add: runner_step_def stopped_def completed_def)

lemma quiet_timer:
  "quiet plan es d \<Longrightarrow> rn_exit (dm_runner d) = None \<Longrightarrow> e = Kill_Timer \<or> e = Exit_Timer \<Longrightarrow>
   quiet plan es (d\<lparr>dm_runner := runner_step (dm_runner d) e\<rparr>)"
  using quiet_runner_timer [of _ "dm_runner d" e] by (auto simp: quiet_def)

lemma runner_quiet_step:
  assumes "quiet plan es d" "in_order plan es d" "\<not> disturbs plan e"
  shows "quiet plan (es @ [e]) (demo_step d e)"
proof (cases "rn_exit (dm_runner d)")
  case None
  note more = quiet_more [OF assms(1), of "[e]"] in_order_more [OF assms(2), of "[e]"]
  note step = demo_step_def command_closed_def None
  show ?thesis
  proof (cases e)
    case (Child_Closed i code)
    then have "code = Some 0 \<Longrightarrow> closed_well (es @ [e]) i" "code \<noteq> Some 0 \<Longrightarrow> went_wrong (es @ [e]) i"
      by (auto simp: closed_well_def went_wrong_def)
    with Child_Closed more quiet_advance [OF more(2,1), of i] quiet_fails [OF more(2,1), of i] show ?thesis
      by (auto simp: step)
  next
    case (Child_Error i)
    then have "went_wrong (es @ [e]) i" by (auto simp: went_wrong_def)
    moreover have "i \<notin> set (rn_services (dm_runner d))"
      using service_of_plan [OF assms(2), of i] assms(3) Child_Error by (auto simp: disturbs_def)
    ultimately show ?thesis using Child_Error more(1) quiet_fails [OF more(2,1), of i] by (simp add: step)
  qed (use more quiet_advance [OF more(2,1)] quiet_timer [OF more(1) None] assms(3) in \<open>auto simp: step disturbs_def\<close>)
qed (use assms in \<open>simp add: demo_step_def quiet_more\<close>)

lemma quiet_start: "quiet (run_plan lib c) [] (start_demo lib c)"
  unfolding start_demo_def run_plan_def by (rule advance_quiet) (simp_all add: new_runner_def quiet_runner_def)

lemma quiet_run:
  "quiet plan es d \<Longrightarrow> in_order plan es d \<Longrightarrow> list_all (\<lambda>e. \<not> disturbs plan e) fs \<Longrightarrow>
   quiet plan (es @ fs) (foldl demo_step d fs)"
proof (induction fs arbitrary: es d)
  case (Cons e fs)
  from Cons.IH [OF runner_quiet_step [OF Cons.prems(1,2)] in_order_step [OF Cons.prems(2)]] Cons.prems(3) show ?case by simp
qed simp

lemma earlier_closed:
  assumes "in_order plan es d" "Suc j < length (dm_spawned d)" "is_run (plan ! j)" "prefix (dm_spawned d) plan"
  shows "closed_well es j"
proof -
  have "is_run (dm_spawned d ! j)" using assms(2-4) by (auto simp: prefix_def nth_append)
  with assms(1,2) show ?thesis
    by (auto simp: in_order_def completed_def stopped_def settled_runs_def nth_append split: awaiting.splits)
qed

lemma quiet_left:
  assumes "quiet plan es d" "rn_exit (dm_runner d) = Some code" "in_order plan es d"
  shows "rn_killed (dm_runner d) = services_in (dm_spawned d)
    \<and> (code = 0 \<and> dm_spawned d = plan \<and> (\<forall>j < length plan. is_run (plan ! j) \<longrightarrow> closed_well es j)
      \<or> code = 1 \<and> is_run (last (dm_spawned d)) \<and> went_wrong es (length (dm_spawned d) - 1))"
proof -
  have over: "dm_await d = For_Nothing" using assms(1,2) by (auto simp: quiet_def quiet_runner_def split: if_splits)
  then have "quiet_runner True (dm_runner d)" using assms(1) by (simp add: quiet_def)
  with assms(2,3) have r: "rn_killed (dm_runner d) = services_in (dm_spawned d)" "code = (if rn_failed (dm_runner d) then 1 else 0)"
    by (auto simp: quiet_runner_def in_order_def)
  show ?thesis
  proof (cases "rn_failed (dm_runner d)")
    case True
    with assms(1) over have "stopped plan es d" by (simp add: quiet_def)
    with True r show ?thesis by (auto simp: stopped_def)
  next
    case False
    with assms(1) over have "completed plan es d" by (simp add: quiet_def)
    with False r show ?thesis by (simp add: completed_def settled_runs_def)
  qed
qed

text \<open>C16.
  The script of the split pipeline starts things in a fixed order, whatever happens: what it has
  spawned is an initial part of its plan - build, generator, the five services, orchestrator - and
  every command that is followed by another child has ended with code 0.  A run without signals or
  errors of services leaves only when \<open>main\<close> is over and has then killed every service it started;
  it leaves with code 0 when all of the plan has been run and every command has ended well, and
  otherwise with code 1 because the last command went wrong.\<close>

theorem demo_follows_its_plan:
  assumes "d = foldl demo_step (start_demo lib c) es" "plan = run_plan lib c"
  shows "prefix (dm_spawned d) plan
    \<and> (\<forall>j. Suc j < length (dm_spawned d) \<and> is_run (plan ! j) \<longrightarrow> closed_well es j)
    \<and> (list_all (\<lambda>e. \<not> disturbs plan e) es \<longrightarrow> (\<forall>code. rn_exit (dm_runner d) = Some code \<longrightarrow>
         rn_killed (dm_runner d) = services_in (dm_spawned d)
         \<and> (code = 0 \<and> dm_spawned d = plan \<and> (\<forall>j < length plan. is_run (plan ! j) \<longrightarrow> closed_well es j)
           \<or> code = 1 \<and> is_run (last (dm_spawned d)) \<and> went_wrong es (length (dm_spawned d) - 1))))"
proof -
  have io: "in_order plan es d" unfolding assms by (rule demo_in_order)
  have p: "prefix (dm_spawned d) plan" using io by (rule spawned_prefix)
  have "closed_well es j" if "Suc j < length (dm_spawned d)" "is_run (plan ! j)" for j
    using io that p by (rule earlier_closed)
  moreover have "rn_killed (dm_runner d) = services_in (dm_spawned d)
      \<and> (code = 0 \<and> dm_spawned d = plan \<and> (\<forall>j < length plan. is_run (plan ! j) \<longrightarrow> closed_well es j)
        \<or> code = 1 \<and> is_run (last (dm_spawned d)) \<and> went_wrong es (length (dm_spawned d) - 1))"
    if "list_all (\<lambda>e. \<not> disturbs plan e) es" "rn_exit (dm_runner d) = Some code" for code
  proof -
    have "quiet plan es d"
      using quiet_run [OF quiet_start in_order_start, of lib c es] that(1) assms by simp
    then show ?thesis using that(2) io by (rule quiet_left)
  qed
  ultimately show ?thesis using p by blast
qed

subsection \<open>Signals and readiness\<close>

text \<open>
  With process groups, a child gets both signals; once the first one had to be sent to the child itself,
  the second one is never sent.
\<close>

lemma group_gets_both_signals:
  assumes "cp_pid child \<noteq> None" "\<not> cp_killed child"
  shows "cp_signals (signalProcess False True d SIGKILL (signalProcess False True e SIGTERM child)) = cp_signals child @ [SIGTERM, SIGKILL]"
  using assms by (simp add: signalProcess_def)

lemma no_second_signal_to_a_child:
  assumes "cp_signals (signalProcess w False (Some True) SIGTERM child) \<noteq> cp_signals child"
  shows "signalProcess v g d SIGKILL (signalProcess w False (Some True) SIGTERM child) = signalProcess w False (Some True) SIGTERM child"
  using assms by (auto simp: signalProcess_def split: if_splits)

lemma has_text_append: "has_text w (a @ w @ b)"
proof (induction a)
  case Nil
  have "starts_with w (w @ b)" by (induction w) simp_all
  then show ?case by (cases "w @ b") (auto split: list.splits)
qed simp

lemma ready_iff: "foldl service_line r ls = (r \<or> (\<exists>l \<in> set ls. has_text ''listening'' l \<or> has_text ''running'' l))"
  by (induction ls arbitrary: r) (auto simp: service_line_def)

text \<open>
  A service that has printed all its output counts as ready exactly when a line of it, decoded chunk by
  chunk, has one of the words.
\<close>

lemma ready_when_said:
  "isReady chunks \<longleftrightarrow> (\<exists>l \<in> set (split_newlines (concat (map utf8_text chunks))). has_text ''listening'' l \<or> has_text ''running'' l)"
proof -
  let ?P = "\<lambda>l. has_text ''listening'' l \<or> has_text ''running'' l" and ?ls = "split_newlines (concat (map utf8_text chunks))"
  have "stream_lines chunks = butlast ?ls @ (if last ?ls = [] then [] else [last ?ls])"
    using stream_data_run [of "[]" chunks] by (simp add: stream_lines_def stream_end_def)
  then have "isReady chunks \<longleftrightarrow> (\<exists>l \<in> set (butlast ?ls). ?P l) \<or> ?P (last ?ls)" unfolding isReady_def ready_iff by auto
  also have "\<dots> \<longleftrightarrow> (\<exists>l \<in> set (butlast ?ls @ [last ?ls]). ?P l)" unfolding set_append by auto
  finally show ?thesis by simp
qed

definition quick_config :: runner_config where
  "quick_config = (default_runner ''/r'')\<lparr>rc_build := False, rc_generate := False\<rparr>"

text \<open>The events of a run in which the orchestrator fails.\<close>

definition failing_run :: "demo_event list" where
  "failing_run = replicate 5 Sleep_Over @ [Child_Closed 5 (Some 1), Kill_Fires, Exit_Fires]"

theorem demo_follows_its_plan_witness:
  "rn_exit (dm_runner (foldl demo_step (start_demo sample_printer quick_config) failing_run)) = Some 1
   \<and> rn_killed (dm_runner (foldl demo_step (start_demo sample_printer quick_config) failing_run)) = [0, 1, 2, 3, 4]
   \<and> went_wrong failing_run 5"
proof -
  let ?d = "foldl demo_step (start_demo sample_printer quick_config) failing_run"
  note d = start_demo_def main_actions_def build_command_def generate_command_def service_starts_def orchestrator_command_def
    quick_config_def default_runner_def failing_run_def resolveServiceCommands_def node_service_def new_runner_def
  have e: "rn_exit (dm_runner ?d) = Some 1" and len: "length (dm_spawned ?d) = 6" and plan: "length (run_plan sample_printer quick_config) = 6"
    by (simp_all add: d eval_nat_numeral demo_step_def command_closed_def main_fails_def runner_step_def cleanup_def run_plan_def)
  have u: "list_all (\<lambda>e. \<not> disturbs (run_plan sample_printer quick_config) e) failing_run"
    by (auto simp: failing_run_def disturbs_def list_all_iff)
  have "services_in (dm_spawned ?d) = [0, 1, 2, 3, 4]"
    by (simp add: d eval_nat_numeral demo_step_def command_closed_def main_fails_def runner_step_def cleanup_def services_in_def)
  with demo_follows_its_plan [OF refl refl, of sample_printer quick_config failing_run] e u len plan show ?thesis
    by auto
qed

end
