(* ===== verification/Reported_Service.thy ===== *)
theory Reported_Service
  imports Topology_Properties Reporter_Online
begin

text \<open>
  A reporter and the topology service together: what the reporter writes to the network reaches the
  store in the order in which it was written, at the time of the event that made it write.  Other
  services call the store in between, and its own timers run.
\<close>

datatype system_event = Reporter_Does reporter_event int | Store_Does store_event

text \<open>What the service does with a message of the reporter.  A registration is answered by the handle
  that the reply event carries.\<close>

fun received_as :: "int \<Rightarrow> network_action \<Rightarrow> store_event list" where
  "received_as now (Sent_Heartbeat h request) = [Ev_Heartbeat request now]"
| "received_as now (Sent_Activity a request) = [Ev_Activity request now]"
| "received_as now (Sent_Unregister serviceId) = [Ev_Unregister serviceId]"
| "received_as now a = []"

text \<open>The log has the newest action first.\<close>

definition written_by :: "reporter \<Rightarrow> reporter \<Rightarrow> network_action list" where
  "written_by r r' = rev (take (length (rp_log r') - length (rp_log r)) (rp_log r'))"

fun store_events :: "reporter \<Rightarrow> system_event list \<Rightarrow> store_event list" where
  "store_events r [] = []"
| "store_events r (Reporter_Does e now # es) =
     concat (map (received_as now) (written_by r (reporter_step r e))) @ store_events (reporter_step r e) es"
| "store_events r (Store_Does e # es) = e # store_events r es"

definition system_step :: "reporter \<times> topology_store \<Rightarrow> system_event \<Rightarrow> reporter \<times> topology_store" where
  "system_step rs e =
     (case e of
        Reporter_Does e now \<Rightarrow>
          (reporter_step (fst rs) e,
           fst (run_updates store_step (snd rs)
             (concat (map (received_as now) (written_by (fst rs) (reporter_step (fst rs) e))))))
      | Store_Does e \<Rightarrow> (fst rs, fst (store_step (snd rs) e)))"

lemma system_run: "snd (foldl system_step (r, s) es) = fst (run_updates store_step s (store_events r es))"
proof (induction r es arbitrary: s rule: store_events.induct)
  case (2 r e now es)
  then show ?case by (simp add: system_step_def run_updates_append)
qed (simp_all add: system_step_def Let_def case_prod_beta)

text \<open>
  A time without trouble: the reporter's timer \<open>k\<close> ticks, its application reports, its streams
  live; the calls of others are about other services.
\<close>

fun untroubled :: "nat \<Rightarrow> string \<Rightarrow> system_event \<Rightarrow> bool" where
  "untroubled k i (Reporter_Does e now) =
     (case e of Interval_Tick t throws \<Rightarrow> t = k \<and> \<not> throws | Do_Report _ _ throws \<Rightarrow> \<not> throws
      | Do_Set_Health _ \<Rightarrow> True | Do_Set_Metrics _ \<Rightarrow> True | _ \<Rightarrow> False)"
| "untroubled k i (Store_Does e) =
     (case e of Ev_Register _ j _ \<Rightarrow> j \<noteq> i | Ev_Unregister j \<Rightarrow> j \<noteq> i
      | Ev_Heartbeat request _ \<Rightarrow> hb_serviceId request \<noteq> i | _ \<Rightarrow> True)"

text \<open>No sweep comes later than \<open>timeout\<close> after the last tick.\<close>

fun ticks_in_time :: "int \<Rightarrow> int \<Rightarrow> system_event list \<Rightarrow> bool" where
  "ticks_in_time timeout t [] = True"
| "ticks_in_time timeout t (Reporter_Does (Interval_Tick k throws) now # es) = ticks_in_time timeout now es"
| "ticks_in_time timeout t (Store_Does (Ev_Sweep now) # es) = (now - t \<le> timeout \<and> ticks_in_time timeout t es)"
| "ticks_in_time timeout t (e # es) = ticks_in_time timeout t es"

definition online :: "nat \<Rightarrow> string \<Rightarrow> reporter \<Rightarrow> bool" where
  "online k i r \<longleftrightarrow> rp_serviceId r = Some i \<and> i \<noteq> [] \<and> rp_heartbeatStream r \<noteq> None \<and> k \<in> set (rp_intervals r)"

text \<open>One event of a reporter that is online: what it writes.\<close>

lemma online_tick:
  assumes "online k i r"
  shows "online k i (reporter_step r (Interval_Tick k False)) \<and>
    (\<exists>h q. written_by r (reporter_step r (Interval_Tick k False)) = [Sent_Heartbeat h q] \<and> hb_serviceId q = i)"
  using assms by (auto simp: online_def sendHeartbeat_def truthy_def emit_def written_by_def Let_def)

lemma online_other:
  assumes "online k i r" "untroubled k i (Reporter_Does e now)" "\<forall>t throws. e \<noteq> Interval_Tick t throws"
  shows "online k i (reporter_step r e) \<and>
    (\<exists>qs. concat (map (received_as now) (written_by r (reporter_step r e))) = map (\<lambda>q. Ev_Activity q now) qs)"
proof (cases "\<exists>report t. e = Do_Report report t False")
  case True
  then obtain report t where e: "e = Do_Report report t False" by blast
  have "online k i (reporter_step r e)"
    using assms(1) by (auto simp: e online_def reportActivity_def emit_def truthy_def split: option.splits)
  moreover have "written_by r (reporter_step r e) = [] \<or> (\<exists>a q. written_by r (reporter_step r e) = [Sent_Activity a q])"
    using assms(1) by (auto simp: e online_def reportActivity_def emit_def truthy_def written_by_def split: option.splits)
  ultimately show ?thesis by (auto intro: exI [of _ "[]"] exI [of _ "[q]" for q])
next
  case False
  with assms have "(\<exists>x. e = Do_Set_Health x) \<or> (\<exists>x. e = Do_Set_Metrics x)" by (auto split: reporter_event.splits)
  with assms(1) have "online k i (reporter_step r e) \<and> written_by r (reporter_step r e) = []"
    by (auto simp: online_def setHealth_def setMetrics_def written_by_def)
  then show ?thesis by (auto intro: exI [of _ "[]"])
qed

lemma keeps_beating_activities:
  "keeps_beating i timeout t (map (\<lambda>q. Ev_Activity q now) qs @ es) = keeps_beating i timeout t es"
  by (induction qs) simp_all

lemma online_run:
  "online k i r \<Longrightarrow> \<forall>e \<in> set es. untroubled k i e \<Longrightarrow>
   (keeps_beating i timeout t (store_events r es) \<longleftrightarrow> ticks_in_time timeout t es) \<and>
   (\<forall>e \<in> set (store_events r es). registers e \<noteq> Some i) \<and> online k i (fst (foldl system_step (r, s) es))"
proof (induction es arbitrary: r s t)
  case (Cons e es)
  show ?case
  proof (cases e)
    case (Reporter_Does x now)
    show ?thesis
    proof (cases "\<exists>j throws. x = Interval_Tick j throws")
      case True
      with Cons.prems(2) Reporter_Does have x: "x = Interval_Tick k False" by auto
      obtain h q where w: "written_by r (reporter_step r x) = [Sent_Heartbeat h q]" "hb_serviceId q = i"
        "online k i (reporter_step r x)"
        using online_tick [OF Cons.prems(1)] x by blast
      note ih = Cons.IH [OF w(3)]
      show ?thesis unfolding Reporter_Does
        using Cons.prems(2) w ih by (simp add: x system_step_def)
    next
      case False
      obtain qs where w: "concat (map (received_as now) (written_by r (reporter_step r x))) = map (\<lambda>q. Ev_Activity q now) qs"
        "online k i (reporter_step r x)"
        using online_other [OF Cons.prems(1), of x now] Cons.prems(2) Reporter_Does False by auto
      have n: "ticks_in_time timeout t (Reporter_Does x now # es) = ticks_in_time timeout t es"
        using False by (cases x) auto
      note ih = Cons.IH [OF w(2)]
      show ?thesis unfolding Reporter_Does n
        using Cons.prems(2) w ih by (auto simp: system_step_def keeps_beating_activities)
    qed
  next
    case (Store_Does x)
    note ih = Cons.IH [OF Cons.prems(1)]
    show ?thesis unfolding Store_Does
      using Cons.prems(2) Store_Does ih by (cases x) (auto simp: system_step_def)
  qed
qed simp

subsection \<open>From the registration on\<close>

lemma registered_reporter:
  assumes "sh_serviceId handle = i" "i \<noteq> []"
  shows "online 2 i (reporter_step (start (new_reporter o1)) (Register_Reply 0 (Response (Some handle)) False))
    \<and> (\<exists>h q rest. written_by (start (new_reporter o1)) (reporter_step (start (new_reporter o1)) (Register_Reply 0 (Response (Some handle)) False))
        = [Opened_Heartbeat h, Sent_Heartbeat h q] @ rest \<and> hb_serviceId q = i \<and> (\<forall>now. concat (map (received_as now) rest) = []))"
  using assms
  by (auto simp: online_def start_def new_reporter_def triggerReconnect_def connectWithRetry_def register_def register_replied_def
      performRegister_def startHeartbeat_def sendHeartbeat_def startActivityStream_def emit_def truthy_def loop_resumes_def
      register_settles_def loop_returns_def written_by_def Let_def)

text \<open>C4.
  A service that was started and registered stays in the topology exactly as long as its heartbeat
  timer ticks in time: while its streams live and nobody else registers, unregisters or beats
  under its id, it is in the store if and only if no sweep came later than interval times
  multiplier after the last tick, whatever the application reports and other services do; and the
  reporter stays online throughout.\<close>

theorem reported_service_stays_while_it_ticks:
  assumes "registered = registerService (store_after options t before) (register_request_of o1) i now" "i \<noteq> []"
    and "\<forall>e \<in> set es. untroubled 2 i e"
    and "final = foldl system_step (start (new_reporter o1), fst registered)
      (Reporter_Does (Register_Reply 0 (Response (Some (fst (snd registered)))) False) later # es)"
  shows "(i \<in> set (map_keys (services (snd final))) \<longleftrightarrow>
      ticks_in_time (nullish (so_heartbeatIntervalMs options) 5000 * nullish (so_timeoutMultiplier options) 3) later es)
    \<and> rp_serviceId (fst final) = Some i"
proof -
  let ?s = "store_after options t before" and ?r = "start (new_reporter o1)"
  let ?reply = "Register_Reply 0 (Response (Some (fst (snd registered)))) False"
  let ?D = "nullish (so_heartbeatIntervalMs options) 5000 * nullish (so_timeoutMultiplier options) 3"
  have h: "sh_serviceId (fst (snd registered)) = i" by (simp add: assms(1) registerService_def Let_def)
  obtain hs q rest where w: "online 2 i (reporter_step ?r ?reply)" "hb_serviceId q = i"
    "written_by ?r (reporter_step ?r ?reply) = [Opened_Heartbeat hs, Sent_Heartbeat hs q] @ rest"
    "concat (map (received_as later) rest) = []"
    using registered_reporter [OF h assms(2), of o1] by metis
  have ev: "store_events ?r (Reporter_Does ?reply later # es) = Ev_Heartbeat q later # store_events (reporter_step ?r ?reply) es"
    using w(3,4) by simp
  have inv: "store_inv (fst registered)" unfolding assms(1) by (rule register_inv [OF store_after_inv])
  obtain rec where r: "map_get (services (fst registered)) i = Some rec"
    "beat_data rec = (heartbeatIntervalMs ?s * timeoutMultiplier ?s, now)"
    by (simp add: assms(1) registerService_def Let_def update_conv' beat_data_def)
  have "heartbeatIntervalMs ?s = nullish (so_heartbeatIntervalMs options) 5000"
    "timeoutMultiplier ?s = nullish (so_timeoutMultiplier options) 3"
    using store_after_options [of options t before] by (simp_all add: same_options_def new_store_def Let_def)
  then have d: "beat_data rec = (?D, now)" using r(2) by simp
  note run = online_run [OF w(1) assms(3)]
  have reg: "\<forall>e \<in> set (store_events ?r (Reporter_Does ?reply later # es)). registers e \<noteq> Some i"
    unfolding ev using run by simp
  have "i \<in> set (map_keys (services (snd final))) \<longleftrightarrow>
      keeps_beating i ?D now (store_events ?r (Reporter_Does ?reply later # es))"
    using run_beating [OF inv r(1) reg] d unfolding assms(4) system_run by (simp add: map_of_None_iff)
  also have "\<dots> \<longleftrightarrow> ticks_in_time ?D later es" unfolding ev using run w(2) by simp
  finally have a: "i \<in> set (map_keys (services (snd final))) \<longleftrightarrow> ticks_in_time ?D later es" .
  have "final = foldl system_step (system_step (?r, fst registered) (Reporter_Does ?reply later)) es" by (simp add: assms(4))
  then have "online 2 i (fst final)" using run by (simp add: system_step_def)
  with a show ?thesis by (simp add: online_def)
qed

text \<open>A service with a thousand milliseconds between its heartbeats, three of which may be missed.\<close>

definition sample_ticks :: "system_event list" where
  "sample_ticks = [Reporter_Does (Interval_Tick 2 False) 1020, Store_Does (Ev_Sweep 4020)]"

theorem reported_service_stays_while_it_ticks_witness:
  "''a'' \<in> set (map_keys (services (snd (foldl system_step
     (start (new_reporter Reporter_Properties.sample_options),
      fst (registerService (store_after Topology_Properties.sample_options 0 [])
        (register_request_of Reporter_Properties.sample_options) ''a'' 10))
     (Reporter_Does (Register_Reply 0 (Response (Some (fst (snd (registerService
        (store_after Topology_Properties.sample_options 0 []) (register_request_of Reporter_Properties.sample_options) ''a'' 10))))) False) 20
      # sample_ticks)))))"
  using conjunct1 [OF reported_service_stays_while_it_ticks [OF refl _ _ refl, where i = "''a''" and es = sample_ticks
      and options = Topology_Properties.sample_options and t = 0 and before = "[]"
      and ?o1.0 = Reporter_Properties.sample_options and now = 10 and later = 20]]
  by (simp add: sample_ticks_def Topology_Properties.sample_options_def)

end
