(* ===== verification/Pipeline_System.thy ===== *)
theory Pipeline_System
  imports Pipeline_Properties Ingest
begin

text \<open>
  The whole pipeline as one system: the orchestrator and the five services, joined by streams that
  deliver in order, each part moving when it can.  The orchestrator and the handlers of the services
  are those of \<open>Orchestrator\<close>, \<open>Pipeline_Services\<close> and \<open>Ingest\<close>; what is added is who has read and
  written how much, and that a message is serialised when it is written: the \<open>int64\<close> fields of
  \<open>pipeline.proto\<close> are decimal texts in the program (\<open>forceLong=string\<close> in \<open>buf.gen.yaml\<close>), and a
  text that is not a 64-bit integer makes the serialisation throw, which fails the stream.
\<close>

datatype stage = At_Ingest | At_Parse | At_Rules | At_Aggregate | At_Sink

text \<open>The libraries and the work on work items, which the services take from elsewhere.\<close>

record services =
  sv_lib :: js_library
  sv_parse :: "json \<Rightarrow> json option"
  sv_rules :: "json \<Rightarrow> json option"
  sv_aggregate :: "string \<Rightarrow> work_result option"


subsection \<open>The wire\<close>

text \<open>
  The texts that the serialisation takes as an \<open>int64\<close>, of those that printing a number gives: a
  decimal numeral in range.  \<open>1e+21\<close>, \<open>NaN\<close> and a numeral from \<open>2^63\<close> on are refused.\<close>

definition int64_text :: "string \<Rightarrow> bool" where
  "int64_text s =
     (let negative = (take 1 s = ''-''); ds = (if negative then tl s else s)
      in ds \<noteq> [] \<and> list_all is_digit ds \<and> digits_value ds < (if negative then 9223372036854775809 else 9223372036854775808))"

text \<open>A printed integer is an \<open>int64\<close> text exactly when it is one.\<close>

lemma int64_text_of_int: "int64_text (string_of_int i) \<longleftrightarrow> - (2 ^ 63) \<le> i \<and> i < 2 ^ 63"
proof -
  have d: "list_all is_digit (string_of_nat n)" for n using string_of_nat_digits by (simp add: list_all_iff)
  have h: "take 1 (string_of_nat n) \<noteq> ''-''" for n
    using string_of_nat_head [of n] is_digit_facts by (cases "string_of_nat n") auto
  show ?thesis
  proof (cases "i < 0")
    case True
    then show ?thesis by (simp add: int64_text_def string_of_int_def d digits_value_string_of_nat nat_less_iff) linarith
  next
    case False
    then have s: "string_of_int i = string_of_nat (nat i)" by (simp add: string_of_int_def)
    show ?thesis unfolding s int64_text_def using h [of "nat i"] False
      by (simp add: Let_def d digits_value_string_of_nat nat_less_iff)
  qed
qed

definition parsed_fits :: "parsed_event \<Rightarrow> bool" where
  "parsed_fits p \<longleftrightarrow> int64_text (pv_value p) \<and> int64_text (pv_timestamp p) \<and> int64_text (pv_sequence p)"

definition result_fits :: "aggregate_result \<Rightarrow> bool" where
  "result_fits r \<longleftrightarrow> int64_text (ag_count r) \<and> int64_text (ag_sum r)"

text \<open>
  An enriched event holds a parsed event that has come over the wire already, unless it is a work item,
  of which only the user is replaced.\<close>

fun message_fits :: "orchestrator_event \<Rightarrow> bool" where
  "message_fits (Ingest_Data (Some e) now) = int64_text (ev_sequence e)"
| "message_fits (Parse_Data (Some p)) = parsed_fits p"
| "message_fits (Parse_Batch ps) = list_all parsed_fits ps"
| "message_fits (Aggregate_Data (Some r)) = result_fits r"
| "message_fits (Aggregate_Batch rs) = list_all result_fits rs"
| "message_fits e = True"

text \<open>
  What the client of a stream gets of the messages that its server writes: the first one that cannot be
  serialised ends the call with an error, and nothing follows.\<close>

fun serialised :: "orchestrator_event list \<Rightarrow> orchestrator_event list" where
  "serialised [] = []"
| "serialised (m # ms) = (if message_fits m then m # serialised ms else [Stream_Failed])"




subsection \<open>The parts\<close>


subsection \<open>The moves\<close>

text \<open>The clock is read when a message arrives.\<close>

definition stamped :: "int \<Rightarrow> orchestrator_event \<Rightarrow> orchestrator_event" where
  "stamped now e =
     (case e of Ingest_Data event _ \<Rightarrow> Ingest_Data event now | Sink_Reply reply _ \<Rightarrow> Sink_Reply reply now | _ \<Rightarrow> e)"





text \<open>
  What the client gets of what the handlers of a stream write for one message, and at the end of their
  input.  The orchestrator leaves when a stream fails, so nothing behind a failure is ever delivered.\<close>

definition parse_messages :: "services \<Rightarrow> int \<Rightarrow> raw_event outgoing \<Rightarrow> orchestrator_event list" where
  "parse_messages sv now m = serialised
     (case m of
        Batch es n \<Rightarrow> (case parseEventsBatch (sv_lib sv) (sv_parse sv) now es of None \<Rightarrow> [] | Some ps \<Rightarrow> [Parse_Batch ps])
      | Single e \<Rightarrow> map (\<lambda>p. Parse_Data (Some p)) (parseEvents (sv_lib sv) (sv_parse sv) now e))"











subsection \<open>A stream between two parts\<close>







subsection \<open>What a delivery changes\<close>


fun sent_by :: "stage \<Rightarrow> orchestrator_event \<Rightarrow> bool" where
  "sent_by At_Ingest (Ingest_Data e now) = True"
| "sent_by At_Ingest Ingest_End = True"
| "sent_by At_Parse (Parse_Data e) = True"
| "sent_by At_Parse (Parse_Batch es) = True"
| "sent_by At_Parse Parse_End = True"
| "sent_by At_Rules (Rules_Data e) = True"
| "sent_by At_Rules (Rules_Batch es) = True"
| "sent_by At_Rules Rules_End = True"
| "sent_by At_Aggregate (Aggregate_Data r) = True"
| "sent_by At_Aggregate (Aggregate_Batch rs) = True"
| "sent_by At_Aggregate Aggregate_End = True"
| "sent_by At_Sink (Sink_Reply reply now) = (\<exists>w. reply = Inr w)"
| "sent_by st e = False"








text \<open>In batching mode every message is a batch, otherwise none is.\<close>

definition shaped :: "bool \<Rightarrow> 'e outgoing \<Rightarrow> bool" where
  "shaped b m = (case m of Batch es n \<Rightarrow> b | Single e \<Rightarrow> \<not> b)"

definition extends :: "bool \<Rightarrow> 'e outgoing list \<Rightarrow> 'e outgoing list \<Rightarrow> bool" where
  "extends b ms ns \<longleftrightarrow> (\<exists>m. ns = ms @ m \<and> length m \<le> 1 \<and> list_all (shaped b) m)"

lemma extends_none [simp]: "extends b ms ms"
  by (simp add: extends_def)


fun_cases sent_by_sinkE: "sent_by At_Sink e"






subsection \<open>What holds at every moment\<close>

















lemma stamped_facts [simp]:
  "raw_in (stamped now e) = raw_in e" "parsed_in b (stamped now e) = parsed_in b e"
  "enriched_in b (stamped now e) = enriched_in b e" "results_in b (stamped now e) = results_in b e"
  "sent_by st (stamped now e) = sent_by st e" "stamped now e = Ingest_End \<longleftrightarrow> e = Ingest_End"
  "stamped now e = Parse_End \<longleftrightarrow> e = Parse_End" "stamped now e = Rules_End \<longleftrightarrow> e = Rules_End"
  "stamped now e = Aggregate_End \<longleftrightarrow> e = Aggregate_End"
  by (cases e; cases st; simp add: stamped_def; (metis option.exhaust raw_in.simps)?)+

subsection \<open>Deliveries\<close>













subsection \<open>Moves of the services\<close>































subsection \<open>Ends of streams\<close>










subsection \<open>The results\<close>






subsection \<open>How many moves there are\<close>






definition result_count :: "aggregation \<Rightarrow> nat" where
  "result_count a = length (an_stats a) + length (an_workItems a)"

lemma result_count_new [simp]: "result_count new_aggregation = 0"
  by (simp add: result_count_def new_aggregation_def)
















subsection \<open>The promise\<close>



text \<open>
  An event with a number that is not an \<open>int64\<close>, such as the value 9223372036854775808: the parse
  service's answer is a failed stream, alone or in a batch, and that ends the orchestrator with code 1.\<close>

lemma large_value_fails_the_run:
  assumes "parse_one (sv_lib sv) (sv_parse sv) now e = Some p" "\<not> parsed_fits p"
  shows "parse_messages sv now (Single (Some e)) = [Stream_Failed]"
    and "e \<in> set es \<Longrightarrow> parse_messages sv now (Batch es k) = [Stream_Failed]"
    and "oc_exit oc = None \<Longrightarrow> oc_exit (orchestrator_step oc Stream_Failed) = Some 1"
    and "int64_text (string_of_int i) \<Longrightarrow> i \<noteq> 9223372036854775808"
  subgoal using assms by (simp add: parse_messages_def parseEvents_def)
  subgoal
  proof -
    assume e: "e \<in> set es"
    let ?ps = "List.map_filter (parse_one (sv_lib sv) (sv_parse sv) now) es"
    have p: "p \<in> set ?ps" using assms(1) e by (force simp: map_filter_def)
    then have "\<not> list_all parsed_fits ?ps" using assms(2) by (auto simp: list_all_iff)
    moreover have "parseEventsBatch (sv_lib sv) (sv_parse sv) now es = Some ?ps"
      using p by (cases es) (auto simp: parseEventsBatch_def Let_def)
    ultimately show ?thesis by (simp add: parse_messages_def)
  qed
  subgoal by (simp add: orchestrator_step_def stream_failed_def)
  subgoal unfolding int64_text_of_int by simp
  done














end
