(* ===== verification/Server_Lifecycle.thy ===== *)
theory Server_Lifecycle
  imports Broker Pipeline_Services
begin

text \<open>
  How the servers start and stop: the gRPC server of the topology service
  (\<open>apps/topology/src/topology-service.ts\<close>), whose shutdown races against a timer; the HTTP servers of
  the two proxies (\<open>topology-proxy.ts\<close>, \<open>topology-reporter-proxy.ts\<close>); the broker's process
  (\<open>packages/broker/src/broker.ts\<close>, \<open>cli.ts\<close>); and the programs of the pipeline's services.  What the
  libraries report (a port is bound, a server has closed) comes as events or outcomes.
\<close>

subsection \<open>The topology service\<close>

text \<open>One call of \<open>stop\<close>: its flag, its timer, and the promise it returns.\<close>

record stop_call =
  sp_settled :: bool
  sp_timer :: bool
  sp_result :: "unit promise"

record topology_server =
  tv_sweepTimer :: bool
  tv_flushTimer :: bool
  tv_start :: "unit promise"
  tv_stops :: "stop_call list"
  tv_forced :: nat

datatype server_event =
    Bind_Done "string option"
  | Stop_Called
  | Shutdown_Done nat "string option"
  | Shutdown_Timeout nat

text \<open>The intervals are set before the address is bound.\<close>

definition new_topology_server :: topology_server where
  "new_topology_server =
     \<lparr>tv_sweepTimer = True, tv_flushTimer = True, tv_start = Pending, tv_stops = [], tv_forced = 0\<rparr>"

definition promise_of :: "string option \<Rightarrow> unit promise" where
  "promise_of error = (case error of Some e \<Rightarrow> Rejected e | None \<Rightarrow> Resolved ())"

definition bind_done :: "string option \<Rightarrow> topology_server \<Rightarrow> topology_server" where
  "bind_done error s = (if tv_start s = Pending then s\<lparr>tv_start := promise_of error\<rparr> else s)"

text \<open>There is a handle to stop only once the service has started.\<close>

definition stop_called :: "topology_server \<Rightarrow> topology_server" where
  "stop_called s =
     (if tv_start s = Resolved ()
      then s\<lparr>tv_sweepTimer := False, tv_flushTimer := False,
             tv_stops := tv_stops s @ [\<lparr>sp_settled = False, sp_timer = True, sp_result = Pending\<rparr>]\<rparr>
      else s)"

definition shutdown_done :: "nat \<Rightarrow> string option \<Rightarrow> topology_server \<Rightarrow> topology_server" where
  "shutdown_done i error s =
     (if i < length (tv_stops s) \<and> \<not> sp_settled (tv_stops s ! i)
      then s\<lparr>tv_stops := (tv_stops s)[i := \<lparr>sp_settled = True, sp_timer = False, sp_result = promise_of error\<rparr>],
             tv_forced := tv_forced s + (if error = None then 0 else 1)\<rparr>
      else s)"

definition shutdown_timeout :: "nat \<Rightarrow> topology_server \<Rightarrow> topology_server" where
  "shutdown_timeout i s =
     (if i < length (tv_stops s) \<and> sp_timer (tv_stops s ! i)
      then (let call = (tv_stops s ! i)\<lparr>sp_timer := False\<rparr>
            in if sp_settled call then s\<lparr>tv_stops := (tv_stops s)[i := call]\<rparr>
               else s\<lparr>tv_stops := (tv_stops s)[i := call\<lparr>sp_settled := True, sp_result := Resolved ()\<rparr>],
                      tv_forced := tv_forced s + 1\<rparr>)
      else s)"

fun server_step :: "topology_server \<Rightarrow> server_event \<Rightarrow> topology_server" where
  "server_step s (Bind_Done error) = bind_done error s"
| "server_step s Stop_Called = stop_called s"
| "server_step s (Shutdown_Done i error) = shutdown_done i error s"
| "server_step s (Shutdown_Timeout i) = shutdown_timeout i s"

lemmas server_defs = bind_done_def stop_called_def shutdown_done_def shutdown_timeout_def Let_def

text \<open>A call waits exactly as long as its timer is armed.\<close>

definition call_ok :: "stop_call \<Rightarrow> bool" where
  "call_ok c \<longleftrightarrow> sp_settled c = (sp_result c \<noteq> Pending) \<and> sp_timer c = (\<not> sp_settled c)"

definition server_ok :: "topology_server \<Rightarrow> bool" where
  "server_ok s \<longleftrightarrow> list_all call_ok (tv_stops s) \<and>
     tv_forced s \<le> length (filter sp_settled (tv_stops s)) \<and>
     (tv_stops s \<noteq> [] \<longrightarrow> tv_start s = Resolved ()) \<and>
     (tv_sweepTimer s = (tv_stops s = [])) \<and> (tv_flushTimer s = (tv_stops s = []))"

lemma promise_of_settled [simp]: "promise_of error \<noteq> Pending"
  by (simp add: promise_of_def split: option.split)

lemma filter_update:
  "i < length xs \<Longrightarrow> \<not> P (xs ! i) \<Longrightarrow> P x \<Longrightarrow> length (filter P (xs[i := x])) = Suc (length (filter P xs))"
proof (induction xs arbitrary: i)
  case (Cons a xs)
  then show ?case by (cases i) simp_all
qed simp

lemma server_ok_step: "server_ok s \<Longrightarrow> server_ok (server_step s e)"
proof (cases e)
  case (Shutdown_Done i error)
  assume ok: "server_ok s"
  let ?c = "\<lparr>sp_settled = True, sp_timer = False, sp_result = promise_of error\<rparr>"
  have "call_ok ?c" by (simp add: call_ok_def)
  with ok Shutdown_Done filter_update [of i "tv_stops s" sp_settled ?c] show ?thesis
    by (auto simp: server_ok_def server_defs list_all_update)
next
  case (Shutdown_Timeout i)
  assume ok: "server_ok s"
  let ?c = "(tv_stops s ! i)\<lparr>sp_timer := False, sp_settled := True, sp_result := Resolved ()\<rparr>"
  have c: "call_ok ?c" by (simp add: call_ok_def)
  have t: "i < length (tv_stops s) \<Longrightarrow> sp_timer (tv_stops s ! i) = (\<not> sp_settled (tv_stops s ! i))"
    using ok by (auto simp: server_ok_def list_all_length call_ok_def)
  with ok c Shutdown_Timeout filter_update [of i "tv_stops s" sp_settled ?c] show ?thesis
    by (auto simp: server_ok_def server_defs list_all_update)
qed (auto simp: server_ok_def server_defs call_ok_def)

interpretation topology_server: reactive server_step server_ok
  by unfold_locales (rule server_ok_step)

text \<open>A promise that is settled stays what it is.\<close>

definition settled_stay :: "topology_server \<Rightarrow> topology_server \<Rightarrow> bool" where
  "settled_stay s t \<longleftrightarrow> length (tv_stops s) \<le> length (tv_stops t) \<and>
     (\<forall>i < length (tv_stops s). sp_settled (tv_stops s ! i) \<longrightarrow>
        sp_settled (tv_stops t ! i) \<and> sp_result (tv_stops t ! i) = sp_result (tv_stops s ! i))"

lemma settled_stay_trans: "settled_stay s t \<Longrightarrow> settled_stay t u \<Longrightarrow> settled_stay s u"
  unfolding settled_stay_def by (metis le_trans less_le_trans)

interpretation settled: reactive_rel server_step settled_stay
proof unfold_locales
  show "settled_stay s s" for s by (simp add: settled_stay_def)
  show "settled_stay s t \<Longrightarrow> settled_stay t u \<Longrightarrow> settled_stay s u" for s t u by (rule settled_stay_trans)
  show "settled_stay s (server_step s e)" for s e
    by (cases e) (auto simp: settled_stay_def server_defs nth_append nth_list_update)
qed

text \<open>C17.
  Every call of the topology service's \<open>stop\<close> comes to an end, exactly once: it waits as long as its
  timer is armed; what it has answered never changes; if the timer fires while it waits, the server is
  forced down and the call succeeds, and a later answer of the server has no effect.  Once it has been
  called, both interval timers are off, and the server is forced down at most once per call.\<close>

theorem stop_settles_exactly_once:
  assumes "s = foldl server_step new_topology_server es" "i < length (tv_stops s)"
  shows "(sp_result (tv_stops s ! i) = Pending \<longleftrightarrow> sp_timer (tv_stops s ! i))
    \<and> (sp_result (tv_stops s ! i) \<noteq> Pending \<longrightarrow>
         sp_result (tv_stops (foldl server_step s fs) ! i) = sp_result (tv_stops s ! i))
    \<and> (sp_result (tv_stops s ! i) = Pending \<longrightarrow>
         sp_result (tv_stops (server_step s (Shutdown_Timeout i)) ! i) = Resolved () \<and>
         tv_forced (server_step s (Shutdown_Timeout i)) = tv_forced s + 1 \<and>
         server_step (server_step s (Shutdown_Timeout i)) (Shutdown_Done i error) = server_step s (Shutdown_Timeout i))
    \<and> \<not> tv_sweepTimer s \<and> \<not> tv_flushTimer s \<and> tv_forced s \<le> length (tv_stops s)"
proof -
  have "server_ok new_topology_server" by (simp add: server_ok_def new_topology_server_def)
  then have ok: "server_ok s" unfolding assms(1) by (rule topology_server.inv_run)
  then have c: "call_ok (tv_stops s ! i)" using assms(2) by (simp add: server_ok_def list_all_length)
  have "settled_stay s (foldl server_step s fs)" by (rule settled.rel_run)
  then have stay: "sp_result (tv_stops s ! i) \<noteq> Pending \<Longrightarrow>
      sp_result (tv_stops (foldl server_step s fs) ! i) = sp_result (tv_stops s ! i)"
    using c assms(2) by (simp add: settled_stay_def call_ok_def)
  have "tv_forced s \<le> length (tv_stops s)"
    using ok unfolding server_ok_def by (meson le_trans length_filter_le)
  moreover have "\<not> tv_sweepTimer s" "\<not> tv_flushTimer s" using ok assms(2) by (auto simp: server_ok_def)
  moreover have "sp_result (tv_stops s ! i) = Pending \<Longrightarrow>
      server_step s (Shutdown_Timeout i) = s\<lparr>tv_stops := (tv_stops s)[i := (tv_stops s ! i)\<lparr>sp_timer := False, sp_settled := True,
        sp_result := Resolved ()\<rparr>], tv_forced := tv_forced s + 1\<rparr>"
    using c assms(2) by (simp add: shutdown_timeout_def call_ok_def Let_def)
  ultimately show ?thesis using c stay assms(2) by (auto simp: call_ok_def shutdown_done_def)
qed

theorem stop_settles_exactly_once_witness:
  "sp_result (tv_stops (foldl server_step (foldl server_step new_topology_server [Bind_Done None, Stop_Called, Shutdown_Timeout 0])
     [Shutdown_Done 0 (Some ''late''), Stop_Called]) ! 0) = Resolved ()"
  using stop_settles_exactly_once [OF refl, of 0 "[Bind_Done None, Stop_Called, Shutdown_Timeout 0]"
      "[Shutdown_Done 0 (Some ''late''), Stop_Called]"]
  by (simp add: new_topology_server_def server_defs promise_of_def)

subsection \<open>The HTTP servers of the proxies\<close>

text \<open>
  Starting waits for the first of two events, \<open>listening\<close> or \<open>error\<close>, and takes away the handler of
  the other.  An \<open>error\<close> without a handler ends the process.  A server closes when its connections
  have ended.
\<close>

record http_server =
  hp_onError :: bool
  hp_onListening :: bool
  hp_start :: "unit promise"
  hp_stops :: "unit promise list"
  hp_crashed :: bool

datatype http_event = Emits_Listening | Emits_Error string | Stops | Close_Done nat "string option"

definition new_http_server :: http_server where
  "new_http_server = \<lparr>hp_onError = True, hp_onListening = True, hp_start = Pending, hp_stops = [], hp_crashed = False\<rparr>"

definition onListening :: "http_server \<Rightarrow> http_server" where
  "onListening s =
     (if hp_onListening s
      then s\<lparr>hp_onListening := False, hp_onError := False, hp_start := (if hp_start s = Pending then Resolved () else hp_start s)\<rparr>
      else s)"

definition onError :: "string \<Rightarrow> http_server \<Rightarrow> http_server" where
  "onError e s =
     (if hp_onError s
      then s\<lparr>hp_onError := False, hp_onListening := False, hp_start := (if hp_start s = Pending then Rejected e else hp_start s)\<rparr>
      else s\<lparr>hp_crashed := True\<rparr>)"

definition close_called :: "http_server \<Rightarrow> http_server" where
  "close_called s = (if hp_start s = Resolved () then s\<lparr>hp_stops := hp_stops s @ [Pending]\<rparr> else s)"

definition close_done :: "nat \<Rightarrow> string option \<Rightarrow> http_server \<Rightarrow> http_server" where
  "close_done i error s =
     (if i < length (hp_stops s) \<and> hp_stops s ! i = Pending then s\<lparr>hp_stops := (hp_stops s)[i := promise_of error]\<rparr> else s)"

fun http_step :: "http_server \<Rightarrow> http_event \<Rightarrow> http_server" where
  "http_step s Emits_Listening = (if hp_crashed s then s else onListening s)"
| "http_step s (Emits_Error e) = (if hp_crashed s then s else onError e s)"
| "http_step s Stops = (if hp_crashed s then s else close_called s)"
| "http_step s (Close_Done i error) = (if hp_crashed s then s else close_done i error s)"

lemmas http_defs = onListening_def onError_def close_called_def close_done_def

definition http_ok :: "http_server \<Rightarrow> bool" where
  "http_ok s \<longleftrightarrow> hp_onError s = (hp_start s = Pending) \<and> hp_onListening s = (hp_start s = Pending) \<and>
     (hp_crashed s \<longrightarrow> hp_start s \<noteq> Pending) \<and> (hp_stops s \<noteq> [] \<longrightarrow> hp_start s = Resolved ())"

interpretation http: reactive http_step http_ok
proof unfold_locales
  show "http_ok s \<Longrightarrow> http_ok (http_step s e)" for s e
    by (cases e) (auto simp: http_ok_def http_defs)
qed

interpretation http_started: reactive_rel http_step "\<lambda>s t. hp_start s \<noteq> Pending \<longrightarrow> hp_start t = hp_start s"
proof unfold_locales
  show "hp_start s \<noteq> Pending \<longrightarrow> hp_start (http_step s e) = hp_start s" for s e
    by (cases e) (auto simp: http_defs)
qed auto

text \<open>
  Starting an HTTP server is answered once, by the first of the events: \<open>listening\<close> lets it succeed,
  \<open>error\<close> fail with that error; both handlers are gone afterwards, so a later error ends the process.\<close>

theorem http_start_is_answered_once:
  assumes "s = foldl http_step new_http_server es"
  shows "(hp_start s = Pending \<longrightarrow> \<not> hp_crashed s \<and> hp_start (http_step s Emits_Listening) = Resolved () \<and>
           hp_start (http_step s (Emits_Error e)) = Rejected e)
    \<and> (hp_start s \<noteq> Pending \<longrightarrow> hp_start (foldl http_step s fs) = hp_start s \<and> hp_crashed (http_step s (Emits_Error e)))
    \<and> (hp_stops s \<noteq> [] \<longrightarrow> hp_start s = Resolved ())"
proof -
  have "http_ok new_http_server" by (simp add: http_ok_def new_http_server_def)
  then have ok: "http_ok s" unfolding assms by (rule http.inv_run)
  then show ?thesis using http_started.rel_run [of s fs] by (auto simp: http_ok_def http_defs)
qed

theorem http_start_is_answered_once_witness:
  "hp_start (foldl http_step (foldl http_step new_http_server [Emits_Error ''EADDRINUSE'']) [Emits_Listening]) = Rejected ''EADDRINUSE''"
  using http_start_is_answered_once [OF refl, of "[Emits_Error ''EADDRINUSE'']" "[]" "[Emits_Listening]"]
  by (simp add: new_http_server_def http_defs)

subsection \<open>The broker's process\<close>

text \<open>
  Once the server runs, SIGTERM and SIGINT have a handler each, which prints a line and asks gRPC to shut
  the server down; the process leaves in the callback of that (\<open>Broker_Closed\<close>).  Any other signal that
  ends a process ends this one, and so do the two before the server runs; a process ended by a signal has
  the code 128 and its number.  When gRPC calls the callback is its own affair: it waits for every open
  call, and the streams of \<open>notifyServiceChanges\<close> are calls that only their clients end.
\<close>

datatype ending_signal = Sig_Term | Sig_Int | Sig_Other nat

fun signal_number :: "ending_signal \<Rightarrow> nat" where
  "signal_number Sig_Term = 15"
| "signal_number Sig_Int = 2"
| "signal_number (Sig_Other n) = n"

fun handled_signal :: "ending_signal \<Rightarrow> string option" where
  "handled_signal Sig_Term = Some ''SIGTERM''"
| "handled_signal Sig_Int = Some ''SIGINT''"
| "handled_signal (Sig_Other n) = None"

record broker_process =
  bp_started :: "unit promise"
  bp_shutdowns :: nat
  bp_exit :: "int option"
  bp_output :: "string list"

datatype broker_process_event =
    Broker_Bound "string option"
  | Broker_Signal ending_signal
  | Broker_Closed

definition new_broker_process :: broker_process where
  "new_broker_process = \<lparr>bp_started = Pending, bp_shutdowns = 0, bp_exit = None, bp_output = []\<rparr>"

definition startBrokerServer :: "string \<Rightarrow> string option \<Rightarrow> broker_process \<Rightarrow> broker_process" where
  "startBrokerServer address error s =
     (if bp_started s \<noteq> Pending then s
      else (case error of
              Some e \<Rightarrow> s\<lparr>bp_started := Rejected e, bp_exit := Some 1,
                bp_output := bp_output s @ [''Broker server failed to start: '' @ e]\<rparr>
            | None \<Rightarrow> s\<lparr>bp_started := Resolved (), bp_output := bp_output s @ [''Server is running at '' @ address]\<rparr>))"

definition broker_signal :: "ending_signal \<Rightarrow> broker_process \<Rightarrow> broker_process" where
  "broker_signal sig s =
     (case (bp_started s, handled_signal sig) of
        (Resolved _, Some name) \<Rightarrow>
          s\<lparr>bp_shutdowns := bp_shutdowns s + 1,
            bp_output := bp_output s @ [''Received '' @ name @ '', shutting down gracefully...'']\<rparr>
      | _ \<Rightarrow> s\<lparr>bp_exit := Some (128 + int (signal_number sig))\<rparr>)"

definition broker_closed :: "broker_process \<Rightarrow> broker_process" where
  "broker_closed s =
     (if bp_shutdowns s > 0
      then s\<lparr>bp_exit := Some 0, bp_output := bp_output s @ [''Server shut down.'']\<rparr> else s)"

definition broker_process_step :: "string \<Rightarrow> broker_process \<Rightarrow> broker_process_event \<Rightarrow> broker_process" where
  "broker_process_step address s e =
     (if bp_exit s \<noteq> None then s
      else (case e of
              Broker_Bound error \<Rightarrow> startBrokerServer address error s
            | Broker_Signal sig \<Rightarrow> broker_signal sig s
            | Broker_Closed \<Rightarrow> broker_closed s))"

text \<open>
  After it has started, the process stays until gRPC reports that the server is closed, or a signal
  without a handler comes: the handled signals, however many, do not end it, and there is no time limit.\<close>

definition running_broker :: "broker_process \<Rightarrow> bool" where
  "running_broker s \<longleftrightarrow> bp_exit s = None \<and> bp_started s = Resolved ()"

fun spares :: "broker_process_event \<Rightarrow> bool" where
  "spares (Broker_Signal sig) = (handled_signal sig \<noteq> None)"
| "spares Broker_Closed = False"
| "spares e = True"

interpretation running: reactive "\<lambda>s e. if spares e then broker_process_step address s e else s" running_broker
proof unfold_locales
  show "running_broker s \<Longrightarrow> running_broker (if spares e then broker_process_step address s e else s)" for s e
    by (cases e) (auto simp: running_broker_def broker_process_step_def startBrokerServer_def broker_signal_def)
qed

lemma broker_stays_until_closed:
  assumes "running_broker s" "list_all spares es"
  shows "running_broker (foldl (broker_process_step address) s es)"
proof -
  have "foldl (\<lambda>s e. if spares e then broker_process_step address s e else s) s es =
      foldl (broker_process_step address) s es" for s
    using assms(2) by (induction es arbitrary: s) auto
  with running.inv_run [OF assms(1), of address es] show ?thesis by simp
qed

lemma broker_leaves_when_closed:
  assumes "running_broker s" "list_all spares es" "handled_signal sig \<noteq> None"
  shows "bp_exit (foldl (broker_process_step address) s (es @ [Broker_Signal sig, Broker_Closed])) = Some 0"
proof -
  have "running_broker (foldl (broker_process_step address) s es)" by (rule broker_stays_until_closed [OF assms(1,2)])
  then show ?thesis
    using assms(3) by (auto simp: running_broker_def broker_process_step_def broker_signal_def broker_closed_def)
qed

subsection \<open>The programs of the pipeline's services\<close>




























end
