(* ===== verification/Supervisor_View.thy ===== *)
theory Supervisor_View
  imports Supervisor_Properties
begin

text \<open>
  The terminal screen of the supervisor (\<open>apps/supervisor/src/supervisor.tsx\<close>): what each row says and
  in which colour, and what makes the screen be drawn again: the listeners of the logs and, in live
  mode, an interval.  A row is a list of texts with their styles.  \<open>pid\<close> gives the process id of a
  child, if it has one.  Also here: the options a child is started with.
\<close>

subsection \<open>Rows\<close>

datatype text_style = Plain | Coloured string | Bold | Dim

type_synonym row = "(text_style \<times> string) list"

definition service_status_text :: "service_status \<Rightarrow> string" where
  "service_status_text status =
     (case status of
        Idle \<Rightarrow> ''idle'' | Starting \<Rightarrow> ''starting'' | Running \<Rightarrow> ''running'' | WaitingRestart \<Rightarrow> ''waiting-restart''
      | Restarting \<Rightarrow> ''restarting'' | Stopped \<Rightarrow> ''stopped'' | Failed \<Rightarrow> ''failed'')"

definition getStatusColor :: "service_status \<Rightarrow> string" where
  "getStatusColor status =
     (case status of
        Running \<Rightarrow> ''green'' | Failed \<Rightarrow> ''red'' | Stopped \<Rightarrow> ''red'' | Starting \<Rightarrow> ''yellow''
      | Restarting \<Rightarrow> ''yellow'' | WaitingRestart \<Rightarrow> ''magenta'' | Idle \<Rightarrow> ''gray'')"

definition number_or_dash :: "int option \<Rightarrow> string" where
  "number_or_dash v = (case v of None \<Rightarrow> ''-'' | Some n \<Rightarrow> string_of_int n)"

definition ServiceRow :: "(nat \<Rightarrow> int option) \<Rightarrow> service_entry \<Rightarrow> nat \<Rightarrow> row" where
  "ServiceRow pid e index =
     (let statusMessage = (if nullish (en_statusMessage e) [] \<noteq> [] then '' ('' @ nullish (en_statusMessage e) [] @ '')'' else [])
      in [(Plain, ''  ''), (Coloured ''yellow'', ''['' @ string_of_int (int index + 1) @ '']''), (Plain, '' ''),
          (Coloured (getStatusColor (en_status e)), ''['' @ service_status_text (en_status e) @ '']''), (Plain, '' ''),
          (Coloured ''cyan'', co_name (en_config e)), (Plain, statusMessage),
          (Plain, '' | pid='' @ number_or_dash (Option.bind (en_process e) pid) @
             '' restarts='' @ string_of_int (en_restarts e) @ '' lastExit='' @ number_or_dash (en_lastExitCode e))])"

definition EventRow :: "event_entry \<Rightarrow> row" where
  "EventRow entry =
     [(Coloured ''blue'', ''  [SUPERVISOR] ['' @ ev_timestamp entry @ ''] '' @ ev_message entry)]"

definition OutputRow :: "output_entry \<Rightarrow> row" where
  "OutputRow entry =
     (let streamLabel = (if ou_stream entry = Stderr then ''ERR'' else ''OUT'');
          color = (if ou_color entry \<noteq> [] then ou_color entry else if ou_stream entry = Stderr then ''red'' else ''green'')
      in [(Coloured color, ''  ['' @ ou_serviceName entry @ '']['' @ streamLabel @ '']['' @ ou_timestamp entry @ ''] ''
             @ ou_message entry)])"

definition mode_text :: "view_mode \<Rightarrow> string" where
  "mode_text mode = (case mode of Snapshot_Mode \<Rightarrow> ''snapshot'' | Live_Mode \<Rightarrow> ''live'')"

definition commands_line :: string where
  "commands_line = ''Commands: '' @ [CHR 39] @ ''q'' @ [CHR 39] @ '' quit, '' @ [CHR 39] @ ''r'' @ [CHR 39] @ '' restart all, ''
     @ [CHR 39] @ ''l'' @ [CHR 39] @ '' toggle live mode, '' @ [CHR 39] @ ''1-9'' @ [CHR 39] @ '' toggle service, ''
     @ [CHR 39] @ ''h'' @ [CHR 39] @ '' help''"

definition SupervisorApp :: "(nat \<Rightarrow> int option) \<Rightarrow> string \<Rightarrow> supervisor \<Rightarrow> row list" where
  "SupervisorApp pid now s =
     [[(Coloured ''blue'', ''=== Supervisor '' @ mode_text (su_mode s) @ '' @ '' @ now @ '' ==='')], [(Bold, ''Services:'')]] @
     map (\<lambda>i. ServiceRow pid (su_services s ! i) i) [0..<length (su_services s)] @
     [[(Bold, ''Recent events:'')]] @
     (if length (su_eventLog s) > 0 then map EventRow (su_eventLog s) else [[(Dim, ''  (no recent events)'')]]) @
     [[(Bold, ''Recent output:'')]] @
     (if length (su_outputLog s) > 0 then map OutputRow (su_outputLog s) else [[(Dim, ''  (no output yet)'')]]) @
     [[(Dim, commands_line)]]"

subsection \<open>Drawing again\<close>

text \<open>
  The component's effect subscribes a listener to the logs and, in live mode, sets an interval with the
  refresh rate; React runs it when the component is mounted and after a change of the mode, and its
  cleanup before the next run and when the component goes.
\<close>

record ui_config =
  ui_refreshRate :: "int option"
  ui_manual :: "bool option"

definition merge_ui :: "ui_config \<Rightarrow> ui_config option \<Rightarrow> ui_config" where
  "merge_ui ui config =
     (case config of
        None \<Rightarrow> ui
      | Some c \<Rightarrow> \<lparr>ui_refreshRate = (if ui_refreshRate c \<noteq> None then ui_refreshRate c else ui_refreshRate ui),
                   ui_manual = (if ui_manual c \<noteq> None then ui_manual c else ui_manual ui)\<rparr>)"

record app_view =
  av_mode :: view_mode
  av_listeners :: "nat list"
  av_intervals :: "(nat \<times> int) list"
  av_effect :: "(nat \<times> nat option) option"
  av_next :: nat
  av_ticks :: nat

datatype view_event = Mounted | Mode_Toggled | Logs_Changed | Interval_Fires nat | Unmounted

definition new_view :: app_view where
  "new_view = \<lparr>av_mode = Snapshot_Mode, av_listeners = [], av_intervals = [], av_effect = None, av_next = 0, av_ticks = 0\<rparr>"

definition subscribe :: "nat \<Rightarrow> app_view \<Rightarrow> app_view" where
  "subscribe listener v = v\<lparr>av_listeners := (if listener \<in> set (av_listeners v) then av_listeners v else av_listeners v @ [listener])\<rparr>"

definition unsubscribe :: "nat \<Rightarrow> app_view \<Rightarrow> app_view" where
  "unsubscribe listener v = v\<lparr>av_listeners := removeAll listener (av_listeners v)\<rparr>"

text \<open>Every listener asks for another drawing.\<close>

definition notifyUpdate :: "app_view \<Rightarrow> app_view" where
  "notifyUpdate v = foldl (\<lambda>v listener. v\<lparr>av_ticks := av_ticks v + 1\<rparr>) v (av_listeners v)"

definition run_effect :: "ui_config \<Rightarrow> app_view \<Rightarrow> app_view" where
  "run_effect ui v =
     (let n = av_next v;
          v = subscribe n (v\<lparr>av_next := n + 2\<rparr>)
      in if av_mode v = Live_Mode
         then v\<lparr>av_intervals := av_intervals v @ [(n + 1, nullish (ui_refreshRate ui) 1000)], av_effect := Some (n, Some (n + 1))\<rparr>
         else v\<lparr>av_effect := Some (n, None)\<rparr>)"

definition cleanup_effect :: "app_view \<Rightarrow> app_view" where
  "cleanup_effect v =
     (case av_effect v of
        None \<Rightarrow> v
      | Some (listener, interval) \<Rightarrow>
          (let v = unsubscribe listener (v\<lparr>av_effect := None\<rparr>)
           in case interval of
                None \<Rightarrow> v
              | Some i \<Rightarrow> v\<lparr>av_intervals := filter (\<lambda>(j, period). j \<noteq> i) (av_intervals v)\<rparr>))"

fun view_step :: "ui_config \<Rightarrow> app_view \<Rightarrow> view_event \<Rightarrow> app_view" where
  "view_step ui v Mounted = (if av_effect v = None then run_effect ui v else v)"
| "view_step ui v Mode_Toggled =
     (if av_effect v = None then v
      else run_effect ui ((cleanup_effect v)\<lparr>av_mode := (if av_mode v = Snapshot_Mode then Live_Mode else Snapshot_Mode)\<rparr>))"
| "view_step ui v Logs_Changed = notifyUpdate v"
| "view_step ui v (Interval_Fires i) = (if i \<in> fst ` set (av_intervals v) then v\<lparr>av_ticks := av_ticks v + 1\<rparr> else v)"
| "view_step ui v Unmounted = cleanup_effect v"

lemma notify_ticks [simp]:
  "notifyUpdate v = v\<lparr>av_ticks := av_ticks v + length (av_listeners v)\<rparr>"
proof -
  have "foldl (\<lambda>v listener. v\<lparr>av_ticks := av_ticks v + 1\<rparr>) w ls = w\<lparr>av_ticks := av_ticks w + length ls\<rparr>" for w :: app_view and ls :: "nat list"
    by (induction ls arbitrary: w) simp_all
  then show ?thesis by (simp add: notifyUpdate_def)
qed

definition view_ok :: "ui_config \<Rightarrow> app_view \<Rightarrow> bool" where
  "view_ok ui v \<longleftrightarrow>
     (case av_effect v of
        None \<Rightarrow> av_listeners v = [] \<and> av_intervals v = []
      | Some (listener, interval) \<Rightarrow>
          av_listeners v = [listener] \<and>
          (case interval of
             None \<Rightarrow> av_mode v = Snapshot_Mode \<and> av_intervals v = []
           | Some i \<Rightarrow> av_mode v = Live_Mode \<and> av_intervals v = [(i, nullish (ui_refreshRate ui) 1000)]))"

lemma cleanup_clears: "view_ok ui v \<Longrightarrow> av_listeners (cleanup_effect v) = [] \<and> av_intervals (cleanup_effect v) = []
    \<and> av_effect (cleanup_effect v) = None \<and> av_mode (cleanup_effect v) = av_mode v"
  by (auto simp: view_ok_def cleanup_effect_def unsubscribe_def Let_def split: option.splits)

lemma effect_ok: "av_listeners v = [] \<Longrightarrow> av_intervals v = [] \<Longrightarrow> view_ok ui (run_effect ui v)"
  by (cases "av_mode v") (simp_all add: run_effect_def subscribe_def view_ok_def Let_def)

lemma view_ok_step:
  assumes "view_ok ui v"
  shows "view_ok ui (view_step ui v e)"
proof (cases e)
  case Mounted
  have "av_effect v = None \<Longrightarrow> av_listeners v = [] \<and> av_intervals v = []" using assms by (simp add: view_ok_def)
  with Mounted assms effect_ok [of v ui] show ?thesis by auto
next
  case Mode_Toggled
  then show ?thesis using assms cleanup_clears [OF assms] by (auto intro!: effect_ok)
next
  case Unmounted
  then show ?thesis using cleanup_clears [OF assms] by (simp add: view_ok_def)
qed (use assms in \<open>auto simp: view_ok_def split: option.splits\<close>)

interpretation screen: reactive "view_step ui" "view_ok ui" for ui
  by unfold_locales (rule view_ok_step)

text \<open>C19.
  However often the mode is switched, the screen has exactly one listener on the logs as long as it is
  shown, and an interval exactly in live mode, with the configured refresh rate; so a change of the
  logs draws it once.  Nothing is left when it goes.\<close>

theorem screen_has_one_listener:
  assumes "v = foldl (view_step ui) new_view es"
  shows "(av_effect v \<noteq> None \<longrightarrow> length (av_listeners v) = 1
      \<and> map snd (av_intervals v) = (if av_mode v = Live_Mode then [nullish (ui_refreshRate ui) 1000] else [])
      \<and> av_ticks (view_step ui v Logs_Changed) = av_ticks v + 1)
    \<and> av_listeners (view_step ui v Unmounted) = [] \<and> av_intervals (view_step ui v Unmounted) = []"
proof -
  have "view_ok ui new_view" by (simp add: view_ok_def new_view_def)
  then have "view_ok ui v" unfolding assms by (rule screen.inv_run)
  with cleanup_clears show ?thesis by (auto simp: view_ok_def split: option.splits)
qed

theorem screen_has_one_listener_witness:
  "map snd (av_intervals (foldl (view_step \<lparr>ui_refreshRate = Some 250, ui_manual = None\<rparr>) new_view
     [Mounted, Mode_Toggled, Mode_Toggled, Mode_Toggled])) = [250]"
  using screen_has_one_listener [OF refl, of "\<lparr>ui_refreshRate = Some 250, ui_manual = None\<rparr>" "[Mounted, Mode_Toggled, Mode_Toggled, Mode_Toggled]"]
  by (simp add: new_view_def run_effect_def cleanup_effect_def subscribe_def unsubscribe_def Let_def)

subsection \<open>The size of the screen\<close>

lemma screen_rows:
  "length (SupervisorApp pid now s) =
     length (su_services s) + max 1 (length (su_eventLog s)) + max 1 (length (su_outputLog s)) + 5"
  by (simp add: SupervisorApp_def max_def Suc_le_eq)

text \<open>The screen never has more than 53 rows besides those of the services.\<close>

lemma screen_fits: "sup_inv s \<Longrightarrow> length (SupervisorApp pid now s) \<le> length (su_services s) + 53"
  by (auto simp: screen_rows sup_inv_def max_def)

subsection \<open>The options of a child\<close>

text \<open>\<open>resolve\<close> is \<open>path.resolve\<close>.  The service's variables replace those of the supervisor.\<close>

record spawn_options =
  so_cwd :: string
  so_env :: "(string, string) js_map"

definition resolveCwd :: "(string \<Rightarrow> string) \<Rightarrow> string \<Rightarrow> string option \<Rightarrow> string" where
  "resolveCwd resolve processCwd cwd = (if nullish cwd [] \<noteq> [] then resolve (nullish cwd []) else processCwd)"

definition spawnOptions ::
  "(string \<Rightarrow> string) \<Rightarrow> string \<Rightarrow> (string, string) js_map \<Rightarrow> string option \<Rightarrow> (string, string) js_map option \<Rightarrow> spawn_options" where
  "spawnOptions resolve processCwd processEnv cwd env =
     \<lparr>so_cwd = resolveCwd resolve processCwd cwd,
      so_env = foldl (\<lambda>m (k, v). map_set k v m) processEnv (nullish env [])\<rparr>"

lemma child_environment:
  assumes "distinct (map fst (nullish env []))"
  shows "map_of (so_env (spawnOptions resolve processCwd processEnv cwd env)) k =
    (case map_of (nullish env []) k of Some v \<Rightarrow> Some v | None \<Rightarrow> map_of processEnv k)"
proof -
  have "map_of (foldl (\<lambda>m (k, v). map_set k v m) m0 es) k = (case map_of es k of Some v \<Rightarrow> Some v | None \<Rightarrow> map_of m0 k)"
    if "distinct (map fst es)" for es m0
    using that
  proof (induction es arbitrary: m0)
    case (Cons p es)
    then show ?case by (cases p) (force simp: update_conv' split: option.splits dest: map_of_SomeD)
  qed simp
  then show ?thesis using assms by (simp add: spawnOptions_def)
qed

end
