(* ===== verification/Ingest_Server.thy ===== *)
theory Ingest_Server
  imports Ingest "HOL-Library.Sublist"
begin

text \<open>
  The ingest server with several calls at a time
  (\<open>apps/demo-domain/ingest-service/src/ingest-service.ts\<close>): each call is an asynchronous function that
  stops at every read and at every write, where a full stream has to drain first, and all of them
  count on one counter.  \<open>Ingest\<close> is what a call computes, this is how the calls take turns.
\<close>

subsection \<open>A call\<close>

text \<open>
  \<open>Reading\<close>: at the head of one of the two loops.  \<open>Writing ms draining last\<close>: the messages still to be
  counted, whether the first of them is in the stream and waits for \<open>drain\<close>, and whether the loop is over.
\<close>

datatype call_phase = Reading | Writing "raw_event list" bool bool | Call_Ended | Destroyed string

text \<open>
  Two fields are histories: the texts that were taken, one for each sequence number, and how many
  messages of this call the server has counted.
\<close>

record ingest_call =
  ic_request :: ingest_request
  ic_sequence :: nat
  ic_batch :: "raw_event list"
  ic_batchStart :: int
  ic_cancelled :: bool
  ic_phase :: call_phase
  ic_sent :: "raw_event list"
  ic_read :: "string list"
  ic_counted :: nat

datatype call_event =
    Line string int
  | Input_Ends
  | Input_Fails string
  | Item "nat \<Rightarrow> rat"
  | Written bool int
  | Drained int
  | Stream_Fails string
  | Cancelled

definition new_call :: "ingest_request \<Rightarrow> int \<Rightarrow> ingest_call" where
  "new_call r now =
     \<lparr>ic_request = r, ic_sequence = 0, ic_batch = [], ic_batchStart = now, ic_cancelled = False, ic_phase = Reading,
      ic_sent = [], ic_read = [], ic_counted = 0\<rparr>"

definition generates :: "ingest_call \<Rightarrow> bool" where
  "generates c \<longleftrightarrow> nullish (iq_workloadMode (ic_request c)) EVENTS = WORK_ITEMS"

definition enough :: "ingest_call \<Rightarrow> bool" where
  "enough c = reaches (ic_sequence c) (parseMaxEvents (iq_maxEvents (ic_request c)))"

text \<open>After the loop over the lines: what is left of a batch, then the end.\<close>

definition end_loop :: "ingest_call \<Rightarrow> ingest_call" where
  "end_loop c =
     (if nullish (iq_enableBatching (ic_request c)) False \<and> length (ic_batch c) > 0
      then c\<lparr>ic_phase := Writing (ic_batch c) False True, ic_batch := []\<rparr>
      else c\<lparr>ic_phase := Call_Ended\<rparr>)"

text \<open>
  The message for one text, with the next sequence number; the code counts a work item after its write,
  before the loop looks at the number again.
\<close>

definition take_text :: "string \<Rightarrow> ingest_call \<Rightarrow> raw_event \<times> ingest_call" where
  "take_text s c =
     (\<lparr>ev_rawJson = s, ev_sequence = string_of_int (int (ic_sequence c))\<rparr>,
      c\<lparr>ic_sequence := ic_sequence c + 1, ic_read := ic_read c @ [s]\<rparr>)"

definition read_line :: "string \<Rightarrow> int \<Rightarrow> ingest_call \<Rightarrow> ingest_call" where
  "read_line l now c =
     (if ic_cancelled c \<or> enough c then end_loop c
      else (let (response, c) = take_text l c
            in if nullish (iq_enableBatching (ic_request c)) False
               then (let c = c\<lparr>ic_batch := ic_batch c @ [response]\<rparr>
                     in if reaches (length (ic_batch c)) (ingest_batch_size (ic_request c)) \<or> now - ic_batchStart c > 10
                        then c\<lparr>ic_phase := Writing (ic_batch c) False False, ic_batch := []\<rparr>
                        else c)
               else c\<lparr>ic_phase := Writing [response] False False\<rparr>))"

definition item_text :: "(json \<Rightarrow> string) \<Rightarrow> (nat \<Rightarrow> rat) \<Rightarrow> ingest_call \<Rightarrow> string" where
  "item_text stringify random c =
     (let itemId = ''w-'' @ padStart 6 (CHR ''0'') (string_of_int (int (ic_sequence c)))
      in stringify (generateWorkItem random 0 itemId (workload_config_of (ic_request c))))"

definition make_item :: "(json \<Rightarrow> string) \<Rightarrow> (nat \<Rightarrow> rat) \<Rightarrow> ingest_call \<Rightarrow> ingest_call" where
  "make_item stringify random c =
     (if enough c \<or> ic_cancelled c then c\<lparr>ic_phase := Call_Ended\<rparr>
      else (let (response, c) = take_text (item_text stringify random c) c
            in c\<lparr>ic_phase := Writing [response] False False\<rparr>))"

text \<open>A message is counted; when it was the last of its batch, the batch starts anew.\<close>

definition message_done :: "raw_event list \<Rightarrow> bool \<Rightarrow> int \<Rightarrow> ingest_call \<Rightarrow> ingest_call" where
  "message_done rest over now c =
     (let c = c\<lparr>ic_counted := ic_counted c + 1\<rparr> in
      if rest \<noteq> [] then c\<lparr>ic_phase := Writing rest False over\<rparr>
      else if over then c\<lparr>ic_phase := Call_Ended\<rparr>
      else c\<lparr>ic_phase := Reading, ic_batchStart := (if nullish (iq_enableBatching (ic_request c)) False then now else ic_batchStart c)\<rparr>)"

text \<open>One event of a call: its next state, and whether the counter goes up.\<close>

fun call_step :: "(json \<Rightarrow> string) \<Rightarrow> ingest_call \<Rightarrow> call_event \<Rightarrow> ingest_call \<times> bool" where
  "call_step stringify c (Line l now) = (if ic_phase c = Reading \<and> \<not> generates c then read_line l now c else c, False)"
| "call_step stringify c Input_Ends = (if ic_phase c = Reading \<and> \<not> generates c then end_loop c else c, False)"
| "call_step stringify c (Input_Fails m) =
     (if ic_phase c = Reading \<and> \<not> generates c then c\<lparr>ic_phase := Destroyed m\<rparr> else c, False)"
| "call_step stringify c (Item random) =
     (if ic_phase c = Reading \<and> generates c then make_item stringify random c else c, False)"
| "call_step stringify c (Written room now) =
     (case ic_phase c of
        Writing (m # ms) False over \<Rightarrow>
          (let c = c\<lparr>ic_sent := ic_sent c @ [m]\<rparr>
           in if room then (message_done ms over now c, True) else (c\<lparr>ic_phase := Writing (m # ms) True over\<rparr>, False))
      | _ \<Rightarrow> (c, False))"
| "call_step stringify c (Drained now) =
     (case ic_phase c of Writing (m # ms) True over \<Rightarrow> (message_done ms over now c, True) | _ \<Rightarrow> (c, False))"
| "call_step stringify c (Stream_Fails m) =
     (case ic_phase c of Writing (_ # _) True over \<Rightarrow> (c\<lparr>ic_phase := Destroyed m\<rparr>, False) | _ \<Rightarrow> (c, False))"
| "call_step stringify c Cancelled = (c\<lparr>ic_cancelled := True\<rparr>, False)"

subsection \<open>The server\<close>

record ingest_server =
  is_calls :: "ingest_call list"
  is_streamed :: nat

datatype ingest_server_event = New_Call ingest_request int | At_Call nat call_event

definition new_ingest_server :: ingest_server where
  "new_ingest_server = \<lparr>is_calls = [], is_streamed = 0\<rparr>"

fun ingest_server_step :: "(json \<Rightarrow> string) \<Rightarrow> ingest_server \<Rightarrow> ingest_server_event \<Rightarrow> ingest_server" where
  "ingest_server_step stringify s (New_Call r now) = s\<lparr>is_calls := is_calls s @ [new_call r now]\<rparr>"
| "ingest_server_step stringify s (At_Call i e) =
     (if i < length (is_calls s)
      then (let (c, counts) = call_step stringify (is_calls s ! i) e
            in s\<lparr>is_calls := (is_calls s)[i := c], is_streamed := is_streamed s + (if counts then 1 else 0)\<rparr>)
      else s)"

record ingest_status =
  gs_queuedEvents :: string
  gs_streamedEvents :: string
  gs_healthy :: bool

definition getStatus :: "ingest_server \<Rightarrow> ingest_status" where
  "getStatus s = \<lparr>gs_queuedEvents = ''0'', gs_streamedEvents = string_of_int (int (is_streamed s)), gs_healthy = True\<rparr>"

subsection \<open>What holds of a call\<close>

lemma numbered_append [simp]:
  "numbered_from n (ls @ ks) = numbered_from n ls @ numbered_from (n + length ls) ks"
  by (induction ls arbitrary: n) simp_all

definition unsent :: "ingest_call \<Rightarrow> raw_event list" where
  "unsent c = (case ic_phase c of Writing ms draining over \<Rightarrow> (if draining then tl ms else ms) @ ic_batch c | _ \<Rightarrow> ic_batch c)"

definition draining :: "ingest_call \<Rightarrow> bool" where
  "draining c \<longleftrightarrow> (case ic_phase c of Writing ms d over \<Rightarrow> d | _ \<Rightarrow> False)"

definition destroyed :: "ingest_call \<Rightarrow> bool" where
  "destroyed c \<longleftrightarrow> (case ic_phase c of Destroyed m \<Rightarrow> True | _ \<Rightarrow> False)"

text \<open>Everything that was taken is sent or still to be sent, in order, and not more than was asked for.\<close>

definition call_ok :: "ingest_call \<Rightarrow> bool" where
  "call_ok c \<longleftrightarrow>
     ic_sequence c = length (ic_read c) \<and>
     (\<exists>lost. ic_sent c @ unsent c @ lost = numbered_from 0 (ic_read c) \<and> (\<not> destroyed c \<longrightarrow> lost = [])) \<and>
     (\<forall>k. parseMaxEvents (iq_maxEvents (ic_request c)) = Finite (of_nat k) \<longrightarrow> length (ic_read c) \<le> k) \<and>
     (case ic_phase c of Writing ms d over \<Rightarrow> ms \<noteq> [] \<and> ic_batch c = [] | Call_Ended \<Rightarrow> ic_batch c = [] | _ \<Rightarrow> True) \<and>
     (generates c \<or> \<not> nullish (iq_enableBatching (ic_request c)) False \<longrightarrow> ic_batch c = []) \<and>
     ic_counted c \<le> length (ic_sent c) \<and>
     (if draining c then length (ic_sent c) = Suc (ic_counted c)
      else if destroyed c then length (ic_sent c) \<le> Suc (ic_counted c) else length (ic_sent c) = ic_counted c)"

lemmas call_ok_defs = call_ok_def unsent_def draining_def destroyed_def

lemma new_call_ok: "call_ok (new_call r now)"
  by (simp add: call_ok_defs new_call_def)

lemma enough_bound: "\<not> enough c \<Longrightarrow> parseMaxEvents (iq_maxEvents (ic_request c)) = Finite (of_nat k) \<Longrightarrow> ic_sequence c < k"
  by (simp add: enough_def not_le)

lemma end_loop_ok: "call_ok c \<Longrightarrow> ic_phase c = Reading \<Longrightarrow> call_ok (end_loop c)"
  by (auto simp: call_ok_defs end_loop_def generates_def)

lemma take_text_ok:
  assumes "call_ok c" "ic_phase c = Reading" "\<not> enough c" "take_text l c = (response, d)"
  shows "ic_sequence d = length (ic_read d)" "ic_sent d @ ic_batch d @ [response] = numbered_from 0 (ic_read d)"
    "\<forall>k. parseMaxEvents (iq_maxEvents (ic_request d)) = Finite (of_nat k) \<longrightarrow> length (ic_read d) \<le> k"
    "ic_request d = ic_request c" "ic_batch d = ic_batch c" "length (ic_sent d) = ic_counted d" "ic_phase d = Reading"
    "ic_batchStart d = ic_batchStart c"
  using assms enough_bound [OF assms(3)] by (auto simp: call_ok_defs take_text_def)

lemma read_line_ok:
  assumes "call_ok c" "ic_phase c = Reading" "\<not> generates c"
  shows "call_ok (read_line l now c)"
proof (cases "ic_cancelled c \<or> enough c")
  case False
  obtain response d where d: "take_text l c = (response, d)" by (cases "take_text l c")
  note t = take_text_ok [OF assms(1,2) _ d]
  have "\<not> nullish (iq_enableBatching (ic_request d)) False \<longrightarrow> ic_batch d = []"
    using assms(1) t(4,5) False by (auto simp: call_ok_def)
  with False t assms(3) show ?thesis by (auto simp: read_line_def d call_ok_defs generates_def Let_def)
qed (use assms end_loop_ok in \<open>simp add: read_line_def\<close>)

lemma make_item_ok:
  assumes "call_ok c" "ic_phase c = Reading" "generates c"
  shows "call_ok (make_item stringify random c)"
proof (cases "enough c \<or> ic_cancelled c")
  case True
  with assms show ?thesis by (auto simp: make_item_def call_ok_defs generates_def)
next
  case False
  obtain response d where d: "take_text (item_text stringify random c) c = (response, d)"
    by (cases "take_text (item_text stringify random c) c")
  note t = take_text_ok [OF assms(1,2) _ d]
  have "ic_batch d = []" using assms(1,3) t(5) False by (auto simp: call_ok_def)
  with False t show ?thesis by (auto simp: make_item_def d call_ok_defs Let_def)
qed

lemma message_done_ok:
  assumes "call_ok c" "ic_phase c = Writing (m # ms) True over"
  shows "call_ok (message_done ms over now c)"
  using assms by (auto simp: call_ok_defs message_done_def generates_def Let_def split: if_splits)

lemma message_done_phase [simp]: "message_done ms over now (c\<lparr>ic_phase := p\<rparr>) = message_done ms over now c"
  by (simp add: message_done_def Let_def)

lemma written_ok:
  assumes "call_ok c" "ic_phase c = Writing (m # ms) False over"
  shows "call_ok (c\<lparr>ic_sent := ic_sent c @ [m], ic_phase := Writing (m # ms) True over\<rparr>)"
  using assms by (auto simp: call_ok_defs generates_def)

lemma call_step_ok: "call_ok c \<Longrightarrow> call_ok (fst (call_step stringify c e))"
proof (cases e)
  case (Written room now)
  assume ok: "call_ok c"
  show ?thesis
  proof (cases "\<exists>m ms over. ic_phase c = Writing (m # ms) False over")
    case True
    then obtain m ms over where p: "ic_phase c = Writing (m # ms) False over" by blast
    let ?d = "c\<lparr>ic_sent := ic_sent c @ [m], ic_phase := Writing (m # ms) True over\<rparr>"
    note w = written_ok [OF ok p]
    have "message_done ms over now (c\<lparr>ic_sent := ic_sent c @ [m]\<rparr>) = message_done ms over now ?d" by simp
    moreover have "call_ok (message_done ms over now ?d)" by (rule message_done_ok [OF w]) simp
    ultimately show ?thesis using w p Written by (simp add: Let_def)
  qed (use ok Written in \<open>auto split: call_phase.splits list.splits bool.splits\<close>)
next
  case (Drained now)
  assume ok: "call_ok c"
  then show ?thesis using Drained message_done_ok [OF ok] by (auto split: call_phase.split list.split bool.split)
next
  case (Stream_Fails m)
  assume ok: "call_ok c"
  show ?thesis
  proof (cases "\<exists>m' ms over. ic_phase c = Writing (m' # ms) True over")
    case True
    then obtain m' ms over where p: "ic_phase c = Writing (m' # ms) True over" by blast
    with ok have f: "ic_sequence c = length (ic_read c)" "ic_sent c @ ms = numbered_from 0 (ic_read c)" "ic_batch c = []"
      "length (ic_sent c) = Suc (ic_counted c)"
      "\<forall>k. parseMaxEvents (iq_maxEvents (ic_request c)) = Finite (of_nat k) \<longrightarrow> length (ic_read c) \<le> k"
      by (auto simp: call_ok_defs)
    from f(2) have "\<exists>lost. ic_sent c @ lost = numbered_from 0 (ic_read c)" by blast
    with f(1,3-5) show ?thesis by (simp add: Stream_Fails p call_ok_defs)
  qed (use ok Stream_Fails in \<open>auto split: call_phase.splits list.splits bool.splits\<close>)
next
  case (Input_Fails m)
  assume ok: "call_ok c"
  then show ?thesis using Input_Fails by (auto simp: call_ok_defs generates_def intro: exI [of _ "[]"])
next
  case Cancelled
  assume ok: "call_ok c"
  then show ?thesis using Cancelled by (cases "ic_phase c") (auto simp: call_ok_defs generates_def)
qed (use read_line_ok end_loop_ok make_item_ok in simp_all)


subsection \<open>What holds of the server\<close>

definition server_calls_ok :: "ingest_server \<Rightarrow> bool" where
  "server_calls_ok s \<longleftrightarrow> list_all call_ok (is_calls s) \<and> is_streamed s = sum_list (map ic_counted (is_calls s))"

lemma call_step_counts:
  "ic_counted (fst (call_step stringify c e)) = ic_counted c + (if snd (call_step stringify c e) then 1 else 0)"
  by (cases e)
    (auto simp: read_line_def make_item_def end_loop_def take_text_def message_done_def Let_def
      split: call_phase.split list.split bool.split)

lemma sum_list_one_more:
  "i < length xs \<Longrightarrow> f y = f (xs ! i) + (k :: nat) \<Longrightarrow> sum_list (map f (xs[i := y])) = sum_list (map f xs) + k"
proof (induction xs arbitrary: i)
  case (Cons x xs)
  then show ?case by (cases i) simp_all
qed simp

interpretation ingest_server: reactive "ingest_server_step stringify" server_calls_ok for stringify
proof
  fix s e
  assume ok: "server_calls_ok s"
  show "server_calls_ok (ingest_server_step stringify s e)"
  proof (cases e)
    case (New_Call r now)
    have "ic_counted (new_call r now) = 0" by (simp add: new_call_def)
    with ok New_Call new_call_ok show ?thesis by (simp add: server_calls_ok_def)
  next
    case (At_Call i ce)
    obtain c counts where c: "call_step stringify (is_calls s ! i) ce = (c, counts)"
      by (cases "call_step stringify (is_calls s ! i) ce")
    show ?thesis
    proof (cases "i < length (is_calls s)")
      case True
      then have "call_ok (is_calls s ! i)" using ok by (simp add: server_calls_ok_def list_all_length)
      from call_step_ok [OF this, of stringify ce] have "call_ok c" by (simp add: c)
      moreover have "ic_counted c = ic_counted (is_calls s ! i) + (if counts then 1 else 0)"
        using call_step_counts [of stringify "is_calls s ! i" ce] by (simp add: c)
      note sum_list_one_more [where f = ic_counted, OF True this]
      ultimately show ?thesis using ok True At_Call c by (simp add: server_calls_ok_def list_all_update)
    qed (use ok At_Call in simp)
  qed
qed

text \<open>The events of one call.\<close>

fun events_at :: "nat \<Rightarrow> ingest_server_event list \<Rightarrow> call_event list" where
  "events_at i [] = []"
| "events_at i (At_Call j e # es) = (if i = j then e # events_at i es else events_at i es)"
| "events_at i (New_Call r now # es) = events_at i es"

lemma calls_are_independent:
  "i < length (is_calls s) \<Longrightarrow>
   length (is_calls s) \<le> length (is_calls (foldl (ingest_server_step stringify) s es)) \<and>
   is_calls (foldl (ingest_server_step stringify) s es) ! i =
     foldl (\<lambda>c e. fst (call_step stringify c e)) (is_calls s ! i) (events_at i es)"
proof (induction es arbitrary: s rule: events_at.induct [of _ i])
  case (2 i j e es)
  let ?s = "ingest_server_step stringify s (At_Call j e)"
  have "i < length (is_calls ?s)" "length (is_calls ?s) = length (is_calls s)"
    "is_calls ?s ! i = (if i = j then fst (call_step stringify (is_calls s ! i) e) else is_calls s ! i)"
    using 2(3) by (auto simp: Let_def split: prod.splits)
  then show ?case using 2(1) [of ?s] 2(2) [of ?s] by (cases "i = j") (simp_all del: ingest_server_step.simps)
next
  case (3 i r now es)
  let ?s = "ingest_server_step stringify s (New_Call r now)"
  have "i < length (is_calls ?s)" "length (is_calls s) \<le> length (is_calls ?s)" "is_calls ?s ! i = is_calls s ! i"
    using 3(2) by (auto simp: nth_append)
  then show ?case using 3(1) [of ?s] by (auto simp del: ingest_server_step.simps intro: le_trans)
qed simp


text \<open>C15.
  The calls of an ingest server take turns without mixing: what becomes of a call depends on its own
  events only; it sends what it has taken, in order and numbered from 0 without a gap, never more than
  its maximum, and everything of it when it ends, however often its stream was full; and the counter
  that the server shows is the number of messages counted for all calls together, which for a call
  that has ended are all its messages.\<close>

theorem ingest_calls_take_turns:
  assumes "s = foldl (ingest_server_step stringify) new_ingest_server es" "i < length (is_calls s)" "c = is_calls s ! i"
  shows "prefix (ic_sent c) (numbered_from 0 (ic_read c))
    \<and> (\<forall>k. parseMaxEvents (iq_maxEvents (ic_request c)) = Finite (of_nat k) \<longrightarrow> length (ic_sent c) \<le> k)
    \<and> (ic_phase c = Call_Ended \<longrightarrow> ic_sent c = numbered_from 0 (ic_read c) \<and> ic_counted c = length (ic_sent c))
    \<and> gs_streamedEvents (getStatus s) = string_of_int (int (sum_list (map ic_counted (is_calls s))))
    \<and> is_calls (foldl (ingest_server_step stringify) s fs) ! i =
        foldl (\<lambda>c e. fst (call_step stringify c e)) c (events_at i fs)"
proof -
  have "server_calls_ok new_ingest_server" by (simp add: server_calls_ok_def new_ingest_server_def)
  then have ok: "server_calls_ok s" unfolding assms(1) by (rule ingest_server.inv_run)
  then have c: "call_ok c" using assms(2,3) by (simp add: server_calls_ok_def list_all_length)
  then obtain lost where l: "ic_sent c @ unsent c @ lost = numbered_from 0 (ic_read c)" "\<not> destroyed c \<longrightarrow> lost = []"
    unfolding call_ok_def by blast
  have "length (ic_sent c @ unsent c @ lost) = length (ic_read c)" unfolding l(1) by simp
  then have len: "length (ic_sent c) \<le> length (ic_read c)" by simp
  have p: "prefix (ic_sent c) (numbered_from 0 (ic_read c))" unfolding l(1) [symmetric] by (rule prefixI [OF refl])
  have m: "length (ic_sent c) \<le> k" if "parseMaxEvents (iq_maxEvents (ic_request c)) = Finite (of_nat k)" for k
    using c that len unfolding call_ok_def by fastforce
  have e: "ic_sent c = numbered_from 0 (ic_read c) \<and> ic_counted c = length (ic_sent c)" if "ic_phase c = Call_Ended"
    using c l that by (simp add: call_ok_defs)
  have st: "gs_streamedEvents (getStatus s) = string_of_int (int (sum_list (map ic_counted (is_calls s))))"
    using ok by (simp add: getStatus_def server_calls_ok_def)
  show ?thesis using p m e st calls_are_independent [OF assms(2), of stringify fs] assms(3) by simp
qed

definition two_calls :: "ingest_server_event list" where
  "two_calls =
     (let r = \<lparr>iq_inputFile = ''in'', iq_batchSize = Finite 2, iq_maxEvents = ''0'', iq_enableBatching = None,
               iq_workloadMode = None, iq_workloadConfig = None\<rparr>
      in [New_Call r 0, New_Call r 0, At_Call 0 (Line ''a'' 0), At_Call 1 (Line ''b'' 0), At_Call 0 (Written False 0),
          At_Call 1 (Written True 0), At_Call 0 (Drained 0), At_Call 0 Input_Ends])"

theorem ingest_calls_take_turns_witness:
  "ic_sent (is_calls (foldl (ingest_server_step (\<lambda>v. [])) new_ingest_server two_calls) ! 0) = [\<lparr>ev_rawJson = ''a'', ev_sequence = ''0''\<rparr>]
   \<and> gs_streamedEvents (getStatus (foldl (ingest_server_step (\<lambda>v. [])) new_ingest_server two_calls)) = ''2''"
proof -
  let ?s = "foldl (ingest_server_step (\<lambda>v. [])) new_ingest_server two_calls"
  have zero: "string_of_int 0 = ''0''" "string_of_int 2 = ''2''" by code_simp+
  have "Number_of ''0'' = Finite 0" using Number_of_string_of_int [of 0] by (simp add: zero)
  then have m: "parseMaxEvents ''0'' = Infinite True" by (simp add: parseMaxEvents_def)
  have s: "length (is_calls ?s) = 2" "ic_phase (is_calls ?s ! 0) = Call_Ended" "ic_read (is_calls ?s ! 0) = [''a'']"
    "map ic_counted (is_calls ?s) = [1, 1]"
    by (simp_all add: two_calls_def new_ingest_server_def new_call_def generates_def read_line_def enough_def take_text_def m
        message_done_def end_loop_def zero Let_def)
  from ingest_calls_take_turns [OF refl, of 0 "\<lambda>v. []" two_calls, OF _ refl] s show ?thesis by (simp add: zero)
qed

end
