(* ===== verification/Sink_Writer.thy ===== *)
theory Sink_Writer
  imports Pipeline_Services "HOL-Library.Sublist"
begin

text \<open>
  How the sink writes its file (\<open>apps/demo-domain/sink-service/src/sink-service.ts\<close>): each result adds
  a link to a chain of promises; a link writes its line and, when the stream is full, waits for it to
  drain.  \<open>Pipeline_Services\<close> has the lines and the count (\<open>sink_data\<close>, \<open>sink_end\<close>), this is when
  they reach the file and when the call is answered.
\<close>

record sink_writer =
  kw_sink :: sink
  kw_waiting :: "string list"
  kw_draining :: bool
  kw_failed :: "string option"
  kw_file :: "string list"
  kw_ended :: bool
  kw_closing :: bool
  kw_reply :: "(string + string) option"
  kw_crashed :: bool

datatype writer_event =
    Result_Data "aggregate_result option"
  | Turn bool
  | Stream_Drained
  | Output_Fails string
  | Input_End
  | Chain_Over
  | File_Closed

definition new_writer :: sink_writer where
  "new_writer = \<lparr>kw_sink = new_sink, kw_waiting = [], kw_draining = False, kw_failed = None, kw_file = [], kw_ended = False,
     kw_closing = False, kw_reply = None, kw_crashed = False\<rparr>"

text \<open>A result whose line cannot be made is an exception that nobody catches.\<close>

definition result_data :: "js_library \<Rightarrow> aggregate_result option \<Rightarrow> sink_writer \<Rightarrow> sink_writer" where
  "result_data lib request s =
     (let k = sink_data lib request (kw_sink s)
      in s\<lparr>kw_sink := k, kw_waiting := kw_waiting s @ drop (length (sk_lines (kw_sink s))) (sk_lines k),
           kw_crashed := sk_failed k\<rparr>)"

text \<open>The next link writes its line; the flag says whether the stream has room for more.\<close>

definition write_turn :: "bool \<Rightarrow> sink_writer \<Rightarrow> sink_writer" where
  "write_turn room s =
     (case kw_waiting s of
        [] \<Rightarrow> s
      | line # lines \<Rightarrow>
          if kw_draining s \<or> kw_failed s \<noteq> None then s
          else s\<lparr>kw_file := kw_file s @ [line], kw_waiting := lines, kw_draining := \<not> room\<rparr>)"

text \<open>
  An error of the output: only a link that waits listens for it, and its rejection is handled only
  once the end of the input has been seen; otherwise the process ends.
\<close>

definition output_fails :: "string \<Rightarrow> sink_writer \<Rightarrow> sink_writer" where
  "output_fails message s =
     (if kw_draining s \<and> kw_ended s then s\<lparr>kw_draining := False, kw_failed := Some message\<rparr> else s\<lparr>kw_crashed := True\<rparr>)"

text \<open>The chain has come to its end: the file is closed, or the call fails.\<close>

definition chain_over :: "sink_writer \<Rightarrow> sink_writer" where
  "chain_over s =
     (if kw_ended s \<and> \<not> kw_draining s \<and> \<not> kw_closing s \<and> kw_reply s = None
      then (case kw_failed s of
              Some message \<Rightarrow> s\<lparr>kw_reply := Some (sink_end (Some message) (kw_sink s))\<rparr>
            | None \<Rightarrow> if kw_waiting s = [] then s\<lparr>kw_closing := True\<rparr> else s)
      else s)"

definition file_closed :: "sink_writer \<Rightarrow> sink_writer" where
  "file_closed s =
     (if kw_closing s \<and> kw_reply s = None then s\<lparr>kw_reply := Some (sink_end None (kw_sink s))\<rparr> else s)"

fun writer_event_step :: "js_library \<Rightarrow> sink_writer \<Rightarrow> writer_event \<Rightarrow> sink_writer" where
  "writer_event_step lib s (Result_Data request) = (if kw_ended s then s else result_data lib request s)"
| "writer_event_step lib s (Turn room) = write_turn room s"
| "writer_event_step lib s Stream_Drained = s\<lparr>kw_draining := False\<rparr>"
| "writer_event_step lib s (Output_Fails message) = output_fails message s"
| "writer_event_step lib s Input_End = s\<lparr>kw_ended := True\<rparr>"
| "writer_event_step lib s Chain_Over = chain_over s"
| "writer_event_step lib s File_Closed = file_closed s"

definition writer_step :: "js_library \<Rightarrow> sink_writer \<Rightarrow> writer_event \<Rightarrow> sink_writer" where
  "writer_step lib s e = (if kw_crashed s then s else writer_event_step lib s e)"

lemmas writer_defs = result_data_def write_turn_def output_fails_def chain_over_def file_closed_def

subsection \<open>What is in the file\<close>

lemma sink_data_lines:
  "\<exists>new. sk_lines (sink_data lib request k) = sk_lines k @ new" "\<not> sk_failed k \<Longrightarrow> sk_failed (sink_data lib request k) \<or>
     sk_written (sink_data lib request k) + length (sk_lines k) = sk_written k + length (sk_lines (sink_data lib request k))"
  by (auto simp: sink_data_def split: option.split)

definition writer_ok :: "sink_writer \<Rightarrow> bool" where
  "writer_ok s \<longleftrightarrow> kw_file s @ kw_waiting s = sk_lines (kw_sink s) \<and>
     (\<not> kw_crashed s \<longrightarrow> \<not> sk_failed (kw_sink s) \<and> sk_written (kw_sink s) = length (sk_lines (kw_sink s))) \<and>
     (kw_closing s \<longrightarrow> kw_waiting s = [] \<and> kw_ended s \<and> kw_failed s = None \<and> \<not> kw_draining s) \<and>
     (kw_failed s \<noteq> None \<longrightarrow> kw_ended s) \<and>
     (kw_reply s \<noteq> None \<longrightarrow> kw_ended s) \<and>
     (\<forall>n. kw_reply s = Some (Inr n) \<longrightarrow> kw_waiting s = [] \<and> n = string_of_int (int (length (sk_lines (kw_sink s)))))"

lemma writer_ok_step: "writer_ok s \<Longrightarrow> writer_ok (writer_step lib s e)"
proof (cases "kw_crashed s")
  case False
  assume ok: "writer_ok s"
  show ?thesis
  proof (cases e)
    case (Result_Data request)
    show ?thesis
    proof (cases "kw_ended s")
      case False
      obtain new where n: "sk_lines (sink_data lib request (kw_sink s)) = sk_lines (kw_sink s) @ new"
        using sink_data_lines(1) by blast
      have "writer_ok (result_data lib request s)"
        using ok n \<open>\<not> kw_crashed s\<close> False sink_data_lines(2) [of "kw_sink s" lib request]
        by (auto simp: writer_ok_def result_data_def Let_def simp flip: append_assoc)
      with Result_Data \<open>\<not> kw_crashed s\<close> False show ?thesis by (simp add: writer_step_def)
    qed (use ok Result_Data in \<open>simp add: writer_step_def\<close>)
  next
    case (Turn room)
    with ok False show ?thesis
      by (cases "kw_waiting s") (auto simp: writer_step_def writer_ok_def write_turn_def)
  qed (use ok False in \<open>auto simp: writer_step_def writer_ok_def output_fails_def chain_over_def file_closed_def sink_end_def
      split: option.splits\<close>)
qed (simp add: writer_step_def)

interpretation writer: reactive "writer_step lib" writer_ok for lib
  by unfold_locales (rule writer_ok_step)

text \<open>The results that count: those before the end of the input.\<close>

fun results_of :: "writer_event list \<Rightarrow> aggregate_result option list" where
  "results_of [] = []"
| "results_of (Result_Data request # es) = request # results_of es"
| "results_of (Input_End # es) = []"
| "results_of (e # es) = results_of es"

lemma crashed_stays: "kw_crashed s \<Longrightarrow> foldl (writer_step lib) s es = s"
  by (induction es) (simp_all add: writer_step_def)

lemma writer_sink_kept:
  "kw_sink (write_turn room s) = kw_sink s" "kw_ended (write_turn room s) = kw_ended s"
  "kw_sink (output_fails m s) = kw_sink s" "kw_ended (output_fails m s) = kw_ended s"
  "kw_sink (chain_over s) = kw_sink s" "kw_ended (chain_over s) = kw_ended s"
  "kw_sink (file_closed s) = kw_sink s" "kw_ended (file_closed s) = kw_ended s"
  by (simp_all add: write_turn_def output_fails_def chain_over_def file_closed_def split: list.split option.split)

lemma ended_keeps_sink: "kw_ended s \<Longrightarrow> kw_sink (foldl (writer_step lib) s es) = kw_sink s \<and> kw_ended (foldl (writer_step lib) s es)"
proof (induction es arbitrary: s)
  case (Cons e es)
  then have "kw_sink (writer_step lib s e) = kw_sink s \<and> kw_ended (writer_step lib s e)"
    by (cases e) (simp_all add: writer_step_def writer_sink_kept)
  with Cons.IH [of "writer_step lib s e"] show ?case by simp
qed simp

lemma writer_sink:
  "\<not> kw_ended s \<Longrightarrow> \<not> kw_crashed (foldl (writer_step lib) s es) \<Longrightarrow>
   kw_sink (foldl (writer_step lib) s es) = foldl (\<lambda>k r. sink_data lib r k) (kw_sink s) (results_of es)"
proof (induction es arbitrary: s rule: results_of.induct)
  case (2 request es)
  have "\<not> kw_crashed s" using 2(3) crashed_stays [of s lib "Result_Data request # es"] by auto
  then have "writer_step lib s (Result_Data request) = result_data lib request s" using 2(2) by (simp add: writer_step_def)
  with 2 show ?case by (simp add: result_data_def Let_def)
next
  case (3 es)
  have "\<not> kw_crashed s" using 3(2) crashed_stays [of s lib "Input_End # es"] by auto
  then have "writer_step lib s Input_End = s\<lparr>kw_ended := True\<rparr>" by (simp add: writer_step_def)
  then show ?case using ended_keeps_sink [of "s\<lparr>kw_ended := True\<rparr>" lib es] by simp
qed (auto simp: writer_step_def writer_sink_kept split: if_splits)

text \<open>The call can always be answered once its input has ended.\<close>

lemma turns_write_all:
  "\<not> kw_crashed s \<Longrightarrow> \<not> kw_draining s \<Longrightarrow> kw_failed s = None \<Longrightarrow>
   foldl (writer_step lib) s (replicate (length (kw_waiting s)) (Turn True)) =
     s\<lparr>kw_file := kw_file s @ kw_waiting s, kw_waiting := []\<rparr>"
proof (induction "kw_waiting s" arbitrary: s)
  case (Cons line lines)
  have w: "writer_step lib s (Turn True) = s\<lparr>kw_file := kw_file s @ [line], kw_waiting := lines, kw_draining := False\<rparr>"
    using Cons.prems Cons.hyps(2) [symmetric] by (simp add: writer_step_def write_turn_def)
  from Cons.hyps(1) [of "writer_step lib s (Turn True)"] Cons.prems Cons.hyps(2) [symmetric] show ?case by (simp add: w)
qed (simp add: Nil)

text \<open>C14.
  The sink answers after it has written: at any time what it wrote is an initial part of the lines of the
  results received, in their order, and as long as the process lives these are the lines that handling
  the results one after the other gives; the call is answered with success only when all of them are
  written and the file is closed, and then with their number.  Once the input has ended and nothing has failed, the
  answer comes as soon as the stream drains, the remaining lines are written and the file is closed.\<close>

theorem sink_answers_after_writing:
  assumes "s = foldl (writer_step lib) new_writer es"
    and "k = foldl (\<lambda>k r. sink_data lib r k) new_sink (results_of es)" "\<not> kw_crashed s"
  shows "prefix (kw_file s) (sk_lines k)
    \<and> (\<forall>n. kw_reply s = Some (Inr n) \<longrightarrow> kw_file s = sk_lines k \<and> n = string_of_int (int (length (sk_lines k))))
    \<and> (kw_ended s \<and> kw_failed s = None \<and> kw_reply s = None \<longrightarrow>
         (let t = foldl (writer_step lib) s
            (Stream_Drained # replicate (length (kw_waiting s)) (Turn True) @ [Chain_Over, File_Closed])
          in kw_file t = sk_lines k \<and> kw_reply t = Some (Inr (string_of_int (int (length (sk_lines k)))))))"
proof -
  have "writer_ok new_writer" by (simp add: writer_ok_def new_writer_def new_sink_def)
  then have ok: "writer_ok s" unfolding assms(1) by (rule writer.inv_run)
  have k: "kw_sink s = k"
    using writer_sink [of new_writer lib es] assms by (simp add: new_writer_def)
  have f: "kw_file s @ kw_waiting s = sk_lines k" "sk_written k = length (sk_lines k)"
    using ok assms(3) k by (simp_all add: writer_ok_def)
  have 1: "prefix (kw_file s) (sk_lines k)" unfolding f(1) [symmetric] by (rule prefixI [OF refl])
  have 2: "kw_file s = sk_lines k \<and> n = string_of_int (int (length (sk_lines k)))" if "kw_reply s = Some (Inr n)" for n
  proof -
    have "kw_waiting s = []" "n = string_of_int (int (length (sk_lines (kw_sink s))))"
      using ok that by (simp_all add: writer_ok_def)
    with f(1) k show ?thesis by simp
  qed
  have 3: "kw_file t = sk_lines k \<and> kw_reply t = Some (Inr (string_of_int (int (length (sk_lines k)))))"
    if w: "kw_ended s" "kw_failed s = None" "kw_reply s = None"
      and t: "t = foldl (writer_step lib) s (Stream_Drained # replicate (length (kw_waiting s)) (Turn True) @ [Chain_Over, File_Closed])"
    for t
  proof -
    let ?d = "s\<lparr>kw_draining := False\<rparr>"
    let ?w = "?d\<lparr>kw_file := kw_file s @ kw_waiting s, kw_waiting := []\<rparr>"
    have "writer_step lib s Stream_Drained = ?d" using assms(3) by (simp add: writer_step_def)
    moreover have "foldl (writer_step lib) ?d (replicate (length (kw_waiting ?d)) (Turn True)) =
        ?d\<lparr>kw_file := kw_file ?d @ kw_waiting ?d, kw_waiting := []\<rparr>"
      by (rule turns_write_all) (use assms(3) w in simp_all)
    ultimately have "t = foldl (writer_step lib) ?w [Chain_Over, File_Closed]" using t by simp
    then show ?thesis
      using assms(3) w f k by (simp add: writer_step_def chain_over_def file_closed_def sink_end_def)
  qed
  show ?thesis unfolding Let_def using 1 2 3 [OF _ _ _ refl] by blast
qed

definition one_result :: aggregate_result where
  "one_result = \<lparr>ag_key = Some ''a'', ag_count = ''1'', ag_sum = ''2'', ag_avg = Finite 2\<rparr>"

definition plain_library :: js_library where
  "plain_library = \<lparr>lib_parse = (\<lambda>s. None), lib_stringify = (\<lambda>v. []), lib_date = (\<lambda>s. None), lib_print = (\<lambda>q. ''2'')\<rparr>"

definition one_write :: "writer_event list" where
  "one_write = [Result_Data (Some one_result), Result_Data None, Turn False, Input_End, Stream_Drained, Chain_Over, File_Closed]"

theorem sink_answers_after_writing_witness:
  "kw_reply (foldl (writer_step plain_library) new_writer one_write) = Some (Inr ''1'')
   \<and> kw_file (foldl (writer_step plain_library) new_writer one_write) = [''{\"key\":\"a\",\"count\":1,\"sum\":2,\"avg\":2}'' @ [CHR 10]]"
proof -
  have one: "string_of_int 1 = ''1''" by code_simp
  have "\<not> kw_crashed (foldl (writer_step plain_library) new_writer one_write)"
    "kw_reply (foldl (writer_step plain_library) new_writer one_write) = Some (Inr ''1'')"
    "sk_lines (foldl (\<lambda>k r. sink_data plain_library r k) new_sink (results_of one_write)) =
      [''{\"key\":\"a\",\"count\":1,\"sum\":2,\"avg\":2}'' @ [CHR 10]]"
    by (simp_all add: one_write_def new_writer_def writer_step_def writer_defs new_sink_def sink_data_def formatResult_def
        one_result_def startsWith_def plain_library_def sink_end_def one Let_def)
  with sink_answers_after_writing [OF refl refl, of plain_library one_write] show ?thesis by simp
qed

end
