(* ===== verification/Dashboard_Hook.thy ===== *)
theory Dashboard_Hook
  imports Topology_Replica
begin

text \<open>
  The hook of the dashboard (\<open>useTopologyStream.ts\<close>) keeps its snapshot when an update changes nothing
  it compares.  It compares neither the metadata of a node nor the order of the lists; here it is
  proved that this is all it can miss.
\<close>

subsection \<open>Snapshots that look the same\<close>

definition bare :: "service_node \<Rightarrow> service_node" where
  "bare n = n\<lparr>sn_metadata := None\<rparr>"

definition looks_like :: "topology_snapshot \<Rightarrow> topology_snapshot \<Rightarrow> bool" where
  "looks_like a b \<longleftrightarrow> bare ` set (ts_nodes a) = bare ` set (ts_nodes b) \<and> set (ts_edges a) = set (ts_edges b)"

definition keys_distinct :: "topology_snapshot \<Rightarrow> bool" where
  "keys_distinct d \<longleftrightarrow> distinct (map sn_serviceId (ts_nodes d)) \<and> distinct (map dashEdgeKey (ts_edges d))"

lemma bare_ids [simp]: "sn_serviceId (bare n) = sn_serviceId n" "sn_serviceName (bare n) = sn_serviceName n"
  by (simp_all add: bare_def)

lemma looks_like_ids: "looks_like a b \<Longrightarrow> sn_serviceId ` set (ts_nodes a) = sn_serviceId ` set (ts_nodes b)"
proof -
  assume "looks_like a b"
  then have "sn_serviceId ` bare ` set (ts_nodes a) = sn_serviceId ` bare ` set (ts_nodes b)"
    by (simp add: looks_like_def)
  then show ?thesis by (simp add: image_image)
qed

lemma set_put_by: "set (put_by key x xs) = insert x {y \<in> set xs. key y \<noteq> key x}"
  by (auto simp: put_by_def)

lemma distinct_put_by: "distinct (map key xs) \<Longrightarrow> distinct (map key (put_by key x xs))"
proof (induction xs)
  case (Cons y ys)
  have "map key (map (\<lambda>item. if key item = key x then x else item) zs) = map key zs" for zs by simp
  with Cons.prems show ?case by (auto simp: put_by_def simp del: map_map)
qed (simp add: put_by_def)

lemma bare_image_filter: "bare ` {n \<in> N. sn_serviceId n \<noteq> i} = {n \<in> bare ` N. sn_serviceId n \<noteq> i}"
  by auto

lemma applyUpdate_looks:
  assumes "looks_like a b"
  shows "looks_like (applyUpdate a u t) (applyUpdate b u t)"
proof -
  have up: "bare ` set (put_by sn_serviceId n (ts_nodes a)) = bare ` set (put_by sn_serviceId n (ts_nodes b))" for n
    using assms by (simp add: set_put_by bare_image_filter looks_like_def)
  have rm: "bare ` {x \<in> set (ts_nodes a). sn_serviceId x \<noteq> i} = bare ` {x \<in> set (ts_nodes b). sn_serviceId x \<noteq> i}" for i
    using assms by (simp add: bare_image_filter looks_like_def)
  show ?thesis
    using assms up rm
    by (auto simp: applyUpdate_def apply_edge_part_def set_put_by looks_like_def split: option.split)
qed

text \<open>The snapshots that are sent have distinct keys.\<close>

definition sound_update :: "topology_update \<Rightarrow> bool" where
  "sound_update u \<longleftrightarrow> (is_snapshot u \<longrightarrow> keys_distinct (the (tu_snapshot u)))"

lemma applyUpdate_distinct:
  assumes "keys_distinct d" "sound_update u"
  shows "keys_distinct (applyUpdate d u t)"
  using assms
  by (auto simp: applyUpdate_def apply_edge_part_def keys_distinct_def sound_update_def is_snapshot_def distinct_put_by distinct_map_filter
      split: option.splits)

lemma index_by_distinct: "distinct (map key xs) \<Longrightarrow> index_by key xs = map (\<lambda>x. (key x, x)) xs"
proof -
  have "distinct (map key (ys @ xs)) \<Longrightarrow>
      foldl (\<lambda>m x. map_set (key x) x m) (map (\<lambda>x. (key x, x)) ys) xs = map (\<lambda>x. (key x, x)) (ys @ xs)" for ys
  proof (induction xs arbitrary: ys)
    case (Cons x xs)
    have "map_set (key x) x (map (\<lambda>x. (key x, x)) ys) = map (\<lambda>x. (key x, x)) (ys @ [x])"
      using Cons.prems by (subst update_fresh) (auto simp: image_image)
    with Cons.IH [of "ys @ [x]"] Cons.prems show ?case by simp
  qed simp
  from this [of "[]"] show "distinct (map key xs) \<Longrightarrow> ?thesis" by (simp add: index_by_def)
qed

lemma index_equal_image:
  assumes "index_equal eq (index_by key xs) (index_by key ys)" "distinct (map key xs)" "distinct (map key ys)"
    and "length xs = length ys" "\<And>x y. eq x y \<Longrightarrow> f x = f y" "\<And>x. key' (f x) = key x"
  shows "f ` set xs = f ` set ys"
proof (rule card_subset_eq)
  have "\<exists>y \<in> set ys. eq x y" if "x \<in> set xs" for x
    using assms(1) that unfolding index_equal_def index_by_distinct [OF assms(2)] index_by_distinct [OF assms(3)]
    by (fastforce simp: list_all_iff dest: map_of_SomeD split: option.splits)
  then show "f ` set xs \<subseteq> f ` set ys" using assms(5) by fast
  have "card (f ` set zs) = length zs" if "distinct (map key zs)" for zs
  proof -
    have "inj_on f (set zs)" using that assms(6) by (metis (mono_tags, lifting) distinct_map inj_on_def)
    then show ?thesis using that by (simp add: card_image distinct_card distinct_map)
  qed
  then show "card (f ` set xs) = card (f ` set ys)" using assms(2-4) by simp
qed simp

lemma equal_looks:
  assumes "areSnapshotsEqual a b" "keys_distinct a" "keys_distinct b"
  shows "looks_like a b"
proof (cases "a = b")
  case False
  have "bare ` set (ts_nodes a) = bare ` set (ts_nodes b)"
    using assms False
    by (intro index_equal_image [where eq = areServiceNodesEqual and key = sn_serviceId and key' = sn_serviceId])
      (auto simp: areSnapshotsEqual_def keys_distinct_def areServiceNodesEqual_def bare_def)
  moreover have "(\<lambda>e. e) ` set (ts_edges a) = (\<lambda>e. e) ` set (ts_edges b)"
    using assms False
    by (intro index_equal_image [where eq = areServiceEdgesEqual and key = dashEdgeKey and key' = dashEdgeKey])
      (auto simp: areSnapshotsEqual_def keys_distinct_def areServiceEdgesEqual_def)
  ultimately show ?thesis by (simp add: looks_like_def)
qed (simp add: looks_like_def)

subsection \<open>The hook and the plain replay\<close>

abbreviation received :: "(topology_update \<times> int) list \<Rightarrow> stream_event list" where
  "received ms \<equiv> map (\<lambda>(u, t). Sse_Message (Some u) t) ms"

lemma hook_step:
  assumes "looks_like (st_snapshot st) d" "keys_distinct (st_snapshot st)" "sound_update u"
  shows "looks_like (st_snapshot (stream_step st (Sse_Message (Some u) t))) (applyUpdate d u t)
    \<and> keys_distinct (st_snapshot (stream_step st (Sse_Message (Some u) t)))"
proof -
  let ?n = "applyUpdate (st_snapshot st) u t"
  have n: "looks_like ?n (applyUpdate d u t)" "keys_distinct ?n"
    using applyUpdate_looks [OF assms(1)] applyUpdate_distinct [OF assms(2,3)] by blast+
  show ?thesis
  proof (cases "areSnapshotsEqual (st_snapshot st) ?n")
    case True
    with equal_looks [OF True assms(2) n(2)] n assms(2) show ?thesis by (simp add: looks_like_def)
  qed (use n in simp)
qed

lemma hook_run:
  "looks_like (st_snapshot st) d \<Longrightarrow> keys_distinct (st_snapshot st) \<Longrightarrow> \<forall>u \<in> fst ` set ms. sound_update u \<Longrightarrow>
   looks_like (st_snapshot (foldl stream_step st (received ms))) (replay d ms)
   \<and> keys_distinct (st_snapshot (foldl stream_step st (received ms)))"
proof (induction ms arbitrary: st d)
  case (Cons m ms)
  obtain u t where m: "m = (u, t)" by force
  with hook_step [OF Cons.prems(1,2), of u t] Cons.prems(3)
    Cons.IH [of "stream_step st (Sse_Message (Some u) t)" "applyUpdate d u t"]
  show ?case by (simp del: stream_step.simps)
qed simp

lemma hook_follows_replay:
  assumes "\<forall>u \<in> fst ` set ms. sound_update u"
  shows "looks_like (st_snapshot (foldl stream_step initial_stream (Sse_Open # received ms))) (replay initialSnapshot ms)"
  using hook_run [of "stream_step initial_stream Sse_Open" initialSnapshot ms] assms
  by (simp add: initial_stream_def looks_like_def keys_distinct_def initialSnapshot_def)

lemma looks_like_keys:
  assumes "looks_like a b" "replica s b"
  shows "sn_serviceId ` set (ts_nodes a) = fst ` set (services s)" "dashEdgeKey ` set (ts_edges a) = fst ` set (edges s)"
proof -
  have "map sn_serviceId (ts_nodes b) = map fst (services s)" "map dashEdgeKey (ts_edges b) = map fst (edges s)"
    using assms(2) by (auto simp: replica_def dest: follows_keys)
  then have "sn_serviceId ` set (ts_nodes b) = fst ` set (services s)" "dashEdgeKey ` set (ts_edges b) = fst ` set (edges s)"
    by (metis list.set_map)+
  with looks_like_ids [OF assms(1)] assms(1)
  show "sn_serviceId ` set (ts_nodes a) = fst ` set (services s)" "dashEdgeKey ` set (ts_edges a) = fst ` set (edges s)"
    by (simp_all add: looks_like_def)
qed

end
