(* ===== verification/Redelivery.thy ===== *)
theory Redelivery
  imports Dashboard_Hook
begin

text \<open>
  A dashboard may be sent updates that its snapshot contains already.  Every update either leaves the
  entry of a service or of an edge alone or determines it, whatever was there before; so updates that
  come a second time do no harm, except that the order of the lists may change.
\<close>

subsection \<open>Parts of a snapshot\<close>

definition nodes_at :: "string \<Rightarrow> topology_snapshot \<Rightarrow> service_node set" where
  "nodes_at i d = {n \<in> set (ts_nodes d). sn_serviceId n = i}"

definition edges_at :: "string \<Rightarrow> string \<Rightarrow> topology_snapshot \<Rightarrow> service_edge set" where
  "edges_at a b d = {e \<in> set (ts_edges d). se_sourceServiceId e = a \<and> se_targetService e = b}"

text \<open>A function leaves a part alone or determines it.\<close>

definition settles :: "(topology_snapshot \<Rightarrow> 'a) \<Rightarrow> (topology_snapshot \<Rightarrow> topology_snapshot) \<Rightarrow> bool" where
  "settles part f \<longleftrightarrow> (\<forall>d. part (f d) = part d) \<or> (\<exists>v. \<forall>d. part (f d) = v)"

lemma keepsI: "(\<And>d. part (f d) = part d) \<Longrightarrow> settles part f"
  by (simp add: settles_def)

lemma determinesI: "(\<And>d. part (f d) = v) \<Longrightarrow> settles part f"
  by (auto simp: settles_def)

lemma settles_comp: "settles part f \<Longrightarrow> settles part g \<Longrightarrow> settles part (\<lambda>d. g (f d))"
  unfolding settles_def by metis

lemma settles_run:
  assumes "\<And>u t. settles part (\<lambda>d. applyUpdate d u t)"
  shows "settles part (\<lambda>d. foldl apply_message d ms)"
proof (induction ms)
  case (Cons m ms)
  have "settles part (\<lambda>d. apply_message d m)" using assms by (cases m) simp
  from settles_comp [OF this Cons.IH] show ?case by simp
qed (simp add: settles_def)

text \<open>What each kind of update does to a part.\<close>

definition node_update :: "topology_update \<Rightarrow> service_node option" where
  "node_update u = (if tu_type u \<in> {UPDATE_TYPE_NODE_REMOVED, UPDATE_TYPE_NODE_ADDED, UPDATE_TYPE_NODE_UPDATED} then tu_node u else None)"

lemma applyUpdate_settles_nodes: "settles (nodes_at i) (\<lambda>d. applyUpdate d u t)"
proof (cases "tu_type u = UPDATE_TYPE_SNAPSHOT \<and> tu_snapshot u \<noteq> None")
  case True
  then show ?thesis by (intro determinesI) (simp add: applyUpdate_def)
next
  case False
  show ?thesis
  proof (cases "\<exists>n. node_update u = Some n \<and> sn_serviceId n = i")
    case True
    then obtain n where "node_update u = Some n" "sn_serviceId n = i" by blast
    with False show ?thesis
      by (intro determinesI [where v = "if tu_type u = UPDATE_TYPE_NODE_REMOVED then {} else {n}"])
        (auto simp: applyUpdate_def node_update_def nodes_at_def set_put_by split: if_splits)
  next
    case other: False
    with False show ?thesis
      by (intro keepsI)
        (auto simp: applyUpdate_def apply_edge_part_def node_update_def nodes_at_def set_put_by split: if_splits option.split)
  qed
qed

lemma edge_part_settles: "settles (edges_at a b) (\<lambda>d. apply_edge_part d u t)"
proof (cases "tu_edge u")
  case (Some e)
  show ?thesis
  proof (cases "dashEdgeKey e = edge_key_of a b \<and>
      tu_type u \<in> {UPDATE_TYPE_EDGE_REMOVED, UPDATE_TYPE_EDGE_ADDED, UPDATE_TYPE_EDGE_UPDATED}")
    case True
    with Some show ?thesis
      by (intro determinesI [where v = "if tu_type u = UPDATE_TYPE_EDGE_REMOVED then {}
            else {x. x = e \<and> se_sourceServiceId e = a \<and> se_targetService e = b}"])
        (auto simp: apply_edge_part_def edges_at_def set_put_by dashEdgeKey_def)
  next
    case False
    with Some show ?thesis
      by (intro keepsI) (auto simp: apply_edge_part_def edges_at_def set_put_by dashEdgeKey_def)
  qed
qed (intro keepsI, simp add: apply_edge_part_def)

lemma applyUpdate_settles_edges: "settles (edges_at a b) (\<lambda>d. applyUpdate d u t)"
proof (cases "tu_type u = UPDATE_TYPE_SNAPSHOT \<and> tu_snapshot u \<noteq> None")
  case True
  then show ?thesis by (intro determinesI) (simp add: applyUpdate_def)
next
  case False
  show ?thesis
  proof (cases "node_update u")
    case None
    with False have "applyUpdate d u t = apply_edge_part d u t" for d
      by (auto simp: applyUpdate_def node_update_def split: if_splits option.split)
    then show ?thesis using edge_part_settles by simp
  next
    case (Some n)
    show ?thesis
    proof (cases "tu_type u = UPDATE_TYPE_NODE_REMOVED \<and> (sn_serviceId n = a \<or> sn_serviceName n = b)")
      case True
      with False Some show ?thesis
        by (intro determinesI [where v = "{}"]) (auto simp: applyUpdate_def node_update_def edges_at_def removeNode_def)
    next
      case other: False
      with False Some show ?thesis
        by (intro keepsI) (auto simp: applyUpdate_def node_update_def edges_at_def removeNode_def split: if_splits)
    qed
  qed
qed

text \<open>
  A copy starts from \<open>d\<close> and is then sent \<open>bs\<close>, which begins with updates that \<open>d\<close> contains already:
  the updates \<open>as @ bs\<close> lead from \<open>d0\<close> to the present store, and so does the end of \<open>bs\<close> from \<open>d\<close>.
\<close>

lemma settled_by_either:
  assumes "\<And>u t. settles part (\<lambda>d. applyUpdate d u t)"
  shows "part (foldl apply_message d bs) = part (foldl apply_message d (drop n bs))
    \<or> part (foldl apply_message d bs) = part (foldl apply_message d0 (as @ bs))"
proof -
  have "foldl apply_message e bs = foldl apply_message (foldl apply_message e (take n bs)) (drop n bs)" for e
    by (metis append_take_drop_id foldl_append)
  moreover note settles_run [OF assms, of bs] settles_run [OF assms, of "drop n bs"]
  ultimately show ?thesis unfolding settles_def by (metis foldl_append)
qed

subsection \<open>Copies up to order\<close>

definition mirrors :: "topology_store \<Rightarrow> topology_snapshot \<Rightarrow> bool" where
  "mirrors s d \<longleftrightarrow>
     fst ` set (services s) = sn_serviceId ` set (ts_nodes d) \<and>
     (\<forall>n \<in> set (ts_nodes d). \<exists>r. (sn_serviceId n, r) \<in> set (services s) \<and> node_sim r n) \<and>
     fst ` set (edges s) = dashEdgeKey ` set (ts_edges d) \<and>
     (\<forall>e \<in> set (ts_edges d). \<exists>er. (dashEdgeKey e, er) \<in> set (edges s) \<and> edge_sim er e)"

lemma follows_items:
  "follows R key m xs \<Longrightarrow> x \<in> set xs \<Longrightarrow> \<exists>a. (key x, a) \<in> set m \<and> R a x"
  "follows R key m xs \<Longrightarrow> (k, a) \<in> set m \<Longrightarrow> \<exists>x \<in> set xs. key x = k \<and> R a x"
proof (induction m arbitrary: xs)
  case (Cons p m)
  { case 1 with Cons.IH(1) show ?case by (cases p) (fastforce simp: follows_Cons) }
  { case 2 with Cons.IH(2) show ?case by (cases p) (fastforce simp: follows_Cons) }
qed (simp_all add: follows_def)

lemma nodes_by_parts:
  assumes "\<And>i. \<exists>e. replica s e \<and> nodes_at i d = nodes_at i e"
  shows "n \<in> set (ts_nodes d) \<Longrightarrow> \<exists>r. (sn_serviceId n, r) \<in> set (services s) \<and> node_sim r n"
    and "(k, r) \<in> set (services s) \<Longrightarrow> \<exists>n \<in> set (ts_nodes d). sn_serviceId n = k"
proof -
  assume n: "n \<in> set (ts_nodes d)"
  obtain e where e: "replica s e" "nodes_at (sn_serviceId n) d = nodes_at (sn_serviceId n) e" using assms by blast
  from n have "n \<in> nodes_at (sn_serviceId n) e" unfolding e(2) [symmetric] by (simp add: nodes_at_def)
  then show "\<exists>r. (sn_serviceId n, r) \<in> set (services s) \<and> node_sim r n"
    using e(1) follows_items(1) by (fastforce simp: replica_def nodes_at_def)
next
  assume r: "(k, r) \<in> set (services s)"
  obtain e where e: "replica s e" "nodes_at k d = nodes_at k e" using assms by blast
  from e(1) have "follows node_sim sn_serviceId (services s) (ts_nodes e)" by (simp add: replica_def)
  from follows_items(2) [OF this r] obtain n where "n \<in> set (ts_nodes e)" "sn_serviceId n = k" by blast
  then have "n \<in> nodes_at k d" unfolding e(2) by (simp add: nodes_at_def)
  then show "\<exists>n \<in> set (ts_nodes d). sn_serviceId n = k" by (auto simp: nodes_at_def)
qed

lemma edges_by_parts:
  assumes "\<And>a b. \<exists>e. replica s e \<and> edges_at a b d = edges_at a b e"
  shows "x \<in> set (ts_edges d) \<Longrightarrow> \<exists>er. (dashEdgeKey x, er) \<in> set (edges s) \<and> edge_sim er x"
    and "(k, er) \<in> set (edges s) \<Longrightarrow> \<exists>x \<in> set (ts_edges d). dashEdgeKey x = k"
proof -
  assume x: "x \<in> set (ts_edges d)"
  obtain e where e: "replica s e" "edges_at (se_sourceServiceId x) (se_targetService x) d =
      edges_at (se_sourceServiceId x) (se_targetService x) e" using assms by blast
  from x have "x \<in> edges_at (se_sourceServiceId x) (se_targetService x) e" unfolding e(2) [symmetric] by (simp add: edges_at_def)
  then show "\<exists>er. (dashEdgeKey x, er) \<in> set (edges s) \<and> edge_sim er x"
    using e(1) follows_items(1) by (fastforce simp: replica_def edges_at_def)
next
  assume er: "(k, er) \<in> set (edges s)"
  obtain e0 where "replica s e0" using assms by blast
  then have "follows edge_sim dashEdgeKey (edges s) (ts_edges e0)" by (simp add: replica_def)
  from follows_items(2) [OF this er] obtain x0 where x0: "dashEdgeKey x0 = k" "edge_sim er x0" by blast
  let ?a = "se_sourceServiceId (er_edge er)" and ?b = "se_targetService (er_edge er)"
  have k: "edge_key_of ?a ?b = k" using x0 edge_sim_ends [OF x0(2)] by (simp add: dashEdgeKey_def)
  obtain e where e: "replica s e" "edges_at ?a ?b d = edges_at ?a ?b e" using assms by blast
  from e(1) have "follows edge_sim dashEdgeKey (edges s) (ts_edges e)" by (simp add: replica_def)
  from follows_items(2) [OF this er] obtain x where x: "x \<in> set (ts_edges e)" "edge_sim er x" by blast
  then have "x \<in> edges_at ?a ?b d" unfolding e(2) using edge_sim_ends [OF x(2)] by (simp add: edges_at_def)
  then have "x \<in> set (ts_edges d)" "dashEdgeKey x = edge_key_of ?a ?b" by (simp_all add: edges_at_def dashEdgeKey_def)
  with k show "\<exists>x \<in> set (ts_edges d). dashEdgeKey x = k" by blast
qed

lemma mirrors_by_parts:
  assumes "\<And>i. \<exists>e. replica s e \<and> nodes_at i d = nodes_at i e" "\<And>a b. \<exists>e. replica s e \<and> edges_at a b d = edges_at a b e"
  shows "mirrors s d"
  unfolding mirrors_def
  using nodes_by_parts [OF assms(1)] edges_by_parts [OF assms(2)] by (auto simp: image_iff) (metis fst_conv)+

text \<open>
  What was promised: of \<open>bs\<close> the first \<open>n\<close> updates are contained in the snapshot \<open>d\<close> already.
\<close>

theorem redelivery_is_harmless:
  assumes "replica s (foldl apply_message d (drop n bs))" "replica s (foldl apply_message d0 (as @ bs))"
  shows "mirrors s (foldl apply_message d bs)"
proof (rule mirrors_by_parts)
  show "\<exists>e. replica s e \<and> nodes_at i (foldl apply_message d bs) = nodes_at i e" for i
    using settled_by_either [OF applyUpdate_settles_nodes, of i d bs n d0 as] assms by blast
  show "\<exists>e. replica s e \<and> edges_at a b (foldl apply_message d bs) = edges_at a b e" for a b
    using settled_by_either [OF applyUpdate_settles_edges, of a b d bs n d0 as] assms by blast
qed

text \<open>What looks like a mirror of the store has the keys of the store.\<close>

lemma looks_like_mirror_keys:
  assumes "looks_like a b" "mirrors s b"
  shows "sn_serviceId ` set (ts_nodes a) = fst ` set (services s)" "dashEdgeKey ` set (ts_edges a) = fst ` set (edges s)"
  using looks_like_ids [OF assms(1)] assms by (auto simp: mirrors_def looks_like_def)

end
