(* ===== verification/Dashboard_Pages.thy ===== *)
theory Dashboard_Pages
  imports Dashboard_View
begin

text \<open>
  The pages of the dashboard (\<open>apps/dashboard/src/App.tsx\<close>) as what can be read on them, from top to
  bottom: texts, badges, the status pill, cards, tables, the graph and the links of the navigation.
  The boxes that arrange them and their styling are left out.
\<close>

text \<open>What the browser contributes: local times and numbers, and the order of \<open>localeCompare\<close>.\<close>

record browser =
  br_time :: "int \<Rightarrow> string"
  br_number :: "nat \<Rightarrow> string"
  br_rank :: "string \<Rightarrow> nat"

datatype block =
    Heading string
  | Paragraph string
  | Badge_Text string
  | Status_Pill connection_status
  | Stat_Card string string string
  | Services_Table "service_row list"
  | Connections_Table "connection_row list"
  | Graph_Of topology_snapshot
  | Nav_Link string string bool

type_synonym page = "block list"

definition services_table :: "browser \<Rightarrow> topology_snapshot \<Rightarrow> block" where
  "services_table b snap = Services_Table (ServicesTable (br_time b) (br_rank b) (ts_nodes snap))"

definition connections_table :: "browser \<Rightarrow> topology_snapshot \<Rightarrow> block" where
  "connections_table b snap = Connections_Table (ConnectionsTable (br_rank b) (ts_edges snap))"

definition StatCard :: "string \<times> string \<times> string \<Rightarrow> block" where
  "StatCard stat = (case stat of (label, val, hint) \<Rightarrow> Stat_Card label val hint)"

definition renderOverview :: "browser \<Rightarrow> stream_state \<Rightarrow> page" where
  "renderOverview b st =
     [Paragraph ''Runtime Overview'', Heading ''Live Topology Snapshot'',
      Paragraph ''Consolidated health indicators, the live graph, and quick runtime tables in one glance.'',
      Status_Pill (st_status st)] @
     map StatCard (overviewStats (br_time b) (br_number b) st) @
     [Heading ''Topology Graph'', Badge_Text ''Live layout'', Graph_Of (st_snapshot st),
      Heading ''Services'', Badge_Text (string_of_nat (length (ts_nodes (st_snapshot st)))), services_table b (st_snapshot st),
      Heading ''Connections'', Badge_Text (string_of_nat (length (ts_edges (st_snapshot st)))),
      connections_table b (st_snapshot st)]"

definition renderTopology :: "stream_state \<Rightarrow> page" where
  "renderTopology st =
     [Heading ''Topology Graph'', Paragraph ''Interactive routing map with state-driven styling.'',
      Status_Pill (st_status st), Graph_Of (st_snapshot st)]"

definition renderServices :: "browser \<Rightarrow> stream_state \<Rightarrow> page" where
  "renderServices b st =
     [Heading ''Services'', Paragraph ''Registered services, heartbeats, and runtime metadata.'',
      Badge_Text (string_of_nat (length (ts_nodes (st_snapshot st))) @ '' total''), services_table b (st_snapshot st)]"

definition renderConnections :: "browser \<Rightarrow> stream_state \<Rightarrow> page" where
  "renderConnections b st =
     [Heading ''Connections'', Paragraph ''Live edges, throughput, and latency signals.'',
      Badge_Text (string_of_nat (length (ts_edges (st_snapshot st))) @ '' total''), connections_table b (st_snapshot st)]"

definition renderStream :: "browser \<Rightarrow> string \<Rightarrow> stream_state \<Rightarrow> page" where
  "renderStream b streamUrl st =
     [Heading ''Topology Stream'', Paragraph ''Connection details and last snapshot timestamps.'',
      Status_Pill (st_status st), Paragraph ''Stream URL'', Paragraph streamUrl,
      Paragraph ''Live SSE endpoint configured by the runtime client.'', Paragraph ''Update Cadence'',
      Paragraph (''Last update at '' @ formatTimestamp (br_time b) (lastUpdate st)),
      Paragraph (''Snapshot timestamp: '' @ formatTimestamp (br_time b) (ts_timestampMs (st_snapshot st))),
      Heading ''Recent Activity'', Badge_Text (''Status '' @ status_text (st_status st)),
      Paragraph (''Last event timestamp: '' @ formatTimestamp (br_time b) (st_lastEventMs st))]"

definition renderView :: "browser \<Rightarrow> string \<Rightarrow> dashboard_view \<Rightarrow> stream_state \<Rightarrow> page" where
  "renderView b streamUrl activeView st =
     (case activeView of
        Topology_View \<Rightarrow> renderTopology st
      | Services_View \<Rightarrow> renderServices b st
      | Connections_View \<Rightarrow> renderConnections b st
      | Stream_View \<Rightarrow> renderStream b streamUrl st
      | Overview \<Rightarrow> renderOverview b st)"

subsection \<open>The frame\<close>

definition shell_header :: "browser \<Rightarrow> dashboard_app \<Rightarrow> stream_state \<Rightarrow> page" where
  "shell_header b a st =
     [Paragraph ''Modular Runtime'', Heading ''Runtime Dashboard'', Paragraph ''Last update'',
      Paragraph (formatTimestamp (br_time b) (lastUpdate st)), Paragraph (if da_dark a then ''Dark'' else ''Light''),
      Status_Pill (st_status st)]"

fun view_id :: "dashboard_view \<Rightarrow> string" where
  "view_id Overview = ''overview''"
| "view_id Topology_View = ''topology''"
| "view_id Services_View = ''services''"
| "view_id Connections_View = ''connections''"
| "view_id Stream_View = ''stream''"

definition shell_navbar :: "browser \<Rightarrow> string \<Rightarrow> dashboard_app \<Rightarrow> stream_state \<Rightarrow> page" where
  "shell_navbar b streamUrl a st =
     [Paragraph ''Views''] @
     map (\<lambda>(i, label, description). Nav_Link label description (view_id (da_activeView a) = i)) (navItems (st_snapshot st)) @
     [Paragraph ''Topology Stream'', Paragraph streamUrl, Paragraph ''Live feed endpoint for topology updates.'',
      Status_Pill (st_status st), Paragraph (''Updated '' @ formatTimestamp (br_time b) (lastUpdate st))]"

definition App_page :: "browser \<Rightarrow> string \<Rightarrow> dashboard_app \<Rightarrow> stream_state \<Rightarrow> page" where
  "App_page b streamUrl a st =
     shell_header b a st @ shell_navbar b streamUrl a st @ renderView b streamUrl (da_activeView a) st"

subsection \<open>What can be read\<close>

definition service_keys :: "page \<Rightarrow> string list" where
  "service_keys p = concat (map (\<lambda>x. case x of Services_Table rows \<Rightarrow> map sw_key rows | _ \<Rightarrow> []) p)"

definition connection_keys :: "page \<Rightarrow> string list" where
  "connection_keys p = concat (map (\<lambda>x. case x of Connections_Table rows \<Rightarrow> map cr_key rows | _ \<Rightarrow> []) p)"

definition active_links :: "page \<Rightarrow> string list" where
  "active_links p = concat (map (\<lambda>x. case x of Nav_Link label d active \<Rightarrow> (if active then [label] else []) | _ \<Rightarrow> []) p)"

lemmas page_defs = App_page_def shell_header_def shell_navbar_def renderView_def renderOverview_def renderTopology_def
  renderServices_def renderConnections_def renderStream_def services_table_def connections_table_def StatCard_def
  overviewStats_def navItems_def NAV_ITEMS_def

text \<open>Which tables a page has.\<close>

lemma page_service_keys:
  "service_keys (App_page b url a st) =
     (if da_activeView a = Overview \<or> da_activeView a = Services_View
      then map sw_key (ServicesTable (br_time b) (br_rank b) (ts_nodes (st_snapshot st))) else [])"
  by (cases "da_activeView a") (simp_all add: service_keys_def page_defs)

lemma page_connection_keys:
  "connection_keys (App_page b url a st) =
     (if da_activeView a = Overview \<or> da_activeView a = Connections_View
      then map cr_key (ConnectionsTable (br_rank b) (ts_edges (st_snapshot st))) else [])"
  by (cases "da_activeView a") (simp_all add: connection_keys_def page_defs)

text \<open>Exactly the link of the page that is shown is marked, on every page, and a click leads there.\<close>

lemma one_active_link:
  "active_links (App_page b url a st) =
     [case da_activeView a of Overview \<Rightarrow> ''Overview'' | Topology_View \<Rightarrow> ''Topology'' | Services_View \<Rightarrow> ''Services''
        | Connections_View \<Rightarrow> ''Connections'' | Stream_View \<Rightarrow> ''Stream'']"
  by (cases "da_activeView a") (simp_all add: active_links_def page_defs)

end
