(* ===== verification/Topology_System.thy ===== *)
theory Topology_System
  imports Topology_Properties Sse_Proxy Redelivery Dashboard_Pages
begin

text \<open>
  From the store to the screen: the topology service, the watch stream that the SSE proxy holds, the
  proxy's connections to dashboards, and the hook and pages of one dashboard.  The watch stream
  delivers in order; a dashboard may connect at any time.  The snapshot that the proxy requests for a
  new dashboard is made when the service answers and arrives later; updates go on in between.  The
  streams stay connected here: what the parts do when one is lost is the subject of their own theories.
\<close>

record topology_system =
  tp_service :: service_state
  tp_proxy :: sse_proxy
  tp_read :: nat
  tp_replies :: "nat \<Rightarrow> topology_snapshot option"

text \<open>
  A call or a timer of the service; the proxy receives the next update of its watch stream, which is
  the service's stream 0; a dashboard connects, the service answers the request for its snapshot, the
  answer arrives, or an error instead of it; the dashboard leaves.
\<close>

datatype topology_event =
    Serves throws service_event
  | Delivers
  | Connects nat
  | Answers nat int
  | Fetches nat
  | Fails nat
  | Leaves nat

text \<open>The proxy has opened its watch stream, which the service has answered with a snapshot.\<close>

definition new_system :: "store_options \<Rightarrow> int \<Rightarrow> int \<Rightarrow> topology_system" where
  "new_system options t now =
     \<lparr>tp_service = fst (service_step (\<lambda>w u. False) (initial_service options t) (Call_Watch now)), tp_proxy = new_sse, tp_read = 0,
      tp_replies = (\<lambda>c. None)\<rparr>"

definition deliver_next :: "topology_system \<Rightarrow> topology_system" where
  "deliver_next s =
     (if tp_read s < length (sv_sent (tp_service s) 0)
      then s\<lparr>tp_proxy := sse_step (tp_proxy s) (Watch_Data 0 (Some (sv_sent (tp_service s) 0 ! tp_read s))), tp_read := tp_read s + 1\<rparr>
      else s)"

fun topology_step :: "topology_system \<Rightarrow> topology_event \<Rightarrow> topology_system" where
  "topology_step s (Serves throws e) = s\<lparr>tp_service := fst (service_step throws (tp_service s) e)\<rparr>"
| "topology_step s Delivers = deliver_next s"
| "topology_step s (Connects c) = s\<lparr>tp_proxy := sse_step (tp_proxy s) (Sse_Request c ''/events'')\<rparr>"
| "topology_step s (Answers c now) =
     (if c \<in> set (ss_fetching (tp_proxy s)) \<and> tp_replies s c = None
      then s\<lparr>tp_replies := (tp_replies s)(c := Some (snapshot (sv_store (tp_service s)) now))\<rparr> else s)"
| "topology_step s (Fetches c) =
     (case tp_replies s c of
        None \<Rightarrow> s
      | Some snap \<Rightarrow>
          s\<lparr>tp_proxy := sse_step (tp_proxy s) (Snapshot_Fetched c (Some snap)), tp_replies := (tp_replies s)(c := None)\<rparr>)"
| "topology_step s (Fails c) =
     s\<lparr>tp_proxy := sse_step (tp_proxy s) (Snapshot_Fetched c None), tp_replies := (tp_replies s)(c := None)\<rparr>"
| "topology_step s (Leaves c) = s\<lparr>tp_proxy := sse_step (tp_proxy s) (Connection_Closed c)\<rparr>"

text \<open>Events that are not about the dashboard \<open>c\<close>.\<close>

fun about :: "nat \<Rightarrow> topology_event \<Rightarrow> bool" where
  "about c (Connects d) = (d = c)"
| "about c (Answers d now) = (d = c)"
| "about c (Fetches d) = (d = c)"
| "about c (Fails d) = (d = c)"
| "about c (Leaves d) = (d = c)"
| "about c e = False"

text \<open>The updates a dashboard has been sent, and whether everything written has been delivered.\<close>

definition updates_of :: "sse_output list \<Rightarrow> topology_update list" where
  "updates_of out = concat (map (\<lambda>x. case x of Event u \<Rightarrow> [u] | _ \<Rightarrow> []) out)"

definition drained :: "topology_system \<Rightarrow> bool" where
  "drained s \<longleftrightarrow> tp_read s = length (sv_sent (tp_service s) 0)"

text \<open>The hook of a dashboard after it has received these, at these times.\<close>

definition dashboard_state :: "(topology_update \<times> int) list \<Rightarrow> stream_state" where
  "dashboard_state ms = foldl stream_step initial_stream (Sse_Open # received ms)"

lemma updates_of_simps [simp]:
  "updates_of [] = []" "updates_of (out @ out') = updates_of out @ updates_of out'" "updates_of [Event u] = [u]"
  "updates_of [Head, Retry] = []"
  by (simp_all add: updates_of_def)

lemma updates_of_events [simp]: "updates_of (map Event us) = us"
  by (induction us) (simp_all add: updates_of_def)

subsection \<open>What a watched stream is sent\<close>

lemma watcher_was_there:
  assumes "service_inv st" "w < sv_nextStream st" "w \<in> set (sv_watchers (fst (service_step throws st e)))"
  shows "w \<in> set (sv_watchers st)"
proof -
  have b: "set (sv_watchers (fst (on_store throws ev st))) \<subseteq> set (sv_watchers st)" for ev
    using assms(1) broadcast_parts [of "st\<lparr>sv_store := fst (store_step (sv_store st) ev)\<rparr>"]
    by (auto simp: on_store_def case_prod_beta Let_def service_inv_def)
  show ?thesis
    using assms(2,3) b by (cases e) (auto simp: case_prod_beta Let_def split: if_splits)
qed

lemma on_store_sent:
  assumes "service_inv st"
  shows "sv_sent (fst (on_store throws ev st)) w =
      (if w \<in> set (sv_watchers st) then sv_sent st w @ fst (write_all throws w (snd (store_step (sv_store st) ev))) else sv_sent st w)"
    and "sv_watchers (fst (on_store throws ev st)) =
      filter (\<lambda>w. snd (write_all throws w (snd (store_step (sv_store st) ev)))) (sv_watchers st)"
    and "sv_nextStream (fst (on_store throws ev st)) = sv_nextStream st"
  using assms broadcast_parts [of "st\<lparr>sv_store := fst (store_step (sv_store st) ev)\<rparr>"]
  by (simp_all add: on_store_def case_prod_beta Let_def service_inv_def)

text \<open>The store operation behind an event of the service.\<close>

fun store_part :: "service_event \<Rightarrow> store_event option" where
  "store_part (Call_Register request i now) = Some (Ev_Register request i now)"
| "store_part (Data_Heartbeat request now) = Some (Ev_Heartbeat request now)"
| "store_part (Data_Activity call event now) = Some (Ev_Activity event now)"
| "store_part (Call_Unregister i) = Some (Ev_Unregister i)"
| "store_part (Timer_Sweep now) = Some (Ev_Sweep now)"
| "store_part (Timer_Flush now) = Some (Ev_Flush now)"
| "store_part e = None"

lemma service_step_store:
  "store_part e = Some ev \<Longrightarrow>
   sv_store (fst (service_step throws st e)) = sv_store (fst (on_store throws ev st)) \<and>
   sv_sent (fst (service_step throws st e)) = sv_sent (fst (on_store throws ev st)) \<and>
   sv_watchers (fst (service_step throws st e)) = sv_watchers (fst (on_store throws ev st)) \<and>
   sv_nextStream (fst (service_step throws st e)) = sv_nextStream (fst (on_store throws ev st))"
  by (cases e) (auto simp: case_prod_beta Let_def)

lemma service_step_aside:
  "store_part e = None \<Longrightarrow>
   sv_store (fst (service_step throws st e)) = sv_store st \<and>
   sv_nextStream st \<le> sv_nextStream (fst (service_step throws st e)) \<and>
   (sv_sent (fst (service_step throws st e)) w = sv_sent st w \<or>
    w = sv_nextStream st \<and> (\<exists>now. sv_sent (fst (service_step throws st e)) w = sv_sent st w @ [snapshot_message (snapshot (sv_store st) now)]))"
  by (cases e) (auto simp: Let_def)

lemma sent_stays_in_step:
  assumes inv: "service_inv st" and w: "w < sv_nextStream st" "w \<in> set (sv_watchers (fst (service_step throws st e)))"
  shows "\<exists>us. sv_sent (fst (service_step throws st e)) w = sv_sent st w @ us \<and>
    (\<forall>d log. caught_up replica apply_message d (sv_store st) log \<longrightarrow>
       caught_up replica apply_message d (sv_store (fst (service_step throws st e))) (log @ us))"
proof (cases "store_part e")
  case None
  with service_step_aside [OF None, of throws st w] w(1) show ?thesis by auto
next
  case (Some ev)
  note s = service_step_store [OF Some, of throws st]
  have w0: "w \<in> set (sv_watchers st)" using watcher_was_there [OF inv w] .
  let ?us = "snd (store_step (sv_store st) ev)"
  have "snd (write_all throws w ?us)" using w(2) s on_store_sent(2) [OF inv] by simp
  then have "sv_sent (fst (service_step throws st e)) w = sv_sent st w @ ?us"
    using w0 s on_store_sent(1) [OF inv] write_all_ok by simp
  moreover have "caught_up replica apply_message d (sv_store (fst (service_step throws st e))) (log @ ?us)"
    if "caught_up replica apply_message d (sv_store st) log" for d log
    using topo.caught_up_step [OF _ that, of ev] inv s on_store_parts(1) [OF inv] by (simp add: service_inv_def)
  ultimately show ?thesis by blast
qed

text \<open>Only snapshots with distinct keys are sent.\<close>

definition sent_sound :: "service_state \<Rightarrow> bool" where
  "sent_sound st \<longleftrightarrow> (\<forall>w. list_all sound_update (sv_sent st w))"

lemma snapshot_keys_distinct: "store_inv s \<Longrightarrow> keys_distinct (snapshot s now)"
proof -
  assume inv: "store_inv s"
  then have "map sn_serviceId (ts_nodes (snapshot s now)) = map fst (services s)"
    "map dashEdgeKey (ts_edges (snapshot s now)) = map fst (edges s)"
    using snapshot_replica [OF inv, of now] by (auto simp: replica_def dest: follows_keys)
  with inv show ?thesis by (simp add: keys_distinct_def store_inv_def)
qed

lemma sound_snapshot: "store_inv s \<Longrightarrow> sound_update (snapshot_message (snapshot s now))"
  by (simp add: sound_update_def snapshot_message_def snapshot_keys_distinct)

lemma sent_sound_step:
  assumes inv: "service_inv st" and "sent_sound st"
  shows "sent_sound (fst (service_step throws st e))"
proof (cases "store_part e")
  case None
  have "store_inv (sv_store st)" using inv by (simp add: service_inv_def)
  note snap = sound_snapshot [OF this]
  have "list_all sound_update (sv_sent (fst (service_step throws st e)) w)" for w
    using service_step_aside [OF None, of throws st w] assms(2) snap unfolding sent_sound_def
    by (elim conjE disjE exE) (simp_all add: list_all_append)
  then show ?thesis by (simp add: sent_sound_def)
next
  case (Some ev)
  have "list_all sound_update (fst (write_all throws w (snd (store_step (sv_store st) ev))))" for w
  proof -
    let ?us = "snd (store_step (sv_store st) ev)"
    obtain rest where "?us = fst (write_all throws w ?us) @ rest" using write_all_prefix by blast
    then have sub: "set (fst (write_all throws w ?us)) \<subseteq> set ?us" by (metis Un_upper1 set_append)
    have "sound_update u" if "u \<in> set ?us" for u using store_step_not_snapshot [OF that] by (simp add: sound_update_def)
    with sub show ?thesis unfolding list_all_iff by blast
  qed
  with assms(2) show ?thesis
    using service_step_store [OF Some, of throws st] on_store_sent(1) [OF inv, of throws ev]
    by (simp add: sent_sound_def)
qed


lemma sent_grows:
  assumes "service_inv st"
  shows "\<exists>us. sv_sent (fst (service_step throws st e)) w = sv_sent st w @ us"
proof (cases "store_part e")
  case None
  with service_step_aside [OF None, of throws st w] show ?thesis by auto
next
  case (Some ev)
  with service_step_store [OF Some, of throws st] on_store_sent(1) [OF assms, of throws ev w] show ?thesis by simp
qed

lemma next_stream_grows: "service_inv st \<Longrightarrow> sv_nextStream st \<le> sv_nextStream (fst (service_step throws st e))"
  using service_step_aside [of e throws st] service_step_store [of e _ throws st] on_store_sent(3) [of st throws]
  by (cases "store_part e") auto

subsection \<open>The whole system\<close>

definition system_ok :: "topology_system \<Rightarrow> bool" where
  "system_ok s \<longleftrightarrow> service_inv (tp_service s) \<and> sent_sound (tp_service s) \<and> 0 < sv_nextStream (tp_service s) \<and>
     served (tp_service s) 0 \<and>
     ss_streams (tp_proxy s) = [0] \<and> \<not> ss_isStopping (tp_proxy s) \<and> tp_read s \<le> length (sv_sent (tp_service s) 0)"

lemma proxy_stays_connected:
  "ss_streams (sse_step p (Sse_Request c url)) = ss_streams p" "ss_isStopping (sse_step p (Sse_Request c url)) = ss_isStopping p"
  "ss_streams (sse_step p (Snapshot_Fetched c r)) = ss_streams p" "ss_isStopping (sse_step p (Snapshot_Fetched c r)) = ss_isStopping p"
  "ss_streams (sse_step p (Connection_Closed c)) = ss_streams p" "ss_isStopping (sse_step p (Connection_Closed c)) = ss_isStopping p"
  "ss_streams (sse_step p (Watch_Data n u)) = ss_streams p" "ss_isStopping (sse_step p (Watch_Data n u)) = ss_isStopping p"
  by (simp_all add: handleSse_def snapshot_fetched_def connection_closed_def handleStreamData_def sse_broadcast_def send_all_simps
      Let_def split: option.split)

lemma new_system_ok: "system_ok (new_system options t now)"
proof -
  let ?st = "fst (service_step (\<lambda>w u. False) (initial_service options t) (Call_Watch now))"
  have "sent_sound (initial_service options t)" by (simp add: sent_sound_def initial_service_def)
  then have "service_inv ?st" "sent_sound ?st"
    using service_step_inv [OF initial_service_inv] sent_sound_step [OF initial_service_inv] by blast+
  moreover have "served ?st 0" "0 < sv_nextStream ?st"
    by (simp_all add: served_def is_snapshot_def message_defs initial_service_def Let_def)
  ultimately show ?thesis
    by (simp add: system_ok_def new_system_def new_sse_def startWatchStream_def del: service_step.simps)
qed

text \<open>Which part an event changes.\<close>

lemma step_parts:
  "tp_service (topology_step s e) = (case e of Serves throws se \<Rightarrow> fst (service_step throws (tp_service s) se) | _ \<Rightarrow> tp_service s)"
  "tp_read (topology_step s e) =
     (if e = Delivers \<and> tp_read s < length (sv_sent (tp_service s) 0) then tp_read s + 1 else tp_read s)"
  by (cases e; simp add: deliver_next_def split: option.split)+

interpretation whole_system: reactive topology_step system_ok
proof
  fix s e
  assume ok: "system_ok s"
  show "system_ok (topology_step s e)"
  proof (cases e)
    case (Serves throws se)
    have inv: "service_inv (tp_service s)" using ok by (simp add: system_ok_def)
    from sent_grows [OF inv, of throws se 0] obtain us
      where us: "sv_sent (fst (service_step throws (tp_service s) se)) 0 = sv_sent (tp_service s) 0 @ us" by blast
    with ok have "served (fst (service_step throws (tp_service s) se)) 0" by (auto simp: system_ok_def served_def)
    with us next_stream_grows [OF inv, of throws se] service_step_inv sent_sound_step ok Serves
    show ?thesis by (auto simp: system_ok_def)
  qed (use ok in \<open>simp_all add: system_ok_def deliver_next_def proxy_stays_connected split: option.split del: sse_step.simps\<close>)
qed

text \<open>A snapshot that has the effect of the first \<open>k\<close> updates of the stream.\<close>

definition contains :: "topology_snapshot \<Rightarrow> nat \<Rightarrow> topology_system \<Rightarrow> bool" where
  "contains snap k s \<longleftrightarrow> k \<le> length (sv_sent (tp_service s) 0) \<and> sound_update (snapshot_message snap) \<and>
     (0 \<in> set (sv_watchers (tp_service s)) \<longrightarrow>
        caught_up replica apply_message snap (sv_store (tp_service s)) (drop k (sv_sent (tp_service s) 0)))"

lemma contains_now:
  assumes "system_ok s"
  shows "contains (snapshot (sv_store (tp_service s)) now) (length (sv_sent (tp_service s) 0)) s"
proof -
  have "store_inv (sv_store (tp_service s))" using assms by (simp add: system_ok_def service_inv_def)
  then show ?thesis by (simp add: contains_def sound_snapshot caught_up_def snapshot_replica)
qed

lemma contains_step:
  assumes ok: "system_ok s" and c: "contains snap k s"
  shows "contains snap k (topology_step s e)"
proof (cases e)
  case (Serves throws se)
  let ?st = "tp_service s" and ?st' = "fst (service_step throws (tp_service s) se)"
  have inv: "service_inv ?st" and w: "0 < sv_nextStream ?st" using ok by (simp_all add: system_ok_def)
  obtain us where us: "sv_sent ?st' 0 = sv_sent ?st 0 @ us" using sent_grows [OF inv] by blast
  have k: "k \<le> length (sv_sent ?st 0)" using c by (simp add: contains_def)
  have "caught_up replica apply_message snap (sv_store ?st') (drop k (sv_sent ?st' 0))" if w': "0 \<in> set (sv_watchers ?st')"
  proof -
    from sent_stays_in_step [OF inv w w'] obtain vs where vs: "sv_sent ?st' 0 = sv_sent ?st 0 @ vs"
      "\<And>d log. caught_up replica apply_message d (sv_store ?st) log \<Longrightarrow> caught_up replica apply_message d (sv_store ?st') (log @ vs)"
      by blast
    have "caught_up replica apply_message snap (sv_store ?st) (drop k (sv_sent ?st 0))"
      using c watcher_was_there [OF inv w w'] by (simp add: contains_def)
    from vs(2) [OF this] show ?thesis using k by (simp add: vs(1))
  qed
  with Serves c us k show ?thesis by (simp add: contains_def)
qed (use c in \<open>simp_all add: contains_def step_parts del: topology_step.simps\<close>)

subsection \<open>One dashboard\<close>

text \<open>Before it connects, until its snapshot is made, until that arrives, and after.\<close>

definition absent :: "nat \<Rightarrow> topology_system \<Rightarrow> bool" where
  "absent c s \<longleftrightarrow> c \<notin> set (ss_listeners (tp_proxy s)) \<and> ss_sent (tp_proxy s) c = [] \<and> tp_replies s c = None"

definition waiting :: "nat \<Rightarrow> topology_snapshot option \<Rightarrow> topology_system \<Rightarrow> bool" where
  "waiting c reply s \<longleftrightarrow> listening c (tp_proxy s) \<and> c \<in> set (ss_fetching (tp_proxy s)) \<and> tp_replies s c = reply \<and>
     list_all sound_update (updates_of (ss_sent (tp_proxy s) c))"

text \<open>It has the snapshot \<open>snap\<close> and every update from number \<open>n\<close> on that the proxy has received.\<close>

definition following :: "nat \<Rightarrow> topology_snapshot \<Rightarrow> nat \<Rightarrow> topology_system \<Rightarrow> bool" where
  "following c snap n s \<longleftrightarrow> listening c (tp_proxy s) \<and> n \<le> tp_read s \<and>
     list_all sound_update (updates_of (ss_sent (tp_proxy s) c)) \<and>
     (\<exists>before. updates_of (ss_sent (tp_proxy s) c) =
        before @ [snapshot_message snap] @ take (tp_read s - n) (drop n (sv_sent (tp_service s) 0)))"

lemma elsewhere_steps:
  "d \<noteq> c \<Longrightarrow> elsewhere c (Sse_Request d url)" "d \<noteq> c \<Longrightarrow> elsewhere c (Snapshot_Fetched d r)"
  "d \<noteq> c \<Longrightarrow> elsewhere c (Connection_Closed d)" "elsewhere c (Watch_Data n u)"
  by simp_all

text \<open>What an event elsewhere does to a connection of the proxy.\<close>

lemma connection_step:
  assumes "system_ok s" "\<not> about c e" "listening c (tp_proxy s)"
  shows "listening c (tp_proxy (topology_step s e)) \<and>
    updates_of (ss_sent (tp_proxy (topology_step s e)) c) = updates_of (ss_sent (tp_proxy s) c) @
      (if e = Delivers \<and> tp_read s < length (sv_sent (tp_service s) 0) then [sv_sent (tp_service s) 0 ! tp_read s] else [])"
proof (cases e)
  case Delivers
  have "0 \<in> set (ss_streams (tp_proxy s))" using assms(1) by (simp add: system_ok_def)
  with Delivers listening_step [OF assms(3) elsewhere_steps(4), of 0 "Some (sv_sent (tp_service s) 0 ! tp_read s)"] assms(3)
  show ?thesis by (auto simp: deliver_next_def simp del: sse_step.simps)
next
  case (Connects d)
  with listening_step [OF assms(3) elsewhere_steps(1)] assms(2) show ?thesis by (simp del: sse_step.simps)
next
  case (Fetches d)
  with listening_step [OF assms(3) elsewhere_steps(2)] assms(2,3) show ?thesis by (simp del: sse_step.simps split: option.split)
next
  case (Fails d)
  with listening_step [OF assms(3) elsewhere_steps(2)] assms(2) show ?thesis by (simp del: sse_step.simps)
next
  case (Leaves d)
  with listening_step [OF assms(3) elsewhere_steps(3)] assms(2) show ?thesis by (simp del: sse_step.simps)
qed (use assms in simp_all)

lemma sent_nth_sound:
  "system_ok s \<Longrightarrow> tp_read s < length (sv_sent (tp_service s) 0) \<Longrightarrow> sound_update (sv_sent (tp_service s) 0 ! tp_read s)"
  by (auto simp: system_ok_def sent_sound_def list_all_length)

lemma fetching_kept:
  "c \<in> set (ss_fetching (tp_proxy s)) \<Longrightarrow> \<not> about c e \<Longrightarrow> c \<in> set (ss_fetching (tp_proxy (topology_step s e)))"
  by (cases e) (auto simp: deliver_next_def handleSse_def snapshot_fetched_def connection_closed_def handleStreamData_def
      sse_broadcast_def send_all_simps Let_def split: option.split)

lemma reply_kept: "\<not> about c e \<Longrightarrow> tp_replies (topology_step s e) c = tp_replies s c"
  by (cases e) (auto simp: deliver_next_def split: option.split)

lemma dashboard_waiting_step: "system_ok s \<Longrightarrow> waiting c reply s \<Longrightarrow> \<not> about c e \<Longrightarrow> waiting c reply (topology_step s e)"
  using connection_step [of s c e] fetching_kept [of c s e] sent_nth_sound [of s] reply_kept [of c e s]
  by (auto simp: waiting_def simp del: topology_step.simps)

lemma dashboard_absent_step: "absent c s \<Longrightarrow> \<not> about c e \<Longrightarrow> absent c (topology_step s e)"
  by (cases e) (auto simp: absent_def deliver_next_def handleSse_def snapshot_fetched_def connection_closed_def
      handleStreamData_def sse_broadcast_def send_all_simps Let_def split: option.split)

lemma following_step:
  assumes ok: "system_ok s" and f: "following c snap n s" and e: "\<not> about c e"
  shows "following c snap n (topology_step s e)"
proof (cases "e = Delivers \<and> tp_read s < length (sv_sent (tp_service s) 0)")
  case True
  let ?xs = "sv_sent (tp_service s) 0"
  have t: "take (Suc (tp_read s) - n) (drop n ?xs) = take (tp_read s - n) (drop n ?xs) @ [?xs ! tp_read s]"
  proof -
    have n: "n \<le> tp_read s" using f by (simp add: following_def)
    then have "tp_read s - n < length (drop n ?xs)" using conjunct2 [OF True] by (simp add: diff_less_mono)
    moreover have "drop n ?xs ! (tp_read s - n) = ?xs ! tp_read s" using n True by simp
    ultimately show ?thesis using take_Suc_conv_app_nth [of "tp_read s - n" "drop n ?xs"] n by (simp add: Suc_diff_le)
  qed
  have p: "tp_service (topology_step s e) = tp_service s" "tp_read (topology_step s e) = Suc (tp_read s)"
    using True by (simp_all add: step_parts del: topology_step.simps)
  show ?thesis
    using f connection_step [OF ok e] sent_nth_sound [OF ok] True t
    unfolding following_def p by (auto simp del: topology_step.simps)
next
  case False
  have r: "tp_read (topology_step s e) = tp_read s" using False by (auto simp: step_parts simp del: topology_step.simps)
  have "\<exists>us. sv_sent (tp_service (topology_step s e)) 0 = sv_sent (tp_service s) 0 @ us"
    using sent_grows [of "tp_service s"] ok by (cases e) (auto simp: step_parts system_ok_def simp del: topology_step.simps)
  then obtain us where us: "sv_sent (tp_service (topology_step s e)) 0 = sv_sent (tp_service s) 0 @ us" by blast
  have "tp_read s \<le> length (sv_sent (tp_service s) 0)" "n \<le> tp_read s" using ok f by (simp_all add: system_ok_def following_def)
  then have "take (tp_read s - n) (drop n (sv_sent (tp_service (topology_step s e)) 0)) = take (tp_read s - n) (drop n (sv_sent (tp_service s) 0))"
    by (simp add: us)
  with f connection_step [OF ok e] False show ?thesis
    unfolding following_def r by (auto simp del: topology_step.simps)
qed

text \<open>The steps of a run.\<close>

lemma system_runs:
  assumes "system_ok s" "\<forall>e \<in> set es. \<not> about c e"
  shows "system_ok (foldl topology_step s es)"
    and "absent c s \<Longrightarrow> absent c (foldl topology_step s es)"
    and "waiting c reply s \<Longrightarrow> waiting c reply (foldl topology_step s es)"
    and "following c snap n s \<Longrightarrow> following c snap n (foldl topology_step s es)"
    and "contains snap k s \<Longrightarrow> contains snap k (foldl topology_step s es)"
proof -
  show "system_ok (foldl topology_step s es)" using assms(1) by (rule whole_system.inv_run)
  have "system_ok s \<Longrightarrow> \<forall>e \<in> set es. \<not> about c e \<Longrightarrow>
      (absent c s \<longrightarrow> absent c (foldl topology_step s es)) \<and>
      (waiting c reply s \<longrightarrow> waiting c reply (foldl topology_step s es)) \<and>
      (following c snap n s \<longrightarrow> following c snap n (foldl topology_step s es)) \<and>
      (contains snap k s \<longrightarrow> contains snap k (foldl topology_step s es))" for s
  proof (induction es arbitrary: s)
    case (Cons e es)
    have "system_ok (topology_step s e)" using Cons.prems(1) by (rule whole_system.inv_step)
    with Cons.IH [of "topology_step s e"] Cons.prems dashboard_absent_step [of c s e] dashboard_waiting_step [of s c reply e]
      following_step [of s c snap n e] contains_step [of s snap k e]
    show ?case by (simp del: topology_step.simps)
  qed simp
  with assms show "absent c s \<Longrightarrow> absent c (foldl topology_step s es)"
    "waiting c reply s \<Longrightarrow> waiting c reply (foldl topology_step s es)"
    "following c snap n s \<Longrightarrow> following c snap n (foldl topology_step s es)"
    "contains snap k s \<Longrightarrow> contains snap k (foldl topology_step s es)" by blast+
qed

lemma connected:
  assumes "system_ok s" "absent c s"
  shows "waiting c None (topology_step s (Connects c))"
proof -
  have "count_list (xs @ [c]) c = 1" if "c \<notin> set xs" for xs :: "nat list" using that by (induction xs) auto
  with assms show ?thesis
    by (simp add: waiting_def listening_def absent_def system_ok_def handleSse_def Let_def)
qed

lemma answered:
  "waiting c None s \<Longrightarrow> waiting c (Some (snapshot (sv_store (tp_service s)) now)) (topology_step s (Answers c now))"
  by (simp add: waiting_def)

lemma fetched:
  assumes w: "waiting c (Some snap) s" and snap: "sound_update (snapshot_message snap)"
  shows "following c snap (tp_read s) (topology_step s (Fetches c))"
proof -
  have "snapshot_update snap = snapshot_message snap" by (simp add: snapshot_update_def snapshot_message_def)
  with w snap show ?thesis
    by (auto simp: following_def waiting_def listening_def snapshot_fetched_def Let_def)
qed

text \<open>When everything has arrived, and no update overtook the snapshot.\<close>

lemma following_drained:
  assumes ok: "system_ok s" and f: "following c snap n s" and k: "contains snap k s" "n \<le> k"
    and d: "drained s" and w: "0 \<in> set (sv_watchers (tp_service s))"
    and ms: "map fst ms = updates_of (ss_sent (tp_proxy s) c)"
  shows "mirrors (sv_store (tp_service s)) (replay initialSnapshot ms)" "\<forall>u \<in> fst ` set ms. sound_update u"
proof -
  let ?xs = "sv_sent (tp_service s) 0"
  obtain before where u: "updates_of (ss_sent (tp_proxy s) c) = before @ [snapshot_message snap] @ drop n ?xs"
    using f d by (auto simp: following_def drained_def)
  then obtain as t bs where m: "ms = as @ [(snapshot_message snap, t)] @ bs" "map fst bs = drop n ?xs"
    using ms by (auto simp: map_eq_append_conv)
  have "map fst (drop (k - n) bs) = drop k ?xs" using k(2) by (simp add: drop_map [symmetric] m(2))
  then have 1: "replica (sv_store (tp_service s)) (foldl apply_message snap (drop (k - n) bs))"
    using k(1) w by (simp add: contains_def caught_up_def)
  have "caught_up replica apply_message initialSnapshot (sv_store (tp_service s)) ?xs"
    using ok w by (simp add: system_ok_def service_inv_def)
  moreover have "map fst (map (\<lambda>u. (u, 0 :: int)) (take n ?xs) @ bs) = ?xs" by (simp add: m(2) comp_def)
  ultimately have 2: "replica (sv_store (tp_service s)) (foldl apply_message initialSnapshot (map (\<lambda>u. (u, 0 :: int)) (take n ?xs) @ bs))"
    unfolding caught_up_def by blast
  from redelivery_is_harmless [OF 1 2] show "mirrors (sv_store (tp_service s)) (replay initialSnapshot ms)"
    by (simp add: m(1) replay_def)
  have "set (map fst ms) = set (updates_of (ss_sent (tp_proxy s) c))" using ms by simp
  with f show "\<forall>u \<in> fst ` set ms. sound_update u" by (auto simp: following_def list_all_iff)
qed

text \<open>C1.
  From the store to the screen: take a dashboard that connects at any time.  The service makes its
  snapshot at some later time, the snapshot arrives at some time after that, and no update that the
  service wrote after it had made the snapshot overtakes the snapshot.  Whatever else happens before,
  in between and afterwards, and whichever other dashboards come and go: whenever everything that the
  service has written on the watch stream has arrived and the stream is still watched, the dashboard's
  copy has the services and edges of the store, each with its fields up to unpublished clocks and
  activity, and its pages list exactly the registered services and exactly the edges of the store.\<close>

theorem dashboards_show_the_store:
  assumes "\<forall>e \<in> set (before @ es @ gs @ fs). \<not> about c e"
    and "s1 = foldl topology_step (new_system options t0 t1) (before @ [Connects c] @ es)"
    and "s2 = foldl topology_step s1 (Answers c now # gs)"
    and "tp_read s2 \<le> length (sv_sent (tp_service s1) 0)"
    and "s = foldl topology_step s2 (Fetches c # fs)"
    and "drained s" "0 \<in> set (sv_watchers (tp_service s))" "map fst ms = updates_of (ss_sent (tp_proxy s) c)"
  shows "mirrors (sv_store (tp_service s)) (replay initialSnapshot ms)
    \<and> set (service_keys (App_page b url (app_step a (Navigate Services_View)) (dashboard_state ms))) =
        fst ` set (services (sv_store (tp_service s)))
    \<and> set (connection_keys (App_page b url (app_step a (Navigate Connections_View)) (dashboard_state ms))) =
        fst ` set (edges (sv_store (tp_service s)))"
proof -
  let ?s0 = "new_system options t0 t1"
  let ?b = "foldl topology_step ?s0 before"
  let ?snap = "snapshot (sv_store (tp_service s1)) now" and ?k = "length (sv_sent (tp_service s1) 0)"
  have quiet: "\<forall>e \<in> set before. \<not> about c e" "\<forall>e \<in> set es. \<not> about c e" "\<forall>e \<in> set gs. \<not> about c e" "\<forall>e \<in> set fs. \<not> about c e"
    using assms(1) by auto
  have "absent c ?s0" by (simp add: absent_def new_system_def new_sse_def startWatchStream_def)
  then have b: "system_ok ?b" "absent c ?b" using system_runs(1,2) [OF new_system_ok quiet(1)] by blast+
  have s1: "s1 = foldl topology_step (topology_step ?b (Connects c)) es" by (simp add: assms(2) del: topology_step.simps)
  have c1: "system_ok (topology_step ?b (Connects c))" using b(1) by (rule whole_system.inv_step)
  have ok1: "system_ok s1" and w1: "waiting c None s1"
    using system_runs(1,3) [OF c1 quiet(2)] connected [OF b] unfolding s1 by blast+
  let ?a = "topology_step s1 (Answers c now)"
  have a: "system_ok ?a" using ok1 by (rule whole_system.inv_step)
  have s2: "s2 = foldl topology_step ?a gs" by (simp add: assms(3) del: topology_step.simps)
  have ok2: "system_ok s2" and w2: "waiting c (Some ?snap) s2" and k2: "contains ?snap ?k s2"
    using system_runs(1,3,5) [OF a quiet(3)] answered [OF w1, of now] contains_step [OF ok1 contains_now [OF ok1]] unfolding s2 by blast+
  let ?f = "topology_step s2 (Fetches c)"
  have f: "system_ok ?f" using ok2 by (rule whole_system.inv_step)
  have s: "s = foldl topology_step ?f fs" by (simp add: assms(5) del: topology_step.simps)
  have "sound_update (snapshot_message ?snap)" using k2 by (simp add: contains_def)
  from fetched [OF w2 this] have ok: "system_ok s" and fo: "following c ?snap (tp_read s2) s" and k: "contains ?snap ?k s"
    using system_runs(1,4,5) [OF f quiet(4)] contains_step [OF ok2 k2] unfolding s by blast+
  note r = following_drained [OF ok fo k assms(4,6-8)]
  note h = hook_follows_replay [OF r(2), folded dashboard_state_def]
  show ?thesis
    using r(1) looks_like_mirror_keys [OF h r(1)]
    by (simp add: page_service_keys page_connection_keys tables_show_everything(1,3) [unfolded list.set_map])
qed

definition sample_run :: "topology_event list" where
  "sample_run = [Serves all_writes (Call_Register (sample_register ''A'') ''a'' 10), Connects 8, Delivers,
     Serves all_writes (Data_Activity 0 (sample_call ''a'' ''B'' 7 2) 30), Delivers, Delivers]"

theorem dashboards_show_the_store_witness:
  "\<exists>s. s = foldl topology_step (new_system sample_options 0 0)
      ([Delivers, Connects 7, Serves all_writes (Call_Register (sample_register ''C'') ''c'' 4), Answers 7 5, Delivers, Fetches 7] @ sample_run)
    \<and> set (service_keys (App_page \<lparr>br_time = (\<lambda>t. []), br_number = (\<lambda>n. []), br_rank = (\<lambda>s. 0)\<rparr> ''/events''
        (app_step (new_app True) (Navigate Services_View))
        (dashboard_state (map (\<lambda>u. (u, 9)) (updates_of (ss_sent (tp_proxy s) 7)))))) = {''a'', ''c''}"
proof -
  let ?register = "Serves all_writes (Call_Register (sample_register ''C'') ''c'' 4)"
  let ?s1 = "foldl topology_step (new_system sample_options 0 0) ([Delivers] @ [Connects 7] @ [?register])"
  let ?s2 = "foldl topology_step ?s1 (Answers 7 5 # [Delivers])"
  let ?s = "foldl topology_step ?s2 (Fetches 7 # sample_run)"
  let ?ms = "map (\<lambda>u. (u, 9 :: int)) (updates_of (ss_sent (tp_proxy ?s) 7))"
  have "tp_read ?s2 \<le> length (sv_sent (tp_service ?s1) 0)" "drained ?s"
    "0 \<in> set (sv_watchers (tp_service ?s))" "fst ` set (services (sv_store (tp_service ?s))) = {''a'', ''c''}"
    by code_simp+
  moreover have "map fst ?ms = updates_of (ss_sent (tp_proxy ?s) 7)" by (simp add: comp_def)
  moreover have "\<forall>e \<in> set ([Delivers] @ [?register] @ [Delivers] @ sample_run). \<not> about 7 e" by (simp add: sample_run_def)
  ultimately show ?thesis
    using dashboards_show_the_store [of "[Delivers]" "[?register]" "[Delivers]" sample_run 7 ?s1 sample_options 0 0 ?s2 5 ?s ?ms
        "\<lparr>br_time = (\<lambda>t. []), br_number = (\<lambda>n. []), br_rank = (\<lambda>s. 0)\<rparr>" "''/events''" "new_app True"]
    by simp
qed

text \<open>The condition is needed: an update that overtakes the snapshot is taken back by it, and the
  dashboard does not show a service that is registered.\<close>

definition overtaking_run :: "topology_event list" where
  "overtaking_run = [Delivers, Connects 7, Answers 7 5, Serves all_writes (Call_Register (sample_register ''C'') ''c'' 6), Delivers, Fetches 7]"

lemma overtaken_snapshot_hides_a_service:
  "let s = foldl topology_step (new_system sample_options 0 0) overtaking_run in
     drained s \<and> map fst (services (sv_store (tp_service s))) = [''c'']
     \<and> ts_nodes (replay initialSnapshot (map (\<lambda>u. (u, 9)) (updates_of (ss_sent (tp_proxy s) 7)))) = []"
  by code_simp

end
