(* ===== verification/Metrics_Example.thy ===== *)
theory Metrics_Example
  imports Ingest Pipeline_Services Pipeline_Metrics
begin

text \<open>
  The instrumented client of the ingest service (\<open>packages/pipeline-common/src/metrics-example.ts\<close>): it
  writes its events to a temporary file, has the service stream that file, measures each message and
  gives back the sums.  With the ingest service of \<open>Ingest\<close> at the other end it counts every event.
\<close>

subsection \<open>The file\<close>

definition event_file :: "js_library \<Rightarrow> json list \<Rightarrow> string" where
  "event_file lib events =
     (let payload = join_with [CHR 10] (map (lib_stringify lib) events)
      in if length payload > 0 then payload @ [CHR 10] else [])"

text \<open>What \<open>readline\<close> makes of the contents of a file: the service reads it line by line.\<close>

fun reader_lines :: "string \<Rightarrow> string list" where
  "reader_lines [] = []"
| "reader_lines [c] = (if c = CHR 10 \<or> c = CHR 13 then [[]] else [[c]])"
| "reader_lines (c # d # s) =
     (if c = CHR 13 \<and> d = CHR 10 then [] # reader_lines s
      else if c = CHR 10 \<or> c = CHR 13 then [] # reader_lines (d # s)
      else (case reader_lines (d # s) of [] \<Rightarrow> [[c]] | w # ws \<Rightarrow> (c # w) # ws))"

definition example_request :: "string \<Rightarrow> json list \<Rightarrow> ingest_request" where
  "example_request tempFile events =
     \<lparr>iq_inputFile = tempFile, iq_batchSize = Finite 1, iq_maxEvents = string_of_int (int (length events)),
      iq_enableBatching = Some False, iq_workloadMode = Some EVENTS,
      iq_workloadConfig = Some \<lparr>wc_workRatio = 0, wc_payloadSize = MEDIUM, wc_computeIterations = Finite 0\<rparr>\<rparr>"

subsection \<open>The client\<close>

text \<open>
  \<open>xe_file\<close> is the temporary file while it exists, \<open>xe_result\<close> how the promise was settled.  An exception
  in the listener for data is caught by nobody.
\<close>

record metrics_example =
  xe_metrics :: service_times
  xe_file :: "string option"
  xe_result :: "(string + metrics_snapshot) option"
  xe_crashed :: bool

datatype example_event =
    Example_Data "raw_event option" "rat \<times> rat" "rat \<times> rat"
  | Example_End
  | Example_Error string

text \<open>Up to the wait for the stream; the readings of the clock are those around the call of \<open>streamEvents\<close>.\<close>

definition start_example :: "js_library \<Rightarrow> json list \<Rightarrow> rat \<times> rat \<Rightarrow> metrics_example" where
  "start_example lib events sending =
     \<lparr>xe_metrics = recordSend (fst sending) (snd sending) (new_collector ''ingest-service''),
      xe_file = Some (event_file lib events), xe_result = None, xe_crashed = False\<rparr>"

definition example_data ::
  "js_library \<Rightarrow> raw_event option \<Rightarrow> rat \<times> rat \<Rightarrow> rat \<times> rat \<Rightarrow> metrics_example \<Rightarrow> metrics_example" where
  "example_data lib response receiving processing s =
     (let s = s\<lparr>xe_metrics := recordRecvEnd (fst receiving) (snd receiving) (xe_metrics s)\<rparr>
      in case response of
           None \<Rightarrow> s
         | Some event \<Rightarrow>
             if ev_rawJson event = [] then s
             else (case lib_parse lib (ev_rawJson event) of
                     None \<Rightarrow> s\<lparr>xe_crashed := True\<rparr>
                   | Some v \<Rightarrow> s\<lparr>xe_metrics := recordProcessing (fst processing) (snd processing) (xe_metrics s)\<rparr>))"

text \<open>The promise of \<open>consumeStream\<close> is settled once, and the file is removed either way.\<close>

definition settle_example :: "string option \<Rightarrow> metrics_example \<Rightarrow> metrics_example" where
  "settle_example error s =
     (if xe_result s \<noteq> None then s
      else s\<lparr>xe_file := None,
             xe_result := Some (case error of Some message \<Rightarrow> Inl message | None \<Rightarrow> Inr (getMetrics (xe_metrics s)))\<rparr>)"

fun example_event_step :: "js_library \<Rightarrow> metrics_example \<Rightarrow> example_event \<Rightarrow> metrics_example" where
  "example_event_step lib s (Example_Data response receiving processing) = example_data lib response receiving processing s"
| "example_event_step lib s Example_End = settle_example None s"
| "example_event_step lib s (Example_Error message) = settle_example (Some message) s"

definition example_step :: "js_library \<Rightarrow> metrics_example \<Rightarrow> example_event \<Rightarrow> metrics_example" where
  "example_step lib s e = (if xe_crashed s then s else example_event_step lib s e)"

text \<open>The handler class of the same file answers a call with one message.\<close>

definition handleIngest ::
  "js_library \<Rightarrow> ingest_request \<Rightarrow> rat \<times> rat \<Rightarrow> rat \<times> rat \<Rightarrow> rat \<times> rat \<Rightarrow> service_times \<Rightarrow> service_times \<times> raw_event list" where
  "handleIngest lib request receiving processing sending m =
     (let m = recordRecvEnd (fst receiving) (snd receiving) m;
          response = \<lparr>ev_rawJson = lib_stringify lib (JObj [(''inputFile'', JStr (iq_inputFile request))]), ev_sequence = ''0''\<rparr>;
          m = recordProcessing (fst processing) (snd processing) m;
          m = recordSend (fst sending) (snd sending) m
      in (m, [response]))"

subsection \<open>Reading back what was written\<close>

lemma reader_lines_line:
  "CHR 10 \<notin> set t \<Longrightarrow> CHR 13 \<notin> set t \<Longrightarrow> reader_lines (t @ CHR 10 # s) = t # reader_lines s"
proof (induction t)
  case Nil
  show ?case by (cases s) simp_all
next
  case (Cons c t)
  obtain d u where u: "t @ CHR 10 # s = d # u" by (cases t) auto
  from Cons have "reader_lines (d # u) = t # reader_lines s" by (simp add: u [symmetric])
  with Cons.prems show ?case by (auto simp: u)
qed

lemma reader_lines_file:
  assumes "\<forall>t \<in> set ts. CHR 10 \<notin> set t \<and> CHR 13 \<notin> set t" "ts \<noteq> []"
  shows "reader_lines (join_with [CHR 10] ts @ [CHR 10]) = ts"
  using assms
proof (induction ts rule: induct_list012)
  case (2 s)
  then show ?case by (simp add: reader_lines_line)
next
  case (3 s t ts)
  then have "reader_lines (join_with [CHR 10] (t # ts) @ [CHR 10]) = t # ts" by simp
  with 3 show ?case by (simp add: reader_lines_line del: reader_lines.simps)
qed simp

text \<open>A text that can stand on one line of the file and is read back as JSON.\<close>

definition one_line :: "js_library \<Rightarrow> string \<Rightarrow> bool" where
  "one_line lib t \<longleftrightarrow> t \<noteq> [] \<and> CHR 10 \<notin> set t \<and> CHR 13 \<notin> set t \<and> lib_parse lib t \<noteq> None"

lemma event_file_lines:
  assumes "\<forall>e \<in> set events. one_line lib (lib_stringify lib e)"
  shows "reader_lines (event_file lib events) = map (lib_stringify lib) events"
proof (cases events)
  case (Cons e es)
  have "join_with [CHR 10] (map (lib_stringify lib) events) \<noteq> []"
    using assms by (cases es) (auto simp: Cons one_line_def)
  with reader_lines_file [of "map (lib_stringify lib) events"] assms Cons show ?thesis
    by (simp add: event_file_def one_line_def)
qed (simp add: event_file_def)

text \<open>The service streams all of the lines, because the maximum is their number.\<close>

lemma example_lines_taken:
  assumes "map lr_line ls = map (lib_stringify lib) events" "\<forall>l \<in> set ls. \<not> lr_cancelled l" "length events \<le> 2 ^ 53"
  shows "lines_taken (example_request tempFile events) 0 ls = map (lib_stringify lib) events"
proof -
  have len: "length ls = length events" using assms(1) by (metis length_map)
  have all: "takeWhile (\<lambda>l. \<not> lr_cancelled l) ls = ls" using assms(2) by (simp add: takeWhile_eq_all_conv)
  have b: "\<bar>int (length events)\<bar> \<le> 2 ^ 53" using assms(3) by simp
  show ?thesis
  proof (cases "events = []")
    case False
    have "parseMaxEvents (string_of_int (int (length events))) = Finite (of_nat (length events))"
      using False Number_of_string_of_int [OF b] by (simp add: parseMaxEvents_def trunc_def)
    moreover have "take (length events) (map (lib_stringify lib) events) = map (lib_stringify lib) events" by simp
    ultimately show ?thesis unfolding lines_taken_def all assms(1) by (simp add: example_request_def)
  qed (use assms(1) in \<open>simp add: lines_taken_def split: js_number.split\<close>)
qed

lemma example_counts:
  assumes "list_all2 (\<lambda>e t. \<exists>q c d. e = Example_Data (Some \<lparr>ev_rawJson = t, ev_sequence = q\<rparr>) c d) es ts"
    "\<forall>t \<in> set ts. one_line lib t" "\<not> xe_crashed s" "xe_result s = None"
  shows "(let t = foldl (example_step lib) s es in
    \<not> xe_crashed t \<and> xe_result t = None \<and> mt_eventsProcessed (xe_metrics t) = mt_eventsProcessed (xe_metrics s) + int (length ts))"
  using assms
proof (induction es ts arbitrary: s rule: list_all2_induct)
  case (Cons e es t ts)
  let ?s = "example_step lib s e"
  obtain v where v: "t \<noteq> []" "lib_parse lib t = Some v" using Cons.prems(1) by (auto simp: one_line_def)
  from Cons.hyps(1) obtain q c d where e: "e = Example_Data (Some \<lparr>ev_rawJson = t, ev_sequence = q\<rparr>) c d" by blast
  have s: "\<not> xe_crashed ?s" "xe_result ?s = None" "mt_eventsProcessed (xe_metrics ?s) = mt_eventsProcessed (xe_metrics s) + 1"
    using v Cons.prems by (simp_all add: e example_step_def example_data_def recordProcessing_def recordRecvEnd_def Let_def)
  have "\<forall>t \<in> set ts. one_line lib t" using Cons.prems(1) by simp
  from Cons.IH [OF this s(1,2)] s(3) show ?case by (simp add: Let_def)
qed simp

lemma numbered_data:
  "list_all2 (\<lambda>e m. \<exists>c d. e = Example_Data (Some m) c d) es (numbered_from n ts) \<Longrightarrow>
   list_all2 (\<lambda>e t. \<exists>q c d. e = Example_Data (Some \<lparr>ev_rawJson = t, ev_sequence = q\<rparr>) c d) es ts"
proof (induction ts arbitrary: n es)
  case (Cons t ts)
  then show ?case by (cases es) (auto 0 3)
qed simp

text \<open>
  The instrumented client and the ingest service together: when the events are written as texts that
  fit on a line, the call is not cancelled and its messages arrive, then the client's promise is
  fulfilled with metrics that count every event exactly once, and the temporary file is gone; when the
  stream fails at some point, the promise is rejected and the file is gone as well.\<close>

theorem example_counts_every_event:
  assumes "\<forall>e \<in> set events. one_line lib (lib_stringify lib e)" "length events \<le> 2 ^ 53"
    and "xe_file (start_example lib events sending) = Some contents" "map lr_line ls = reader_lines contents"
    and "\<forall>l \<in> set ls. \<not> lr_cancelled l"
    and "list_all2 (\<lambda>e m. \<exists>c d. e = Example_Data (Some m) c d) es
      (in_sent (run_events (example_request tempFile events) now ls streamed))"
  shows "(let s = foldl (example_step lib) (start_example lib events sending) (es @ [Example_End]) in
      \<not> xe_crashed s \<and> xe_file s = None
      \<and> (\<exists>m. xe_result s = Some (Inr m) \<and> ms_eventsProcessed m = int (length events)))
    \<and> (let s = foldl (example_step lib) (start_example lib events sending) (take n es @ [Example_Error message]) in
      \<not> xe_crashed s \<and> xe_file s = None \<and> xe_result s = Some (Inl message))"
proof -
  let ?s0 = "start_example lib events sending"
  let ?ts = "map (lib_stringify lib) events"
  have "map lr_line ls = ?ts" using assms(3,4) event_file_lines [OF assms(1)] by (simp add: start_example_def)
  then have sent: "in_sent (run_events (example_request tempFile events) now ls streamed) = numbered_from 0 ?ts"
    by (simp only: run_events_sent example_lines_taken [OF _ assms(5,2)])
  from assms(6) have "list_all2 (\<lambda>e m. \<exists>c d. e = Example_Data (Some m) c d) es (numbered_from 0 ?ts)" by (simp only: sent)
  then have l: "list_all2 (\<lambda>e t. \<exists>q c d. e = Example_Data (Some \<lparr>ev_rawJson = t, ev_sequence = q\<rparr>) c d) es ?ts"
    by (rule numbered_data)
  have t: "\<forall>t \<in> set ?ts. one_line lib t" using assms(1) by simp
  have s0: "\<not> xe_crashed ?s0" "xe_result ?s0 = None" "mt_eventsProcessed (xe_metrics ?s0) = 0"
    by (simp_all add: start_example_def recordSend_def new_collector_def)
  have "\<forall>t \<in> set (take n ?ts). one_line lib t" by (rule ballI, drule in_set_takeD) (use t in blast)
  note part = example_counts [OF list_all2_takeI [OF l] this s0(1,2), unfolded Let_def]
  note whole = example_counts [OF l t s0(1,2), unfolded Let_def]
  show ?thesis
    using part whole s0(3) by (simp add: Let_def example_step_def settle_example_def getMetrics_def)
qed

definition braces_library :: js_library where
  "braces_library = \<lparr>lib_parse = (\<lambda>s. Some (JObj [])), lib_stringify = (\<lambda>v. ''{}''), lib_date = (\<lambda>s. None), lib_print = (\<lambda>q. [])\<rparr>"

definition one_message :: "example_event list" where
  "one_message = [Example_Data (Some \<lparr>ev_rawJson = ''{}'', ev_sequence = ''0''\<rparr>) (1, 2) (2, 5)]"

theorem example_counts_every_event_witness:
  "\<exists>m. xe_result (foldl (example_step braces_library) (start_example braces_library [JObj []] (0, 1)) (one_message @ [Example_End])) =
      Some (Inr m) \<and> ms_eventsProcessed m = 1"
proof -
  let ?ls = "[\<lparr>lr_line = ''{}'', lr_cancelled = False, lr_now = 0, lr_later = 0\<rparr>]"
  have e: "\<forall>e \<in> set [JObj []]. one_line braces_library (lib_stringify braces_library e)"
    by (simp add: one_line_def braces_library_def)
  have f: "map lr_line ?ls = reader_lines (event_file braces_library [JObj []])"
    using event_file_lines [OF e] by (simp add: braces_library_def)
  have "map lr_line ?ls = map (lib_stringify braces_library) [JObj []]" by (simp add: braces_library_def)
  then have "lines_taken (example_request ''t'' [JObj []]) 0 ?ls = map (lib_stringify braces_library) [JObj []]"
    by (rule example_lines_taken) simp_all
  then have "in_sent (run_events (example_request ''t'' [JObj []]) 0 ?ls 0) = [\<lparr>ev_rawJson = ''{}'', ev_sequence = string_of_int 0\<rparr>]"
    by (simp add: run_events_sent braces_library_def)
  moreover have "string_of_int 0 = ''0''" by code_simp
  ultimately have m: "list_all2 (\<lambda>e m. \<exists>c d. e = Example_Data (Some m) c d) one_message
      (in_sent (run_events (example_request ''t'' [JObj []]) 0 ?ls 0))"
    by (simp add: one_message_def)
  from example_counts_every_event [OF e _ _ f _ m, of "(0, 1)"] show ?thesis
    by (simp add: start_example_def Let_def)
qed

end
