(* ===== verification/Repository_Tests.thy ===== *)
theory Repository_Tests
  imports Topology_Store Pipeline_Services Generator
begin

text \<open>
  The test suites of the repository, evaluated on the model: every expectation of
  \<open>topology-store.test.ts\<close>, \<open>aggregate.test.ts\<close>, \<open>parse.test.ts\<close>, \<open>rules.test.ts\<close> and
  \<open>generator.test.ts\<close> is a lemma.  They fix nothing that the other theories use; they show that the
  definitions behave as the code is tested to behave.
\<close>

subsection \<open>The store (\<open>apps/topology/src/topology-store.test.ts\<close>)\<close>

definition no_options :: store_options where
  "no_options = \<lparr>so_heartbeatIntervalMs = None, so_timeoutMultiplier = None, so_idleTimeoutMs = None,
     so_unknownEdgeTimeoutMs = None, so_rpsWindowMs = None, so_activityFlushMs = None, so_nodeUpdateThrottleMs = None\<rparr>"

definition test_service :: "string \<Rightarrow> service_type \<Rightarrow> register_request" where
  "test_service name type = \<lparr>rq_serviceName = name, rq_serviceType = type, rq_language = SERVICE_LANGUAGE_TYPESCRIPT,
     rq_version = None, rq_address = None, rq_host = None, rq_metadata = None\<rparr>"

definition test_activity :: "string \<Rightarrow> string \<Rightarrow> activity_request" where
  "test_activity serviceId target = \<lparr>ra_serviceId = serviceId, ra_targetService = target,
     ra_type = ACTIVITY_TYPE_RESPONSE_RECEIVED, ra_timestampMs = None, ra_latencyMs = Some 50, ra_method = None,
     ra_success = Some True, ra_batchSize = Some 1, ra_errorMessage = None\<rparr>"

lemma registers_a_service_and_returns_a_node_update:
  "case registerService (new_store no_options 1000) (test_service ''calculator-client'' SERVICE_TYPE_CLIENT) ''service-1'' 1000 of
     (s, handle, updates) \<Rightarrow> sh_serviceId handle = ''service-1'' \<and> length updates = 1
       \<and> tu_type (updates ! 0) = UPDATE_TYPE_NODE_ADDED
       \<and> map_option sn_state (tu_node (updates ! 0)) = Some SERVICE_STATE_REGISTERED"
  by code_simp

definition silent_store :: topology_store where
  "silent_store = fst (registerService
     (new_store (no_options\<lparr>so_heartbeatIntervalMs := Some 1000, so_timeoutMultiplier := Some 3\<rparr>) 0)
     (test_service ''calculator-server'' SERVICE_TYPE_SERVER) ''service-2'' 0)"

definition stale_store :: topology_store where
  "stale_store = fst (sweep silent_store 2500)"

lemma marks_services_stale:
  "map (\<lambda>u. (tu_type u, map_option sn_state (tu_node u))) (snd (sweep silent_store 2500)) =
     [(UPDATE_TYPE_NODE_UPDATED, Some SERVICE_STATE_STALE)]"
  by code_simp

lemma removes_stale_services_after_timeout:
  "map tu_type (snd (sweep stale_store 3501)) = [UPDATE_TYPE_NODE_REMOVED]"
  "ts_nodes (snapshot (fst (sweep stale_store 3501)) 3501) = []"
proof -
  have "map fst (services stale_store) = [''service-2'']" "edges stale_store = []"
    "list_all (\<lambda>(k, r). heartbeat_expired r 3501) (services stale_store)"
    by code_simp+
  then obtain r where "services stale_store = [(''service-2'', r)]" "edges stale_store = []" "heartbeat_expired r 3501" by auto
  then show "map tu_type (snd (sweep stale_store 3501)) = [UPDATE_TYPE_NODE_REMOVED]"
    "ts_nodes (snapshot (fst (sweep stale_store 3501)) 3501) = []"
    by (simp_all add: sweep_def removeService_def createNodeUpdate_def snapshot_def Let_def)
qed

definition called_store :: "store_options \<Rightarrow> string \<Rightarrow> string \<Rightarrow> topology_store" where
  "called_store options serviceId target =
     fst (recordActivity (fst (registerService (new_store options 0)
       (test_service ''calculator-client'' SERVICE_TYPE_CLIENT) serviceId 0)) (test_activity serviceId target) 10)"

definition called_three :: topology_store where
  "called_three = called_store (no_options\<lparr>so_activityFlushMs := Some 1000\<rparr>) ''service-3'' ''calculator-server''"

lemma aggregates_activity_into_edge_metrics:
  assumes "s = fst (flushActivity called_three 1010)"
  shows "UPDATE_TYPE_EDGE_UPDATED \<in> set (map tu_type (snd (flushActivity called_three 1010)))"
    and "map se_totalRequests (ts_edges (snapshot s 1010)) = [''1'']" "map se_avgLatencyMs (ts_edges (snapshot s 1010)) = [50]"
    and "map se_state (ts_edges (snapshot s 1010)) = [CONNECTION_STATE_ACTIVE]"
    and "map sn_state (ts_nodes (snapshot s 1010)) = [SERVICE_STATE_ACTIVE]"
proof -
  have "map fst (edges called_three) = [''service-3::calculator-server'']"
    "list_all (\<lambda>(k, er). er_pendingCount er = 1 \<and> er_totalCount er = 0 \<and> er_pendingLatencyTotal er = 50
       \<and> se_state (er_edge er) = CONNECTION_STATE_ACTIVE) (edges called_three)"
    and n: "map (\<lambda>(k, r). sn_state (sr_node r)) (services called_three) = [SERVICE_STATE_ACTIVE]"
    by code_simp+
  then obtain k er where e: "edges called_three = [(k, er)]" "er_pendingCount er = 1" "er_totalCount er = 0"
    "er_pendingLatencyTotal er = 50" "se_state (er_edge er) = CONNECTION_STATE_ACTIVE" by auto
  have one: "string_of_int 1 = ''1''" by code_simp
  note d = assms flushActivity_def flush_edge_def merged_latency_def updateEdgeRps_def snapshot_def createEdgeUpdate_def one Let_def
  show "UPDATE_TYPE_EDGE_UPDATED \<in> set (map tu_type (snd (flushActivity called_three 1010)))"
    "map se_totalRequests (ts_edges (snapshot s 1010)) = [''1'']" "map se_avgLatencyMs (ts_edges (snapshot s 1010)) = [50]"
    "map se_state (ts_edges (snapshot s 1010)) = [CONNECTION_STATE_ACTIVE]"
    by (simp_all add: d e)
  show "map sn_state (ts_nodes (snapshot s 1010)) = [SERVICE_STATE_ACTIVE]"
    using n by (simp add: d comp_def case_prod_unfold)
qed

lemma removes_idle_edges_with_unresolved_targets_after_timeout:
  "case sweep (called_store (no_options\<lparr>so_idleTimeoutMs := Some 1000, so_unknownEdgeTimeoutMs := Some 1500\<rparr>) ''service-4''
       ''calculator.v1.CalculatorService::default'') 2000 of
     (s, updates) \<Rightarrow> UPDATE_TYPE_EDGE_REMOVED \<in> set (map tu_type updates) \<and> ts_edges (snapshot s 2000) = []"
  by code_simp

subsection \<open>The parse service (\<open>apps/demo-domain/parse-service/src/parse.test.ts\<close>)\<close>

text \<open>The object that \<open>JSON.parse\<close> gives back for a text made by \<open>JSON.stringify\<close>.\<close>

definition test_object :: "string \<Rightarrow> string \<Rightarrow> rat \<Rightarrow> json" where
  "test_object ts type v = JObj [(''ts'', JStr ts), (''type'', JStr type), (''user'', JStr ''u1234''), (''value'', JNum v)]"

lemmas parse_test = parseEvent_def test_object_def isRecord_def field_of_def SUPPORTED_TYPES_def

lemma parses_valid_JSON_into_a_ParsedEvent:
  assumes "lib_parse lib raw = Some (test_object ''2026-01-30T10:00:00Z'' ''click'' 42)" "raw \<noteq> []" "lib_print lib 42 = ''42''"
  shows "\<exists>p. parseEvent lib \<lparr>ev_rawJson = raw, ev_sequence = ''9''\<rparr> = Some p
    \<and> pv_type p = ''click'' \<and> pv_user p = ''u1234'' \<and> pv_value p = ''42'' \<and> pv_sequence p = ''9''"
  using assms by (simp add: parse_test trunc_def)

lemma returns_null_for_unsupported_types:
  assumes "lib_parse lib raw = Some (test_object ''2026-01-30T10:00:00Z'' ''signup'' 42)"
  shows "parseEvent lib \<lparr>ev_rawJson = raw, ev_sequence = ''1''\<rparr> = None"
  using assms by (simp add: parse_test)

lemma returns_null_for_invalid_JSON:
  "lib_parse lib raw = None \<Longrightarrow> parseEvent lib \<lparr>ev_rawJson = raw, ev_sequence = ''1''\<rparr> = None"
  by (simp add: parse_test)

lemma keeps_timestamp_at_zero_when_parsing_fails:
  assumes "lib_parse lib raw = Some (test_object ''not-a-date'' ''purchase'' 5)" "raw \<noteq> []" "lib_date lib ''not-a-date'' = None"
    "lib_print lib 0 = ''0''"
  shows "map_option pv_timestamp (parseEvent lib \<lparr>ev_rawJson = raw, ev_sequence = ''1''\<rparr>) = Some ''0''"
  using assms by (simp add: parse_test)

subsection \<open>Rules and aggregation (\<open>rules.test.ts\<close>, \<open>aggregate.test.ts\<close>)\<close>

definition test_event :: "string \<Rightarrow> string \<Rightarrow> parsed_event" where
  "test_event type v = \<lparr>pv_type = type, pv_user = ''u1'', pv_value = v, pv_timestamp = ''0'', pv_sequence = ''1''\<rparr>"

lemma test_values [simp]: "parseValue ''10'' = 10" "parseValue ''5'' = 5" "parseValue ''12'' = 12" "parseValue ''7'' = 7"
proof -
  have i: "parseValue (string_of_int i) = i" if "\<bar>i\<bar> \<le> 2 ^ 53" for i
    using Number_of_string_of_int [OF that] by (simp add: parseValue_def trunc_def)
  have "string_of_int 10 = ''10''" "string_of_int 5 = ''5''" "string_of_int 12 = ''12''" "string_of_int 7 = ''7''" by code_simp+
  with i [of 10] i [of 5] i [of 12] i [of 7]
  show "parseValue ''10'' = 10" "parseValue ''5'' = 5" "parseValue ''12'' = 12" "parseValue ''7'' = 7" by simp_all
qed

lemma filters_out_view_events: "apply_rules (test_event ''view'' ''10'') = None"
  by (simp add: apply_rules_def test_event_def)

lemma filters_out_low_value_events: "apply_rules (test_event ''click'' ''5'') = None"
  by (simp add: apply_rules_def test_event_def MIN_VALUE_def)

lemma passes_events_that_meet_rule_criteria:
  "\<exists>e. apply_rules (test_event ''purchase'' ''12'') = Some e \<and> en_passedRules e
     \<and> map_of (en_metadata e) ''rule'' = Some ''min_value_and_type''"
  by (simp add: apply_rules_def test_event_def MIN_VALUE_def)

definition test_enriched :: "string \<Rightarrow> string \<Rightarrow> bool \<Rightarrow> enriched_event" where
  "test_enriched type v passed = \<lparr>en_event = Some (test_event type v), en_metadata = [], en_passedRules = passed\<rparr>"

lemma aggregates_counts_and_sums_per_key:
  assumes "lib_print lib 15 = ''15''" "lib_print lib 7 = ''7''"
  shows "aggregator_results lib (foldl (\<lambda>a e. aggregator_add e a) []
      [test_enriched ''click'' ''10'' True, test_enriched ''click'' ''5'' True, test_enriched ''purchase'' ''7'' True]) =
    [\<lparr>ag_key = Some ''click'', ag_count = ''2'', ag_sum = ''15'', ag_avg = Finite (15 / 2)\<rparr>,
     \<lparr>ag_key = Some ''purchase'', ag_count = ''1'', ag_sum = ''7'', ag_avg = Finite 7\<rparr>]"
proof -
  have f: "fl (15 / 2) = 15 / 2" by code_simp
  have "string_of_int 2 = ''2''" "string_of_int 1 = ''1''" by code_simp+
  then show ?thesis
    using assms by (simp add: aggregator_add_def aggregator_results_def test_enriched_def test_event_def f)
qed

lemma ignores_events_that_did_not_pass_rules:
  "aggregator_results lib (aggregator_add (test_enriched ''click'' ''10'' False) []) = []"
  by (simp add: aggregator_add_def aggregator_results_def test_enriched_def)

subsection \<open>The event generator (\<open>generator.test.ts\<close>)\<close>

definition test_generator :: generator_config where
  "test_generator = \<lparr>gc_eventCount = 5, gc_outputFile = ''/tmp/events.ndjson'', gc_userCount = 3,
     gc_eventTypes = [''click'', ''view'', ''purchase''], gc_seed = Some 1234, gc_distribution = Some Uniform\<rparr>"

lemma test_generator_valid: "trim ''/tmp/events.ndjson'' = ''/tmp/events.ndjson''"
  by code_simp

lemma writes_the_expected_number_of_NDJSON_events:
  assumes "generateEvents test_generator random 1700000000000 = Inr es"
  shows "length es = 5 \<and> map ge_seq es = [0, 1, 2, 3, 4]
    \<and> all_fit test_generator [''click'', ''view'', ''purchase''] 1700000000000 es"
proof -
  let ?s = "\<lparr>gs_time = 1700000000000, gs_picker = \<lparr>up_burstRemaining = 0, up_burstUser = 0\<rparr>, gs_rng = createRng (Some 1234) random\<rparr>"
  have es: "es = generate_loop test_generator [''click'', ''view'', ''purchase''] 0 5 ?s"
    using assms by (simp add: generateEvents_def validateConfig_def test_generator_def normalizeEventTypes_def test_generator_valid Let_def)
  have f: "all_fit test_generator [''click'', ''view'', ''purchase''] 1700000000000 es" "map ge_seq es = [0..<5]"
    using generate_loop_fits [of ?s test_generator "[''click'', ''view'', ''purchase'']" 0 5]
    by (simp_all add: es createRng_def good_rng_def test_generator_def picker_ok_def)
  have u: "[0..<5] = [0, 1, 2, 3, 4::nat]" by (simp add: upt_rec)
  with f(2) have "length es = 5" by (metis length_map length_upt diff_zero)
  with f u show ?thesis by simp
qed

lemma generate_loop_outputFile [simp]: "generate_loop (c\<lparr>gc_outputFile := f\<rparr>) types i n s = generate_loop c types i n s"
  by (induction n arbitrary: i s) (simp_all add: generate_one_def)

lemma is_deterministic_with_the_same_seed_and_start_time:
  assumes "gc_seed c = Some seed" "trim f \<noteq> []" "trim (gc_outputFile c) \<noteq> []"
  shows "generateEvents (c\<lparr>gc_outputFile := f\<rparr>) random now = generateEvents c random' now"
  using assms by (simp add: generateEvents_def validateConfig_def createRng_def Let_def)

lemma rejects_invalid_configuration_values:
  "generateEvents (test_generator\<lparr>gc_eventCount := 0\<rparr>) random now = Inl ''eventCount must be a positive integer''"
  by (simp add: generateEvents_def validateConfig_def test_generator_def normalizeEventTypes_def)

end
