(* ===== verification/Spec2Isabelle.thy ===== *)
theory Spec2Isabelle
  imports Topology_Properties Topology_Config Supervisor_Properties Broker Client_Manager Reporter_Online
    Proxy_Properties Pipeline_Properties Aggregation Ingest Generator Sse_Proxy
    Dashboard_View Work_Items Calculator_Client Pipeline_Metrics Demo_Runner Reported_Service
    Pipeline_System Server_Lifecycle Supervisor_View Ingest_Server Sink_Writer Topology_System
    Metrics_Example Repository_Tests
begin

text \<open>
  A verification library for the modular runtime: a topology service that keeps a live picture of
  the running services, the programs that report to it and watch it, a supervisor that runs them, a
  broker where they find each other, and a demo pipeline made of such services.  The definitions are
  translations of the TypeScript sources; names follow the code, with a prefix on record fields.

  \<^bold>\<open>Parts of the program and their theories.\<close>

  \<^item> \<open>Runtime_Prelude\<close>, \<open>Js_Number\<close>, \<open>Js_String\<close>, \<open>Js_Numeric\<close>, \<open>Js_Arith\<close>,
    \<open>Js_Json\<close>: what the code takes from
    JavaScript.  Insertion-ordered maps are association lists with distinct keys (the locale
    \<open>insertion_map\<close>, interpreted on \<open>AList\<close>); fractional arithmetic is rounded to doubles by \<open>fl\<close>
    on the rationals, integers up to \<open>2^53\<close> are \<open>int\<close>, and \<open>Js_Arith\<close> adds
    not-a-number and the infinities; strings are lists of code units;
    \<open>parseInt\<close>, \<open>Number\<close>, \<open>trim\<close> and \<open>split\<close> are defined, and \<open>Utf8_Text\<close> has the decoding of a
    chunk of bytes, which breaks a character that is cut between two chunks.  \<open>reactive\<close> is the interface of a
    component as a total step function with an invariant; every component interprets it.

  \<^item> Topology service (\<open>apps/topology/src\<close>, \<open>packages/proto/runtime\<close>).  \<open>Topology_Types\<close> has the messages,
    \<open>Topology_Store\<close> the state and operations of \<open>topology-store.ts\<close> (registration, heartbeats,
    activity, sweep, flush, snapshot), \<open>Topology_Service\<close> the gRPC handlers, timers and watch streams
    of \<open>topology-service.ts\<close>, \<open>Topology_Config\<close> the command line (\<open>config.ts\<close>).
    \<open>Topology_Invariant\<close> and \<open>Topology_Facts\<close> hold the invariant of the store and what each operation
    does on every branch; \<open>Topology_Properties\<close> the promises.

  \<^item> Dashboard (\<open>apps/dashboard/src/hooks/useTopologyStream.ts\<close>).  \<open>Dashboard_Stream\<close> is the reducer that
    keeps the copy of the topology; \<open>Replication\<close> is the interface of a store and its copies
    (locale \<open>replicated_store\<close>), which \<open>Topology_Replica\<close> interprets for store and dashboard and
    \<open>Broker\<close> for registry and listeners.  \<open>Topology_Graph\<close> is the drawing made of the copy
    (\<open>components/TopologyGraph.tsx\<close>, \<open>utils/topologyFormat.ts\<close>): which node a key stands for, the
    placeholders, the layout, and when the previous drawing is kept.  \<open>Dashboard_View\<close> has the
    contents of cards, tables and navigation (\<open>App.tsx\<close> and the table components), \<open>Dashboard_Pages\<close>
    the pages made of them and the frame around them.  \<open>Dashboard_Hook\<close> shows that the copy, which
    leaves out updates that change nothing it compares, shows what a full copy shows, and \<open>Redelivery\<close>
    that updates which a snapshot already contains, and which arrive after it, do no harm.

  \<^item> Supervisor (\<open>apps/supervisor/src/supervisor.tsx\<close>).  \<open>Supervisor\<close> has configuration loading, process
    lifecycle, restart policy, logs, keys and shutdown as one step function; process exits, spawn
    results, output and timers are its events.  \<open>Supervisor_Invariant\<close>, \<open>Supervisor_Shutdown\<close> and
    \<open>Supervisor_Properties\<close> hold bounds, the one-process property and the termination of a shutdown;
    \<open>Supervisor_View\<close> the rows of the screen and the effect that keeps it current.

  \<^item> Broker and its client (\<open>packages/broker/src\<close>, \<open>packages/common/src/index.ts\<close>).  \<open>Broker\<close> is the registry
    with its notifications, and registration, lookup and shutdown of the client; \<open>Client_Manager\<close>
    is the connection: client object, callbacks still owed, reconnect timer, change stream.  The manager
    reconnects as long as its change stream breaks while the connection is watched or no client is
    present; the theory also shows what happens otherwise.

  \<^item> Reporter (\<open>packages/topology-reporter/src/topology-reporter.ts\<close>) and its HTTP proxy
    (\<open>apps/topology/src/topology-reporter-proxy.ts\<close>).  \<open>Reporter\<close> is the asynchronous class as a state
    machine whose steps are the points where the code awaits something; \<open>Reporter_Properties\<close> and
    \<open>Reporter_Online\<close> hold its promises, the latter those that need writes which do not throw, and what
    happens when one does.  \<open>Reporter_Proxy\<close> has the request checks and handlers over a
    heap of reporters, \<open>Proxy_Properties\<close> what it guarantees.

  \<^item> Reporter and service together.  \<open>Reported_Service\<close> runs a reporter against the store, between
    calls of other services and the store's own timers.

  \<^item> SSE proxy and stack (\<open>apps/topology/src/topology-proxy.ts\<close>, \<open>topology.ts\<close>).  \<open>Sse_Proxy\<close> has the fan-out
    of the watch stream to HTTP connections, with the snapshot fetched for each new one, and the order
    in which the three servers start and stop.

  \<^item> From the store to the screen.  \<open>Topology_System\<close> joins service, SSE proxy, hook and pages by their
    streams and proves what a dashboard shows after any run in which no later update overtakes its
    snapshot; an overtaken snapshot can hide a service, which the theory shows on a run.

  \<^item> Demo pipeline (\<open>apps/demo-domain\<close>).  \<open>Pipeline_Types\<close> has the messages and all command lines, over one
    argument loop; \<open>Ingest\<close>, \<open>Pipeline_Services\<close> (parse, rules, aggregate, sink) and \<open>Orchestrator\<close> the
    programs.  \<open>Pipeline_Properties\<close> proves that the orchestrator forwards everything (locale
    \<open>forwarder\<close>, interpreted for the three intermediate streams); \<open>Pipeline_System\<close> joins the
    orchestrator and the five services by streams (locale \<open>stream_link\<close>, interpreted for the four
    streams that carry data) and proves that every run ends with the results of a direct computation,
    as long as the numbers sent are 64-bit integers, which the serialisation of the messages demands;
    \<open>Ingest_Server\<close> has several calls of the ingest service at a time, and \<open>Sink_Writer\<close> the chain of
    writes behind a call of the sink; \<open>Aggregation\<close> what the aggregator computes; \<open>Generator\<close> the
    seeded event generator, on 32-bit words.  \<open>Work_Items\<close> is the numerical work of the three services on a work item
    (\<open>workitem-processor.ts\<close>), \<open>Pipeline_Metrics\<close> the timing (\<open>packages/pipeline-common/src/metrics.ts\<close>),
    \<open>Metrics_Example\<close> the instrumented client of the ingest service (\<open>metrics-example.ts\<close>),
    \<open>Demo_Scripts\<close> the scripts that run the demo (\<open>examples/demo-scenarios\<close>): command lines, output
    lines and cleanup; \<open>Demo_Runner\<close> has the main function of the split pipeline's script as a list of
    steps with waits.

  \<^item> Calculator (\<open>apps/calculator-server\<close>, \<open>apps/calculator-client\<close>).  \<open>Calculator\<close> composes broker, broker
    client and reporter: a server that registers whenever the broker is reached and leaves on a
    signal once its calls of the broker are answered or fail with the connection, and a client that looks it up and reports its calls as edges of the topology;
    \<open>Calculator_Client\<close> the program of that client, with its random calls.

  \<^item> Servers.  \<open>Server_Lifecycle\<close> has how the servers start and stop: the gRPC server of the topology
    service, the HTTP servers of the proxies, the broker's process and the mains of the pipeline's services.

  \<^item> Tests.  \<open>Repository_Tests\<close> evaluates the test suites of the repository on the definitions.

  \<^bold>\<open>How the parts interact.\<close>  A reporter registers with the topology service and sends heartbeats and
  activity on streams; the service applies each call to the store and broadcasts the resulting
  updates to every watching stream, whose client applies them to its copy.  The supervisor only
  starts and stops processes.  The pipeline is a chain of streams that the orchestrator connects.
  Network, clock, process and user events are arguments of the step functions, so the theorems
  hold for every order in which they occur; what a stream was sent is part of the state.

  \<^bold>\<open>Bounds.\<close>  No definition needs fuel except the loop of the proxy's \<open>stop\<close>, which visits every entry
  at most once and is given one more step than there are entries.  The loop that generates work
  items may run for ever; it consumes one flag of the environment per iteration.

  \<^bold>\<open>Not modelled.\<close>  gRPC, HTTP and process libraries are represented by the events and outcomes the code
  sees (a write may throw, a constructor may fail, a call may stay unanswered until its connection is
  lost, a server may take any time to close).  The generated
  enumerations, \<open>JSON.parse\<close>, \<open>JSON.stringify\<close>, \<open>Date.parse\<close>, \<open>Math.sqrt\<close>, the printing of doubles
  and what depends on a locale are parameters; so is what a work item processor makes of JSON that
  does not have the declared types.  A message is serialised when it is written: later changes of an
  object that was sent are not visible to its receiver.  The boxes and the styling of Ink and
  React components, most console output, the spawning of processes itself, the generated code and
  configuration files, and the programs in other languages are left out.
\<close>

end
